(* ===== verification/Prelude.thy ===== *)
theory Prelude
  imports Main "HOL-Library.Word" "HOL-Library.AList" "HOL-Library.Sublist" "HOL-Library.Multiset"
begin

text \<open>
  Shared ground of the development: Go's fixed-width signed integers written as
  \<open>int\<close> with the wrap-around of their width made explicit, and generic lemmas on
  lists, association lists and sums of errors that several components use.

  Go's \<open>int64\<close> addition and subtraction wrap around in two's complement. A value of
  that type is an \<open>int\<close> \<open>x\<close> with \<open>int64 x\<close>; every addition, subtraction or
  negation of the source is written with \<open>wrap64\<close> around the mathematical result.
\<close>

named_theorems wrap_simps \<open>how the wrapping operations nest and when they are exact\<close>

definition max_int64 :: int where
  "max_int64 = 9223372036854775807"

definition min_int64 :: int where
  "min_int64 = - 9223372036854775808"

definition int64 :: "int \<Rightarrow> bool" where
  "int64 x \<longleftrightarrow> min_int64 \<le> x \<and> x \<le> max_int64"

definition wrap64 :: "int \<Rightarrow> int" where
  "wrap64 x = (x + 9223372036854775808) mod 18446744073709551616 - 9223372036854775808"

definition wrap32 :: "int \<Rightarrow> int" where
  "wrap32 x = (x + 2147483648) mod 4294967296 - 2147483648"

lemma wrap64_word: "wrap64 x = sint (word_of_int x :: 64 word)"
proof -
  have "sint (word_of_int x :: 64 word) = signed_take_bit 63 x"
    by (simp add: signed_of_int)
  also have "\<dots> = (x + 9223372036854775808) mod 18446744073709551616 - 9223372036854775808"
    by (simp add: signed_take_bit_eq_take_bit_shift take_bit_eq_mod)
  finally show ?thesis by (simp add: wrap64_def)
qed

lemma int64_wrap64 [simp, intro]: "int64 (wrap64 x)"
proof -
  have "0 \<le> (x + 9223372036854775808) mod 18446744073709551616"
    and "(x + 9223372036854775808) mod 18446744073709551616 < 18446744073709551616"
    by simp_all
  then show ?thesis
    by (simp add: int64_def wrap64_def min_int64_def max_int64_def)
qed

lemma wrap64_id [wrap_simps]: "int64 x \<Longrightarrow> wrap64 x = x"
  by (simp add: int64_def wrap64_def min_int64_def max_int64_def)

lemma wrap64_idem [simp]: "wrap64 (wrap64 x) = wrap64 x"
  by (simp add: wrap64_id)

lemma wrap64_add_left [wrap_simps]: "wrap64 (wrap64 x + y) = wrap64 (x + y)"
proof -
  have "(wrap64 x + y + 9223372036854775808) mod 18446744073709551616
    = ((x + 9223372036854775808) mod 18446744073709551616 + y) mod 18446744073709551616"
    by (simp add: wrap64_def algebra_simps)
  also have "\<dots> = (x + y + 9223372036854775808) mod 18446744073709551616"
    by (simp add: mod_simps algebra_simps)
  finally show ?thesis
    unfolding wrap64_def [of "wrap64 x + y"] wrap64_def [of "x + y"] by simp
qed

lemma wrap64_add_right [wrap_simps]: "wrap64 (y + wrap64 x) = wrap64 (y + x)"
  using wrap64_add_left [of x y] by (simp add: add.commute)

lemma wrap64_diff_left [wrap_simps]: "wrap64 (wrap64 x - y) = wrap64 (x - y)"
  using wrap64_add_left [of x "- y"] by simp

lemma wrap64_0 [simp]: "wrap64 0 = 0"
  by (simp add: wrap64_def)

lemma int64_sub_pos: "int64 a \<Longrightarrow> int64 b \<Longrightarrow> 0 \<le> a \<Longrightarrow> 0 \<le> b \<Longrightarrow> wrap64 (a - b) = a - b"
  by (rule wrap64_id) (simp add: int64_def min_int64_def max_int64_def)

lemma wrap32_small: "0 \<le> x \<Longrightarrow> x < 2147483648 \<Longrightarrow> wrap32 x = x"
  by (simp add: wrap32_def)

text \<open>Go's integer division and remainder truncate towards zero.\<close>

definition go_quo :: "int \<Rightarrow> int \<Rightarrow> int" where
  "go_quo a b = sgn a * sgn b * (\<bar>a\<bar> div \<bar>b\<bar>)"

definition go_rem :: "int \<Rightarrow> int \<Rightarrow> int" where
  "go_rem a b = a - b * go_quo a b"

lemma go_quo_nonneg: "0 \<le> a \<Longrightarrow> 0 < b \<Longrightarrow> go_quo a b = a div b"
  by (cases "a = 0") (simp_all add: go_quo_def)

lemma go_rem_nonneg: "0 \<le> a \<Longrightarrow> 0 < b \<Longrightarrow> go_rem a b = a mod b"
  by (simp add: go_rem_def go_quo_nonneg minus_mult_div_eq_mod)

lemma div_eq_iff_bounds:
  fixes N D a :: int
  assumes "0 < D"
  shows "N div D = a \<longleftrightarrow> a * D \<le> N \<and> N < (a + 1) * D"
proof
  assume "N div D = a"
  then have "D * a + N mod D = N" by (metis mult_div_mod_eq)
  moreover have "0 \<le> N mod D" "N mod D < D" using assms by simp_all
  ultimately show "a * D \<le> N \<and> N < (a + 1) * D" by (simp add: algebra_simps)
next
  assume "a * D \<le> N \<and> N < (a + 1) * D"
  then show "N div D = a"
    using int_div_pos_eq [of N D a "N - a * D"] by (simp add: algebra_simps)
qed

section \<open>Association lists as Go maps\<close>

text \<open>
  A Go map that the program iterates is an association list with distinct keys: the
  order of the list stands for Go's unspecified iteration order.
\<close>

lemma map_of_AList_update [simp]:
  "map_of (AList.update k v al) = (map_of al)(k \<mapsto> v)"
  by (rule AList.update_conv')

lemma map_of_AList_delete [simp]:
  "map_of (AList.delete k al) = (map_of al)(k := None)"
  by (rule AList.delete_conv')

lemma set_AList_delete:
  "distinct (map fst al) \<Longrightarrow> set (AList.delete k al) = {x \<in> set al. fst x \<noteq> k}"
  by (auto simp: AList.delete_eq)

lemma AList_update_new: "k \<notin> fst ` set al \<Longrightarrow> AList.update k v al = al @ [(k, v)]"
  by (induction al) auto

section \<open>Lists\<close>

lemma sum_list_remove1:
  fixes f :: "'a \<Rightarrow> int"
  shows "x \<in> set xs \<Longrightarrow> (\<Sum>y\<leftarrow>remove1 x xs. f y) = (\<Sum>y\<leftarrow>xs. f y) - f x"
  by (induction xs) auto

lemma in_set_butlast_iff:
  "distinct xs \<Longrightarrow> xs \<noteq> [] \<Longrightarrow> x \<in> set (butlast xs) \<longleftrightarrow> x \<in> set xs \<and> x \<noteq> last xs"
  by (cases xs rule: rev_cases) auto

lemma sum_mset_subset_le: "A \<subseteq># B \<Longrightarrow> (\<Sum>x\<in>#A. f x :: nat) \<le> (\<Sum>x\<in>#B. f x)"
  by (auto simp: mset_subset_eq_exists_conv)

lemma sum_list_less:
  fixes f g :: "'a \<Rightarrow> nat"
  assumes "x \<in> set xs" "f x < g x" "\<And>y. f y \<le> g y"
  shows "sum_list (map f xs) < sum_list (map g xs)"
  using assms(1)
proof (induction xs)
  case (Cons y ys)
  have "sum_list (map f ys) \<le> sum_list (map g ys)"
    by (rule sum_list_mono) (rule assms(3))
  then show ?case
    using Cons assms(2) assms(3) [of y] by (cases "x = y") (auto intro: add_less_le_mono add_le_less_mono)
qed simp

lemma find_unique:
  assumes "x \<in> set xs" "P x" "\<And>y. y \<in> set xs \<Longrightarrow> P y \<Longrightarrow> y = x"
  shows "find P xs = Some x"
proof (cases "find P xs")
  case None
  then show ?thesis using assms(1,2) by (simp add: find_None_iff)
next
  case (Some y)
  then have "y \<in> set xs" "P y" by (auto simp: find_Some_iff)
  then show ?thesis using Some assms(3) by blast
qed

lemma distinct_concat_map:
  assumes "distinct ps" "\<And>p. distinct (q p)" "\<And>p r e. e \<in> set (q p) \<Longrightarrow> e \<in> set (q r) \<Longrightarrow> r = p"
  shows "distinct (concat (map q ps))"
  using assms(1)
proof (induction ps)
  case (Cons p ps)
  have "set (q p) \<inter> set (concat (map q ps)) = {}"
  proof (rule ccontr)
    assume "set (q p) \<inter> set (concat (map q ps)) \<noteq> {}"
    then obtain r e where "r \<in> set ps" "e \<in> set (q p)" "e \<in> set (q r)" by auto
    moreover then have "r = p" by (intro assms(3))
    ultimately show False using Cons.prems by simp
  qed
  then show ?case using Cons assms(2) [of p] by simp
qed simp

lemma sort_key_map: "sort_key f (map g xs) = map g (sort_key (\<lambda>x. f (g x)) xs)"
proof -
  have ins: "insort_key f (g x) (map g ys) = map g (insort_key (\<lambda>x. f (g x)) x ys)" for x ys
    by (induction ys) auto
  show ?thesis by (induction xs) (simp_all add: ins)
qed

lemma find_SomeI: "x \<in> set xs \<Longrightarrow> P x \<Longrightarrow> \<exists>y. find P xs = Some y"
  by (induction xs) auto

lemma find_SomeD: "find P xs = Some x \<Longrightarrow> x \<in> set xs \<and> P x"
  by (induction xs) (auto split: if_splits)

end
