(* ===== verification/GoStrings.thy ===== *)
theory GoStrings
  imports Prelude
begin

text \<open>
  The parts of Go's standard library for strings that the program uses, on byte strings:
  a Go \<open>string\<close> is a sequence of bytes and so is \<open>string\<close> (a \<open>char\<close> is a byte).
  \<open>strings.TrimSpace\<close>, \<open>Split\<close>, \<open>TrimLeft\<close>, \<open>TrimRight\<close>, \<open>Trim\<close>, \<open>ContainsAny\<close>
  and \<open>Repeat\<close>; \<open>strconv.FormatInt\<close> and \<open>strconv.ParseInt\<close> in base 10 for 64 bits.
\<close>

named_theorems go_str \<open>evaluation of the string functions on their usual arguments\<close>

section \<open>Digits and decimal numerals\<close>

definition digit_char :: "char \<Rightarrow> bool" where
  "digit_char c \<longleftrightarrow> 48 \<le> (of_char c :: nat) \<and> (of_char c :: nat) \<le> 57"

definition digit_val :: "char \<Rightarrow> int" where
  "digit_val c = of_char c - 48"

definition digit_of :: "int \<Rightarrow> char" where
  "digit_of n = char_of (48 + n)"

fun dec_val_acc :: "int \<Rightarrow> string \<Rightarrow> int" where
  "dec_val_acc n [] = n"
| "dec_val_acc n (c # cs) = dec_val_acc (10 * n + digit_val c) cs"

definition dec_val :: "string \<Rightarrow> int" where
  "dec_val s = dec_val_acc 0 s"

text \<open>The decimal numeral of a number that is not negative.\<close>

function digits10 :: "int \<Rightarrow> string" where
  "digits10 n = (if n < 10 then [digit_of n] else digits10 (n div 10) @ [digit_of (n mod 10)])"
  by pat_completeness auto
termination
  by (relation "measure nat") auto

declare digits10.simps [simp del]

definition FormatInt :: "int \<Rightarrow> string" where
  "FormatInt v = (if v < 0 then CHR ''-'' # digits10 (- v) else digits10 v)"

text \<open>\<open>strconv.ParseInt(s, 10, 64)\<close>: \<open>None\<close> is either of its two errors, bad syntax or
  out of range.\<close>

definition ParseInt :: "string \<Rightarrow> int option" where
  "ParseInt s =
     (let neg = (s \<noteq> [] \<and> hd s = CHR ''-'');
          ds = (if s \<noteq> [] \<and> (hd s = CHR ''-'' \<or> hd s = CHR ''+'') then tl s else s);
          v = (if neg then - dec_val ds else dec_val ds)
      in if ds \<noteq> [] \<and> list_all digit_char ds \<and> int64 v then Some v else None)"

lemma digit_val_0: "digit_val (CHR ''0'') = 0"
  by (simp add: digit_val_def)

lemma digit_of_0: "digit_of 0 = CHR ''0''"
  by (rule of_char_eqI [where ?'a = nat]) (simp add: digit_of_def char_of_def)

lemma of_char_digit_of: "0 \<le> n \<Longrightarrow> n < 10 \<Longrightarrow> (of_char (digit_of n) :: int) = 48 + n"
  by (simp add: digit_of_def)

lemma digit_of_digit [simp]:
  assumes "0 \<le> n" "n < 10"
  shows "digit_char (digit_of n)"
proof -
  have "int (of_char (digit_of n)) = 48 + n"
    using assms by (simp only: of_nat_of_char of_char_digit_of)
  with assms show ?thesis by (simp add: digit_char_def)
qed

lemma digit_val_of [simp]: "0 \<le> n \<Longrightarrow> n < 10 \<Longrightarrow> digit_val (digit_of n) = n"
  by (simp add: digit_val_def of_char_digit_of)

lemma of_char_int: "(of_char c :: int) = int (of_char c)"
  by (simp only: of_nat_of_char)

lemma digit_val_range: "digit_char c \<Longrightarrow> 0 \<le> digit_val c \<and> digit_val c < 10"
  unfolding digit_char_def digit_val_def of_char_int by simp

lemma digit_of_val: "digit_char c \<Longrightarrow> digit_of (digit_val c) = c"
  by (simp add: digit_char_def digit_val_def digit_of_def)

lemma dec_val_acc: "dec_val_acc n s = n * 10 ^ length s + dec_val s"
proof (induction s arbitrary: n)
  case Nil
  then show ?case by (simp add: dec_val_def)
next
  case (Cons c s)
  have "dec_val_acc n (c # s) = (10 * n + digit_val c) * 10 ^ length s + dec_val s"
    by (simp add: Cons.IH)
  moreover have "dec_val (c # s) = digit_val c * 10 ^ length s + dec_val s"
    by (simp add: dec_val_def [of "c # s"] Cons.IH [of "digit_val c"])
  ultimately show ?case by (simp add: algebra_simps)
qed

lemma dec_val_Nil [simp]: "dec_val [] = 0"
  by (simp add: dec_val_def)

lemma dec_val_Cons: "dec_val (c # s) = digit_val c * 10 ^ length s + dec_val s"
  using dec_val_acc [of "digit_val c" s] by (simp add: dec_val_def)

lemma dec_val_append: "dec_val (s @ t) = dec_val s * 10 ^ length t + dec_val t"
  by (induction s) (simp_all add: dec_val_Cons algebra_simps power_add)

lemma dec_val_nonneg: "list_all digit_char s \<Longrightarrow> 0 \<le> dec_val s"
  by (induction s) (auto simp: dec_val_Cons digit_val_range)

lemma digits10_ne [simp]: "digits10 n \<noteq> []"
  by (subst digits10.simps) simp

lemma digits10_digits [simp]: "0 \<le> n \<Longrightarrow> list_all digit_char (digits10 n)"
proof (induction n rule: digits10.induct)
  case (1 n)
  then show ?case by (subst digits10.simps) auto
qed

lemma dec_val_digits10 [simp]: "0 \<le> n \<Longrightarrow> dec_val (digits10 n) = n"
proof (induction n rule: digits10.induct)
  case (1 n)
  then show ?case
    by (subst digits10.simps) (auto simp: dec_val_append dec_val_Cons)
qed

text \<open>The numeral of a positive number has no leading zero.\<close>

lemma hd_digits10: "0 < n \<Longrightarrow> hd (digits10 n) \<noteq> CHR ''0''"
proof (induction n rule: digits10.induct)
  case (1 n)
  show ?case
  proof (cases "n < 10")
    case True
    have "digit_of n \<noteq> CHR ''0''"
    proof
      assume "digit_of n = CHR ''0''"
      then have "digit_val (digit_of n) = digit_val (CHR ''0'')" by simp
      with True 1(2) show False by (simp add: digit_val_0)
    qed
    with True show ?thesis by (subst digits10.simps) simp
  next
    case False
    then have "hd (digits10 (n div 10)) \<noteq> CHR ''0''"
      using 1 by simp
    with False show ?thesis by (subst digits10.simps) simp
  qed
qed

lemma digit_char_not:
  "digit_char c \<Longrightarrow> c \<noteq> CHR ''.'' \<and> c \<noteq> CHR ''-'' \<and> c \<noteq> CHR ''+'' \<and> c \<noteq> CHR ''e'' \<and> c \<noteq> CHR ''E''"
  by (auto simp: digit_char_def)

lemma ParseInt_digits:
  "ds \<noteq> [] \<Longrightarrow> list_all digit_char ds \<Longrightarrow>
   ParseInt ds = (if int64 (dec_val ds) then Some (dec_val ds) else None)"
  by (cases ds) (auto simp: ParseInt_def Let_def dest: digit_char_not)

lemma ParseInt_neg_digits:
  "ds \<noteq> [] \<Longrightarrow> list_all digit_char ds \<Longrightarrow>
   ParseInt (CHR ''-'' # ds)
     = (if int64 (- dec_val ds) then Some (- dec_val ds) else None)"
  by (simp add: ParseInt_def Let_def)

section \<open>Trimming, splitting, repeating\<close>

text \<open>
  \<open>strings.TrimSpace\<close> removes leading and trailing Unicode white space. The code points
  of \<open>unicode.IsSpace\<close> are listed by their UTF-8 encodings: the six ASCII ones, U+0085,
  U+00A0, U+1680, U+2000 to U+200A, U+2028, U+2029, U+202F, U+205F and U+3000. No encoding
  is a prefix or a suffix of another, and a byte sequence decodes to one of these code
  points only as it is listed, so trimming by these sequences is trimming by runes.
\<close>

definition space_runes :: "string list" where
  "space_runes =
     [[CHR 0x09], [CHR 0x0A], [CHR 0x0B], [CHR 0x0C], [CHR 0x0D], [CHR 0x20],
      [CHR 0xC2, CHR 0x85], [CHR 0xC2, CHR 0xA0], [CHR 0xE1, CHR 0x9A, CHR 0x80],
      [CHR 0xE2, CHR 0x80, CHR 0x80], [CHR 0xE2, CHR 0x80, CHR 0x81],
      [CHR 0xE2, CHR 0x80, CHR 0x82], [CHR 0xE2, CHR 0x80, CHR 0x83],
      [CHR 0xE2, CHR 0x80, CHR 0x84], [CHR 0xE2, CHR 0x80, CHR 0x85],
      [CHR 0xE2, CHR 0x80, CHR 0x86], [CHR 0xE2, CHR 0x80, CHR 0x87],
      [CHR 0xE2, CHR 0x80, CHR 0x88], [CHR 0xE2, CHR 0x80, CHR 0x89],
      [CHR 0xE2, CHR 0x80, CHR 0x8A], [CHR 0xE2, CHR 0x80, CHR 0xA8],
      [CHR 0xE2, CHR 0x80, CHR 0xA9], [CHR 0xE2, CHR 0x80, CHR 0xAF],
      [CHR 0xE2, CHR 0x81, CHR 0x9F], [CHR 0xE3, CHR 0x80, CHR 0x80]]"

text \<open>The length of the first listed sequence that starts the string, 0 when none does.\<close>

fun head_len :: "string list \<Rightarrow> string \<Rightarrow> nat" where
  "head_len [] s = 0"
| "head_len (t # ts) s = (if prefix t s then length t else head_len ts s)"

function trim_front :: "string list \<Rightarrow> string \<Rightarrow> string" where
  "trim_front ts s = (if head_len ts s = 0 \<or> s = [] then s else trim_front ts (drop (head_len ts s) s))"
  by pat_completeness auto
termination
  by (relation "measure (\<lambda>(ts, s). length s)") auto

declare trim_front.simps [simp del]

definition TrimSpace :: "string \<Rightarrow> string" where
  "TrimSpace s = rev (trim_front (map rev space_runes) (rev (trim_front space_runes s)))"

text \<open>\<open>strings.TrimLeft\<close>, \<open>TrimRight\<close> and \<open>Trim\<close> with a cutset of ASCII characters.\<close>

definition TrimLeft :: "string \<Rightarrow> string \<Rightarrow> string" where
  "TrimLeft s cutset = dropWhile (\<lambda>c. c \<in> set cutset) s"

definition TrimRight :: "string \<Rightarrow> string \<Rightarrow> string" where
  "TrimRight s cutset = rev (dropWhile (\<lambda>c. c \<in> set cutset) (rev s))"

definition Trim :: "string \<Rightarrow> string \<Rightarrow> string" where
  "Trim s cutset = TrimRight (TrimLeft s cutset) cutset"

definition ContainsAny :: "string \<Rightarrow> string \<Rightarrow> bool" where
  "ContainsAny s chars \<longleftrightarrow> list_ex (\<lambda>c. c \<in> set chars) s"

text \<open>\<open>strings.Split\<close> with a one-character separator: always at least one part.\<close>

fun Split :: "string \<Rightarrow> char \<Rightarrow> string list" where
  "Split [] sep = [[]]"
| "Split (c # cs) sep =
     (if c = sep then [] # Split cs sep
      else (case Split cs sep of [] \<Rightarrow> [[c]] | p # ps \<Rightarrow> (c # p) # ps))"

text \<open>\<open>strings.Repeat(c, n)\<close> for a one-character string: \<open>None\<close> is its panic on a negative
  count.\<close>

definition Repeat :: "char \<Rightarrow> int \<Rightarrow> string option" where
  "Repeat c n = (if n < 0 then None else Some (replicate (nat n) c))"

lemma Split_ne [simp]: "Split s sep \<noteq> []"
  by (induction s) (auto split: list.splits)

lemma Split_no_sep [go_str]: "sep \<notin> set s \<Longrightarrow> Split s sep = [s]"
  by (induction s) auto

lemma Split_sep [go_str]: "sep \<notin> set s \<Longrightarrow> Split (s @ sep # t) sep = s # Split t sep"
  by (induction s) (auto split: list.splits)

lemma Split_one: "Split s sep = [p] \<Longrightarrow> s = p \<and> sep \<notin> set p"
  by (induction s arbitrary: p) (auto split: list.splits if_splits)

lemma Split_two: "Split s sep = [p, q] \<Longrightarrow> s = p @ sep # q \<and> sep \<notin> set p \<and> sep \<notin> set q"
proof (induction s arbitrary: p)
  case Nil
  then show ?case by simp
next
  case (Cons c s)
  show ?case
  proof (cases "c = sep")
    case True
    with Cons.prems show ?thesis by (auto dest: Split_one)
  next
    case False
    with Cons.prems obtain p' where "Split s sep = [p', q]" and "p = c # p'"
      by (auto split: list.splits)
    with Cons.IH [of p'] False show ?thesis by auto
  qed
qed

lemma head_len_0: "(\<And>t. t \<in> set ts \<Longrightarrow> t \<noteq> [] \<Longrightarrow> \<not> prefix t s) \<Longrightarrow> head_len ts s = 0"
  by (induction ts) auto

text \<open>A string whose first and last bytes start no space and end no space is left alone.\<close>

definition plain_char :: "char \<Rightarrow> bool" where
  "plain_char c \<longleftrightarrow> 33 \<le> (of_char c :: nat) \<and> (of_char c :: nat) \<le> 126"

lemma digit_char_plain: "digit_char c \<Longrightarrow> plain_char c"
  by (simp add: digit_char_def plain_char_def)

lemma trim_front_plain:
  assumes "\<And>t. t \<in> set ts \<Longrightarrow> t \<noteq> [] \<and> \<not> plain_char (hd t)" and "s \<noteq> [] \<Longrightarrow> plain_char (hd s)"
  shows "trim_front ts s = s"
proof -
  have "\<not> prefix t s" if "t \<in> set ts" for t
  proof
    assume p: "prefix t s"
    from assms(1) [OF that] obtain c t' where t: "t = c # t'" "\<not> plain_char c"
      by (cases t) auto
    with p obtain s' where "s = c # s'" by (cases s) auto
    with assms(2) t(2) show False by simp
  qed
  then have "head_len ts s = 0" by (intro head_len_0) auto
  then show ?thesis by (subst trim_front.simps) simp
qed

lemma TrimSpace_plain [go_str]:
  assumes "s \<noteq> [] \<Longrightarrow> plain_char (hd s) \<and> plain_char (last s)"
  shows "TrimSpace s = s"
proof -
  have "trim_front space_runes s = s"
    by (rule trim_front_plain) (use assms in \<open>auto simp: space_runes_def plain_char_def\<close>)
  moreover have "trim_front (map rev space_runes) (rev s) = rev s"
    by (rule trim_front_plain) (use assms in \<open>auto simp: space_runes_def plain_char_def hd_rev\<close>)
  ultimately show ?thesis by (simp add: TrimSpace_def)
qed

text \<open>Trimming twice is trimming once.\<close>

lemma head_len_0_iff: "[] \<notin> set ts \<Longrightarrow> head_len ts s = 0 \<longleftrightarrow> (\<forall>t \<in> set ts. \<not> prefix t s)"
  by (induction ts) auto

lemma trim_front_drop: "\<exists>k. trim_front ts s = drop k s"
proof (induction ts s rule: trim_front.induct)
  case (1 ts s)
  show ?case
  proof (cases "head_len ts s = 0 \<or> s = []")
    case True
    then have "trim_front ts s = drop 0 s" by (subst trim_front.simps) simp
    then show ?thesis ..
  next
    case False
    then show ?thesis using 1 by (subst trim_front.simps) (auto simp: add.commute)
  qed
qed

lemma trim_front_done: "trim_front ts s = [] \<or> head_len ts (trim_front ts s) = 0"
proof (induction ts s rule: trim_front.induct)
  case (1 ts s)
  then show ?case by (subst (1 2) trim_front.simps) auto
qed

lemma trim_front_stop: "s = [] \<or> head_len ts s = 0 \<Longrightarrow> trim_front ts s = s"
  by (subst trim_front.simps) auto

lemma TrimSpace_idem [simp]: "TrimSpace (TrimSpace s) = TrimSpace s"
proof -
  define a where "a = trim_front space_runes s"
  define b where "b = trim_front (map rev space_runes) (rev a)"
  have ne: "[] \<notin> set space_runes" by (simp add: space_runes_def)
  obtain k where "b = drop k (rev a)" using trim_front_drop unfolding b_def by blast
  then have pre: "prefix (rev b) a" by (simp add: drop_rev take_is_prefix)
  have "rev b = [] \<or> head_len space_runes (rev b) = 0"
  proof (cases "a = []")
    case False
    then have "head_len space_runes a = 0" using trim_front_done [of space_runes s] by (simp add: a_def)
    then show ?thesis using pre by (auto simp: head_len_0_iff [OF ne] dest: prefix_order.trans)
  qed (use pre in simp)
  then have "trim_front space_runes (rev b) = rev b" by (rule trim_front_stop)
  moreover have "trim_front (map rev space_runes) b = b"
    using trim_front_done [of "map rev space_runes" "rev a"] by (intro trim_front_stop) (simp add: b_def)
  ultimately show ?thesis unfolding TrimSpace_def a_def [symmetric] b_def [symmetric] by simp
qed

lemma TrimSpace_Nil [simp]: "TrimSpace [] = []"
  by (rule TrimSpace_plain) simp

lemma Repeat_nonneg [go_str]: "0 \<le> n \<Longrightarrow> Repeat c n = Some (replicate (nat n) c)"
  by (simp add: Repeat_def)

lemma dropWhile_zeros_val: "dec_val (dropWhile (\<lambda>c. c = CHR ''0'') s) = dec_val s"
proof (induction s)
  case Nil
  then show ?case by simp
next
  case (Cons c s)
  then show ?case by (auto simp: dec_val_Cons digit_val_def)
qed

lemma TrimLeft_zeros [go_str]: "dec_val (TrimLeft s ''0'') = dec_val s"
  using dropWhile_zeros_val [of s] by (simp add: TrimLeft_def)

lemma TrimLeft_digits: "list_all digit_char s \<Longrightarrow> list_all digit_char (TrimLeft s cs)"
  by (auto simp: TrimLeft_def list_all_iff dest: set_dropWhileD)

lemma dec_val_replicate0 [simp]: "dec_val (replicate n (CHR ''0'')) = 0"
  by (induction n) (simp_all add: dec_val_Cons digit_val_def)

lemma digits_replicate0 [simp]: "list_all digit_char (replicate n (CHR ''0''))"
  by (simp add: list_all_iff digit_char_def)

lemma dec_val_0_iff: "list_all digit_char s \<Longrightarrow> dec_val s = 0 \<longleftrightarrow> set s \<subseteq> {CHR ''0''}"
proof (induction s)
  case Nil
  then show ?case by simp
next
  case (Cons c s)
  then have "0 \<le> digit_val c * 10 ^ length s" and "0 \<le> dec_val s"
    by (auto simp: digit_val_range dec_val_nonneg)
  moreover have "digit_val c = 0 \<longleftrightarrow> c = CHR ''0''"
    using Cons.prems digit_of_val [of c] by (auto simp: digit_val_0 digit_of_0)
  ultimately show ?case using Cons by (auto simp: dec_val_Cons add_nonneg_eq_0_iff)
qed

end
