(* ===== verification/Numeric.thy ===== *)
theory Numeric
  imports GoStrings
begin

text \<open>
  The fixed-point numeric model of \<^verbatim>\<open>internal/numeric/numeric.go\<close>: market precisions and
  their validation, the parser and the formatter of scaled decimal strings, the sign test of
  a decimal string, and the checked quote amount. \<open>PriceTicks\<close>, \<open>QuantityLots\<close> and
  \<open>QuoteAtoms\<close> are Go \<open>int64\<close>s. Errors are the values of \<open>numeric_error\<close>; the two
  \<open>Panic\<close> constructors stand for the run-time panics the code can reach.
\<close>

type_synonym PriceTicks = int
type_synonym QuantityLots = int
type_synonym QuoteAtoms = int

datatype numeric_error =
    ErrScaleRange | ErrValueRequired | ErrExponentNotation | ErrDigitsRequired
  | ErrInvalidDecimal | ErrInvalidFractionalDigits | ErrInvalidIntegerDigits
  | ErrInvalidDecimalDigits | ErrTooManyFractionalDigits | ErrScaledOverflow
  | ErrPriceScale | ErrQuantityScale | ErrQuoteScale | ErrTickLotSizes
  | ErrPriceBoundsInvalid | ErrQuantityBoundsInvalid | ErrConfigVersion
  | ErrPriceOutsideBounds | ErrPriceTickSize | ErrQuantityOutsideBounds | ErrQuantityLotSize
  | ErrNegativeQuoteInput | ErrQuoteOverflow
  | ErrParsePrice numeric_error | ErrParseQuantity numeric_error
  | PanicNegativeRepeat | PanicDivideByZero

record Precision =
  PriceScale :: int
  QuantityScale :: int
  QuoteScale :: int
  TickSizeUnits :: int
  LotSizeUnits :: int
  MinPriceTicks :: PriceTicks
  MaxPriceTicks :: PriceTicks
  MinQuantityLots :: QuantityLots
  MaxQuantityLots :: QuantityLots
  ConfigVersion :: int

definition DefaultPriceScale :: int where "DefaultPriceScale = 8"
definition DefaultQuantityScale :: int where "DefaultQuantityScale = 8"
definition DefaultQuoteScale :: int where "DefaultQuoteScale = 8"
definition DefaultConfigVersion :: int where "DefaultConfigVersion = 1"

definition DefaultPrecision :: Precision where
  "DefaultPrecision =
     \<lparr>PriceScale = DefaultPriceScale, QuantityScale = DefaultQuantityScale,
      QuoteScale = DefaultQuoteScale, TickSizeUnits = 1, LotSizeUnits = 1,
      MinPriceTicks = 1, MaxPriceTicks = max_int64,
      MinQuantityLots = 1, MaxQuantityLots = max_int64,
      ConfigVersion = DefaultConfigVersion\<rparr>"

definition WithDefaults :: "Precision \<Rightarrow> Precision" where
  "WithDefaults p =
     (let d = DefaultPrecision in
      if PriceScale p = 0 \<and> QuantityScale p = 0 \<and> QuoteScale p = 0 \<and>
         TickSizeUnits p = 0 \<and> LotSizeUnits p = 0 \<and> ConfigVersion p = 0
      then d
      else p\<lparr>TickSizeUnits := (if TickSizeUnits p = 0 then TickSizeUnits d else TickSizeUnits p),
             LotSizeUnits := (if LotSizeUnits p = 0 then LotSizeUnits d else LotSizeUnits p),
             MinPriceTicks := (if MinPriceTicks p = 0 then MinPriceTicks d else MinPriceTicks p),
             MaxPriceTicks := (if MaxPriceTicks p = 0 then MaxPriceTicks d else MaxPriceTicks p),
             MinQuantityLots :=
               (if MinQuantityLots p = 0 then MinQuantityLots d else MinQuantityLots p),
             MaxQuantityLots :=
               (if MaxQuantityLots p = 0 then MaxQuantityLots d else MaxQuantityLots p),
             ConfigVersion := (if ConfigVersion p = 0 then ConfigVersion d else ConfigVersion p)\<rparr>)"

text \<open>\<open>Validate\<close>: \<open>None\<close> when the precision is accepted, the first error otherwise.\<close>

definition ValidatePrecision :: "Precision \<Rightarrow> numeric_error option" where
  "ValidatePrecision p =
     (if PriceScale p < 0 \<or> 18 < PriceScale p then Some ErrPriceScale
      else if QuantityScale p < 0 \<or> 18 < QuantityScale p then Some ErrQuantityScale
      else if QuoteScale p < 0 \<or> 18 < QuoteScale p then Some ErrQuoteScale
      else if TickSizeUnits p \<le> 0 \<or> LotSizeUnits p \<le> 0 then Some ErrTickLotSizes
      else if MinPriceTicks p \<le> 0 \<or> MaxPriceTicks p < MinPriceTicks p
      then Some ErrPriceBoundsInvalid
      else if MinQuantityLots p \<le> 0 \<or> MaxQuantityLots p < MinQuantityLots p
      then Some ErrQuantityBoundsInvalid
      else if ConfigVersion p \<le> 0 then Some ErrConfigVersion
      else None)"

definition validatePrice :: "Precision \<Rightarrow> PriceTicks \<Rightarrow> numeric_error option" where
  "validatePrice p price =
     (if price < MinPriceTicks p \<or> price > MaxPriceTicks p then Some ErrPriceOutsideBounds
      else if TickSizeUnits p = 0 then Some PanicDivideByZero
      else if go_rem price (TickSizeUnits p) \<noteq> 0 then Some ErrPriceTickSize
      else None)"

definition validateQuantity :: "Precision \<Rightarrow> QuantityLots \<Rightarrow> numeric_error option" where
  "validateQuantity p quantity =
     (if quantity < MinQuantityLots p \<or> quantity > MaxQuantityLots p
      then Some ErrQuantityOutsideBounds
      else if LotSizeUnits p = 0 then Some PanicDivideByZero
      else if go_rem quantity (LotSizeUnits p) \<noteq> 0 then Some ErrQuantityLotSize
      else None)"

definition allDigits :: "string \<Rightarrow> bool" where
  "allDigits value \<longleftrightarrow> list_all digit_char value"

definition ParseScaled :: "string \<Rightarrow> int \<Rightarrow> numeric_error + int" where
  "ParseScaled raw scale =
     (if scale < 0 \<or> scale > 18 then Inl ErrScaleRange
      else let value = TrimSpace raw in
      if value = [] then Inl ErrValueRequired
      else if ContainsAny value ''eE'' then Inl ErrExponentNotation
      else let neg = (hd value = CHR ''-'');
               value = (if hd value = CHR ''-'' \<or> hd value = CHR ''+'' then tl value else value) in
      if value = [] then Inl ErrDigitsRequired
      else let parts = Split value (CHR ''.'') in
      if length parts > 2 then Inl ErrInvalidDecimal
      else let integerPart = parts ! 0;
               fractionalPart = (if length parts = 2 then parts ! 1 else []) in
      if length parts = 2 \<and> fractionalPart \<noteq> [] \<and> \<not> allDigits fractionalPart
      then Inl ErrInvalidFractionalDigits
      else if integerPart = [] \<and> fractionalPart = [] then Inl ErrDigitsRequired
      else let integerPart = (if integerPart = [] then ''0'' else integerPart) in
      if \<not> allDigits integerPart then Inl ErrInvalidIntegerDigits
      else if wrap32 (int (length fractionalPart)) > scale then Inl ErrTooManyFractionalDigits
      else (case Repeat (CHR ''0'') (scale - int (length fractionalPart)) of
              None \<Rightarrow> Inl PanicNegativeRepeat
            | Some zeros \<Rightarrow>
                (let combined = TrimLeft (integerPart @ fractionalPart @ zeros) ''0'' in
                 if combined = [] then Inr 0
                 else case ParseInt (if neg then CHR ''-'' # combined else combined) of
                        None \<Rightarrow> Inl ErrScaledOverflow
                      | Some parsed \<Rightarrow> Inr parsed)))"

definition DecimalSign :: "string \<Rightarrow> numeric_error + int" where
  "DecimalSign raw =
     (let value = TrimSpace raw in
      if value = [] \<or> ContainsAny value ''eE'' then Inl ErrInvalidDecimal
      else let sign = (if hd value = CHR ''-'' then - 1 else 1);
               value = (if hd value = CHR ''-'' \<or> hd value = CHR ''+'' then tl value else value) in
      if value = [] then Inl ErrDigitsRequired
      else let parts = Split value (CHR ''.'') in
      if length parts > 2 \<or> (parts ! 0 = [] \<and> (length parts = 1 \<or> parts ! 1 = []))
      then Inl ErrInvalidDecimal
      else if \<not> list_all (\<lambda>part. part = [] \<or> allDigits part) parts
      then Inl ErrInvalidDecimalDigits
      else if Trim value ''0.'' = [] then Inr 0
      else Inr sign)"

definition IsPositiveDecimal :: "string \<Rightarrow> bool" where
  "IsPositiveDecimal raw = (case DecimalSign raw of Inl _ \<Rightarrow> False | Inr sign \<Rightarrow> sign > 0)"

definition IsZeroDecimal :: "string \<Rightarrow> bool" where
  "IsZeroDecimal raw = (case DecimalSign raw of Inl _ \<Rightarrow> False | Inr sign \<Rightarrow> sign = 0)"

text \<open>\<open>MustPrice\<close>, \<open>MustQuantity\<close> and \<open>MustQuote\<close>: an \<open>Inl\<close> is the panic with that error.\<close>

definition MustPrice :: "string \<Rightarrow> numeric_error + PriceTicks" where
  "MustPrice raw = ParseScaled raw DefaultPriceScale"

definition MustQuantity :: "string \<Rightarrow> numeric_error + QuantityLots" where
  "MustQuantity raw = ParseScaled raw DefaultQuantityScale"

definition MustQuote :: "string \<Rightarrow> numeric_error + QuoteAtoms" where
  "MustQuote raw = ParseScaled raw DefaultQuoteScale"

definition ParsePrice :: "Precision \<Rightarrow> string \<Rightarrow> numeric_error + PriceTicks" where
  "ParsePrice p raw =
     (case ParseScaled raw (PriceScale p) of
        Inl err \<Rightarrow> Inl (ErrParsePrice err)
      | Inr price \<Rightarrow> (case validatePrice p price of Some err \<Rightarrow> Inl err | None \<Rightarrow> Inr price))"

definition ParseQuantity :: "Precision \<Rightarrow> string \<Rightarrow> numeric_error + QuantityLots" where
  "ParseQuantity p raw =
     (case ParseScaled raw (QuantityScale p) of
        Inl err \<Rightarrow> Inl (ErrParseQuantity err)
      | Inr quantity \<Rightarrow>
          (case validateQuantity p quantity of Some err \<Rightarrow> Inl err | None \<Rightarrow> Inr quantity))"

text \<open>
  \<open>FormatScaled\<close>. The negation of a negative \<open>int64\<close> wraps: \<open>-math.MinInt64\<close> is
  \<open>math.MinInt64\<close> again.
\<close>

definition FormatScaled :: "int \<Rightarrow> int \<Rightarrow> string" where
  "FormatScaled value scale =
     (if scale \<le> 0 then FormatInt value
      else let negative = value < 0;
               value = (if negative then wrap64 (- value) else value);
               digits = FormatInt value;
               digits = (if int (length digits) \<le> scale
                         then replicate (nat (scale + 1 - int (length digits))) (CHR ''0'') @ digits
                         else digits);
               point = length digits - nat scale;
               digits = take point digits @ ''.'' @ TrimRight (drop point digits) ''0'';
               digits = (if suffix ''.'' digits then butlast digits else digits)
           in if negative \<and> digits \<noteq> ''0'' then CHR ''-'' # digits else digits)"

definition FormatPrice :: "Precision \<Rightarrow> PriceTicks \<Rightarrow> string" where
  "FormatPrice p price = FormatScaled price (PriceScale p)"

definition FormatQuantity :: "Precision \<Rightarrow> QuantityLots \<Rightarrow> string" where
  "FormatQuantity p quantity = FormatScaled quantity (QuantityScale p)"

text \<open>\<open>big.Int.Exp\<close> with a negative exponent and no modulus is 1, as is \<open>10 ^ nat k\<close>.\<close>

definition pow10 :: "int \<Rightarrow> int" where
  "pow10 scale = 10 ^ nat scale"

definition QuoteAmount :: "Precision \<Rightarrow> PriceTicks \<Rightarrow> QuantityLots \<Rightarrow> numeric_error + QuoteAtoms" where
  "QuoteAmount p price quantity =
     (if price < 0 \<or> quantity < 0 then Inl ErrNegativeQuoteInput
      else let numerator = price * quantity * pow10 (QuoteScale p);
               denominator = pow10 (PriceScale p) * pow10 (QuantityScale p);
               quotient = go_quo numerator denominator
           in if \<not> int64 quotient then Inl ErrQuoteOverflow else Inr quotient)"

section \<open>Decimal literals and their values\<close>

text \<open>
  The grammar the parser is meant to accept: an optional sign, integer digits, and an
  optional point with fractional digits, at least one digit in all. The value of a literal
  at a scale is its exact decimal value times \<open>10 ^ scale\<close>.
\<close>

definition is_decimal :: "string \<Rightarrow> bool \<Rightarrow> string \<Rightarrow> string \<Rightarrow> bool" where
  "is_decimal s neg ip fp \<longleftrightarrow>
     list_all digit_char ip \<and> list_all digit_char fp \<and> (ip \<noteq> [] \<or> fp \<noteq> []) \<and>
     (\<exists>sg rest. s = sg @ rest \<and> (if neg then sg = ''-'' else sg = [] \<or> sg = ''+'') \<and>
        (rest = ip @ ''.'' @ fp \<or> rest = ip \<and> fp = []))"

definition scaled_value :: "int \<Rightarrow> bool \<Rightarrow> string \<Rightarrow> string \<Rightarrow> int" where
  "scaled_value scale neg ip fp =
     (let m = dec_val ip * 10 ^ nat scale + dec_val fp * 10 ^ (nat scale - length fp)
      in if neg then - m else m)"

text \<open>The parser accepts exactly the literals, with their value, when it fits.\<close>

definition unsign :: "string \<Rightarrow> string" where
  "unsign value = (if hd value = CHR ''-'' \<or> hd value = CHR ''+'' then tl value else value)"

lemma digit_hd_not_sign:
  "list_all digit_char ip \<Longrightarrow> rest = ip @ ''.'' @ fp \<or> rest = ip \<and> ip \<noteq> [] \<Longrightarrow>
   rest \<noteq> [] \<and> hd rest \<noteq> CHR ''-'' \<and> hd rest \<noteq> CHR ''+''"
  by (cases ip) (auto dest: digit_char_not)

lemma digits_no_point: "list_all digit_char ip \<Longrightarrow> CHR ''.'' \<notin> set ip"
  by (auto simp: list_all_iff dest: digit_char_not)

lemma is_decimal_Split:
  assumes "is_decimal s neg ip fp"
  shows "s \<noteq> [] \<and> neg = (hd s = CHR ''-'') \<and> unsign s \<noteq> [] \<and>
    (Split (unsign s) (CHR ''.'') = [ip, fp] \<or> Split (unsign s) (CHR ''.'') = [ip] \<and> fp = [])"
proof -
  from assms obtain sg rest where s: "s = sg @ rest"
    and sg: "if neg then sg = ''-'' else sg = [] \<or> sg = ''+''"
    and rest: "rest = ip @ ''.'' @ fp \<or> rest = ip \<and> fp = []"
    and dig: "list_all digit_char ip" "list_all digit_char fp" and ne: "ip \<noteq> [] \<or> fp \<noteq> []"
    unfolding is_decimal_def by blast
  have hd_rest: "rest \<noteq> [] \<and> hd rest \<noteq> CHR ''-'' \<and> hd rest \<noteq> CHR ''+''"
    by (rule digit_hd_not_sign [OF dig(1)]) (use rest ne in auto)
  have "unsign s = rest" and "neg = (hd s = CHR ''-'')"
    using s sg hd_rest by (auto simp: unsign_def split: if_splits)
  moreover have "Split rest (CHR ''.'') = [ip, fp] \<or> Split rest (CHR ''.'') = [ip] \<and> fp = []"
    using rest digits_no_point [OF dig(1)] digits_no_point [OF dig(2)]
    by (auto simp: Split_sep Split_no_sep)
  ultimately show ?thesis using s hd_rest by auto
qed

lemma Split_is_decimal:
  assumes "s \<noteq> []" "list_all digit_char ip" "list_all digit_char fp" "ip \<noteq> [] \<or> fp \<noteq> []"
    and "Split (unsign s) (CHR ''.'') = [ip, fp] \<or> Split (unsign s) (CHR ''.'') = [ip] \<and> fp = []"
  shows "is_decimal s (hd s = CHR ''-'') ip fp"
proof -
  have rest: "unsign s = ip @ ''.'' @ fp \<or> unsign s = ip \<and> fp = []"
    using assms(5) by (auto dest: Split_one Split_two)
  define sg where "sg = (if hd s = CHR ''-'' \<or> hd s = CHR ''+'' then [hd s] else [])"
  have "s = sg @ unsign s"
    using assms(1) by (auto simp: sg_def unsign_def)
  moreover have "if hd s = CHR ''-'' then sg = ''-'' else sg = [] \<or> sg = ''+''"
    by (auto simp: sg_def)
  ultimately show ?thesis
    using rest assms(2-4) unfolding is_decimal_def by blast
qed

lemma is_decimal_no_exponent:
  assumes "is_decimal s neg ip fp"
  shows "\<not> ContainsAny s ''eE''"
  using assms unfolding is_decimal_def ContainsAny_def list_all_iff list_ex_iff
  by (fastforce split: if_splits dest: digit_char_not)

text \<open>The last part of \<open>ParseScaled\<close>, after the parts have been checked.\<close>

lemma parse_digits:
  assumes "list_all digit_char ip" "list_all digit_char fp" "int (length fp) \<le> scale"
  shows "(let combined = TrimLeft ((if ip = [] then ''0'' else ip) @ fp
              @ replicate (nat (scale - int (length fp))) (CHR ''0'')) ''0'' in
          if combined = [] then Inr 0
          else case ParseInt (if neg then CHR ''-'' # combined else combined) of
                 None \<Rightarrow> Inl ErrScaledOverflow | Some parsed \<Rightarrow> Inr parsed)
    = (let v = scaled_value scale neg ip fp in
       if int64 v then Inr v else Inl ErrScaledOverflow)"
proof -
  let ?z = "nat (scale - int (length fp))"
  let ?all = "(if ip = [] then ''0'' else ip) @ fp @ replicate ?z (CHR ''0'')"
  let ?c = "TrimLeft ?all ''0''"
  have z: "nat scale = length fp + ?z" and z': "nat scale - length fp = ?z"
    using assms(3) by auto
  have dig: "list_all digit_char ?all"
    using assms(1,2) by (simp add: digit_char_def)
  have "dec_val ?all = dec_val ip * 10 ^ (length fp + ?z) + dec_val fp * 10 ^ ?z"
    by (simp add: dec_val_append dec_val_Cons digit_val_0)
  then have val: "scaled_value scale neg ip fp = (if neg then - dec_val ?c else dec_val ?c)"
    unfolding scaled_value_def z' z by (simp add: TrimLeft_zeros)
  have digc: "list_all digit_char ?c"
    by (rule TrimLeft_digits [OF dig])
  show ?thesis
  proof (cases "?c = []")
    case True
    then show ?thesis using val by (simp add: Let_def int64_def min_int64_def max_int64_def)
  next
    case False
    then show ?thesis
      using val digc by (auto simp: Let_def ParseInt_digits ParseInt_neg_digits)
  qed
qed

lemma ParseScaled_decimal:
  assumes "0 \<le> scale" "scale \<le> 18" "is_decimal (TrimSpace raw) neg ip fp"
    and "int (length fp) \<le> scale"
  shows "ParseScaled raw scale =
    (let v = scaled_value scale neg ip fp in if int64 v then Inr v else Inl ErrScaledOverflow)"
proof -
  let ?s = "TrimSpace raw"
  note sp = is_decimal_Split [OF assms(3)] is_decimal_no_exponent [OF assms(3)]
  have dig: "list_all digit_char ip" "list_all digit_char fp" "ip \<noteq> [] \<or> fp \<noteq> []"
    using assms(3) by (auto simp: is_decimal_def)
  have w: "wrap32 (int (length fp)) = int (length fp)"
    using assms(2,4) by (simp add: wrap32_small)
  have un: "(if hd ?s = CHR ''-'' \<or> hd ?s = CHR ''+'' then tl ?s else ?s) = unsign ?s"
    by (simp add: unsign_def)
  have ip': "digit_char (CHR ''0'')"
    by (simp add: digit_char_def)
  have rep: "Repeat (CHR ''0'') (scale - int (length fp))
      = Some (replicate (nat (scale - int (length fp))) (CHR ''0''))"
    using assms(4) by (simp add: Repeat_nonneg)
  let ?tail = "let combined = TrimLeft ((if ip = [] then ''0'' else ip) @ fp
              @ replicate (nat (scale - int (length fp))) (CHR ''0'')) ''0'' in
          if combined = [] then Inr 0
          else case ParseInt (if neg then CHR ''-'' # combined else combined) of
                 None \<Rightarrow> Inl ErrScaledOverflow | Some parsed \<Rightarrow> Inr parsed"
  from sp consider "Split (unsign ?s) (CHR ''.'') = [ip, fp]"
    | "Split (unsign ?s) (CHR ''.'') = [ip]" "fp = []" by blast
  then show ?thesis
  proof cases
    case 1
    have "ParseScaled raw scale = ?tail"
      unfolding ParseScaled_def Let_def un
      using sp 1 assms(1,2,4) dig ip' w rep by (simp add: allDigits_def)
    then show ?thesis by (simp only: parse_digits [OF dig(1,2) assms(4)])
  next
    case 2
    have "ParseScaled raw scale = ?tail"
      unfolding ParseScaled_def Let_def un
      using sp 2 assms(1,2,4) dig ip' w rep by (simp add: allDigits_def)
    then show ?thesis by (simp only: parse_digits [OF dig(1,2) assms(4)])
  qed
qed

lemma ParseScaled_InrD:
  assumes "ParseScaled raw scale = Inr v"
  shows "0 \<le> scale \<and> scale \<le> 18 \<and>
    (\<exists>neg ip fp. is_decimal (TrimSpace raw) neg ip fp \<and> int (length fp) \<le> scale)"
proof -
  let ?s = "TrimSpace raw"
  let ?parts = "Split (unsign ?s) (CHR ''.'')"
  let ?ip = "?parts ! 0"
  let ?fp = "if length ?parts = 2 then ?parts ! 1 else []"
  have un: "(if hd ?s = CHR ''-'' \<or> hd ?s = CHR ''+'' then tl ?s else ?s) = unsign ?s"
    by (simp add: unsign_def)
  note P = assms [unfolded ParseScaled_def Let_def un]
  have scale: "0 \<le> scale" "scale \<le> 18" and ne: "?s \<noteq> []"
    and len: "\<not> length ?parts > 2" and nempty: "\<not> (?ip = [] \<and> ?fp = [])"
    using P by (auto split: if_splits)
  have fp: "allDigits ?fp" and ip: "allDigits ?ip"
    using P by (auto simp: allDigits_def split: if_splits)
  have "\<not> wrap32 (int (length ?fp)) > scale" and "\<not> scale - int (length ?fp) < 0"
    using P by (auto simp: Repeat_def split: if_splits)
  have "length ?parts = 1 \<or> length ?parts = 2"
    using len by (cases ?parts rule: list.exhaust; cases "tl ?parts") (auto simp: le_Suc_eq)
  then have "?parts = [?ip, ?fp] \<or> ?parts = [?ip] \<and> ?fp = []"
    by (auto simp: length_Suc_conv numeral_2_eq_2)
  then have "is_decimal ?s (hd ?s = CHR ''-'') ?ip ?fp"
    by (intro Split_is_decimal) (use ne nempty fp ip in \<open>auto simp: allDigits_def\<close>)
  then show ?thesis
    using scale \<open>\<not> scale - int (length ?fp) < 0\<close> by fastforce
qed

lemma Trim_Nil_iff: "Trim s cs = [] \<longleftrightarrow> set s \<subseteq> set cs"
proof -
  have "dropWhile (\<lambda>c. c \<in> set cs) (rev t) = [] \<longleftrightarrow> set t \<subseteq> set cs" for t
    by (auto simp: dropWhile_eq_Nil_conv)
  moreover have "set (dropWhile (\<lambda>c. c \<in> set cs) s) \<subseteq> set cs \<longleftrightarrow> set s \<subseteq> set cs"
    by (induction s) auto
  ultimately show ?thesis by (simp add: Trim_def TrimLeft_def TrimRight_def)
qed

lemma DecimalSign_decimal:
  assumes "is_decimal (TrimSpace raw) neg ip fp"
  shows "DecimalSign raw =
    Inr (if dec_val ip = 0 \<and> dec_val fp = 0 then 0 else if neg then - 1 else 1)"
proof -
  let ?s = "TrimSpace raw"
  note sp = is_decimal_Split [OF assms] is_decimal_no_exponent [OF assms]
  have dig: "list_all digit_char ip" "list_all digit_char fp" "ip = [] \<longrightarrow> fp \<noteq> []"
    using assms by (auto simp: is_decimal_def)
  have un: "(if hd ?s = CHR ''-'' \<or> hd ?s = CHR ''+'' then tl ?s else ?s) = unsign ?s"
    by (simp add: unsign_def)
  have zero: "dec_val ip = 0 \<and> dec_val fp = 0 \<longleftrightarrow> set (unsign ?s) \<subseteq> set ''0.''"
    using sp dec_val_0_iff [OF dig(1)] dec_val_0_iff [OF dig(2)]
      digits_no_point [OF dig(1)] digits_no_point [OF dig(2)]
    by (auto dest!: Split_one Split_two)
  from sp show ?thesis
    unfolding zero DecimalSign_def Let_def un
    using dig by (auto simp: allDigits_def Trim_Nil_iff)
qed

lemma sgn_scaled_value:
  assumes "list_all digit_char ip" "list_all digit_char fp"
  shows "sgn (scaled_value scale neg ip fp)
    = (if dec_val ip = 0 \<and> dec_val fp = 0 then 0 else if neg then - 1 else 1)"
proof -
  let ?m = "dec_val ip * 10 ^ nat scale + dec_val fp * 10 ^ (nat scale - length fp)"
  have nn: "0 \<le> dec_val ip * 10 ^ nat scale" "0 \<le> dec_val fp * 10 ^ (nat scale - length fp)"
    using assms by (simp_all add: dec_val_nonneg)
  then have "?m = 0 \<longleftrightarrow> dec_val ip = 0 \<and> dec_val fp = 0"
    by (auto simp: add_nonneg_eq_0_iff)
  moreover have "0 \<le> ?m" using nn by simp
  ultimately show ?thesis by (auto simp: scaled_value_def Let_def sgn_if)
qed

section \<open>The formatter\<close>

lemma TrimRight_zeros:
  obtains k where "s = TrimRight s ''0'' @ replicate k (CHR ''0'')"
proof -
  let ?P = "\<lambda>c. c \<in> set ''0''"
  have "takeWhile ?P (rev s) = replicate (length (takeWhile ?P (rev s))) (CHR ''0'')"
    by (rule replicate_length_same [symmetric]) (auto dest: set_takeWhileD)
  then have "rev (takeWhile ?P (rev s)) = replicate (length (takeWhile ?P (rev s))) (CHR ''0'')"
    by (metis rev_replicate)
  moreover have "s = rev (dropWhile ?P (rev s)) @ rev (takeWhile ?P (rev s))"
    by (metis rev_append rev_rev_ident takeWhile_dropWhile_id)
  ultimately show ?thesis
    using that by (simp add: TrimRight_def)
qed

text \<open>The text of a numeral of \<open>n\<close> at a positive scale, before the sign is put back.\<close>

lemma format_unsigned:
  assumes "0 < scale" "0 \<le> n"
    and D: "D = (if int (length (digits10 n)) \<le> scale
         then replicate (nat (scale + 1 - int (length (digits10 n)))) (CHR ''0'') @ digits10 n
         else digits10 n)"
    and T: "T = take (length D - nat scale) D @ ''.'' @ TrimRight (drop (length D - nat scale) D) ''0''"
  obtains ip fp where "list_all digit_char ip" "list_all digit_char fp" "ip \<noteq> []"
    "int (length fp) \<le> scale" "scaled_value scale False ip fp = n"
    "(if suffix ''.'' T then butlast T else T) = (if fp = [] then ip else ip @ ''.'' @ fp)"
proof -
  define ip where "ip = take (length D - nat scale) D"
  define fr where "fr = drop (length D - nat scale) D"
  define fp where "fp = TrimRight fr ''0''"
  have lenD: "nat scale < length D" using assms(1) by (simp add: D) linarith
  have digD: "list_all digit_char D" using assms(2) by (simp add: D)
  then have dig: "list_all digit_char ip" "list_all digit_char fr"
    unfolding ip_def fr_def by (auto simp: list_all_iff dest: in_set_takeD in_set_dropD)
  obtain k where fr: "fr = fp @ replicate k (CHR ''0'')"
    using TrimRight_zeros [of fr] unfolding fp_def by blast
  then have digf: "list_all digit_char fp" using dig(2) by simp
  have lenfr: "length fr = nat scale" using lenD by (simp add: fr_def)
  then have k: "k = nat scale - length fp" and lenfp: "length fp \<le> nat scale"
    using fr by auto
  have "n = dec_val D" using assms(2) by (simp add: D dec_val_append)
  also have "\<dots> = dec_val (ip @ fr)" by (simp add: ip_def fr_def)
  also have "\<dots> = dec_val ip * 10 ^ nat scale + dec_val fp * 10 ^ k"
    using lenfr by (simp add: dec_val_append fr)
  finally have val: "scaled_value scale False ip fp = n" by (simp add: scaled_value_def k)
  have Teq: "T = ip @ ''.'' @ fp" by (simp add: T ip_def fp_def fr_def)
  have "suffix ''.'' T \<longleftrightarrow> fp = []"
  proof (cases fp rule: rev_cases)
    case Nil
    then show ?thesis by (simp add: Teq)
  next
    case (snoc ys y)
    then have "y \<noteq> CHR ''.''" using digf by (auto dest: digit_char_not)
    then show ?thesis using snoc by (auto simp: Teq suffix_def)
  qed
  then have "(if suffix ''.'' T then butlast T else T) = (if fp = [] then ip else ip @ ''.'' @ fp)"
    by (simp add: Teq butlast_append)
  moreover have "ip \<noteq> []" using lenD by (auto simp: ip_def)
  ultimately show ?thesis using that dig(1) digf val lenfp assms(1) by auto
qed

lemma FormatScaled_decimal:
  assumes "0 \<le> scale" "int64 v" "v \<noteq> min_int64 \<or> scale = 0"
  obtains ip fp where "is_decimal (FormatScaled v scale) (v < 0) ip fp" "int (length fp) \<le> scale"
    "scaled_value scale (v < 0) ip fp = v"
proof (cases "scale = 0")
  case True
  show ?thesis
  proof (rule that [of "digits10 \<bar>v\<bar>" "[]"])
    show "is_decimal (FormatScaled v scale) (v < 0) (digits10 \<bar>v\<bar>) []"
      using True unfolding is_decimal_def FormatScaled_def FormatInt_def
      by (auto intro: exI [of _ "''-''"])
  qed (use True in \<open>auto simp: scaled_value_def Let_def\<close>)
next
  case False
  have abs: "(if v < 0 then wrap64 (- v) else v) = \<bar>v\<bar>"
    using assms False by (auto simp: wrap64_id int64_def min_int64_def max_int64_def)
  define n where "n = \<bar>v\<bar>"
  define D where "D = (if int (length (digits10 n)) \<le> scale
         then replicate (nat (scale + 1 - int (length (digits10 n)))) (CHR ''0'') @ digits10 n
         else digits10 n)"
  define T where "T = take (length D - nat scale) D @ ''.'' @ TrimRight (drop (length D - nat scale) D) ''0''"
  define d where "d = (if suffix ''.'' T then butlast T else T)"
  have F: "FormatScaled v scale = (if v < 0 \<and> d \<noteq> ''0'' then CHR ''-'' # d else d)"
  proof -
    have "(scale \<le> 0) = False" using assms(1) False by simp
    moreover have "FormatInt \<bar>v\<bar> = digits10 n" by (simp add: FormatInt_def n_def)
    ultimately show ?thesis
      by (simp only: FormatScaled_def Let_def abs if_False D_def [symmetric] T_def [symmetric] d_def [symmetric])
  qed
  have n: "0 \<le> n" and pos: "0 < scale" using assms(1) False by (simp_all add: n_def)
  obtain ip fp where P: "list_all digit_char ip" "list_all digit_char fp" "ip \<noteq> []"
      "int (length fp) \<le> scale" "scaled_value scale False ip fp = n"
    and d: "d = (if fp = [] then ip else ip @ ''.'' @ fp)"
    using format_unsigned [OF pos n D_def T_def] unfolding d_def by blast
  have "d \<noteq> ''0''" if "v < 0"
  proof
    assume "d = ''0''"
    then have "fp = []" "ip = ''0''"
      using d P(3) by (auto split: if_splits simp: append_eq_Cons_conv)
    then have "n = 0" using P(5) by (simp add: scaled_value_def dec_val_Cons digit_val_0)
    with that show False by (simp add: n_def)
  qed
  then have F': "FormatScaled v scale = (if v < 0 then ''-'' else []) @ d"
    by (simp add: F)
  have "is_decimal (FormatScaled v scale) (v < 0) ip fp"
    unfolding is_decimal_def
  proof (intro conjI exI)
    show "FormatScaled v scale = (if v < 0 then ''-'' else []) @ d" by (rule F')
  qed (use P d in auto)
  moreover have "scaled_value scale (v < 0) ip fp = v"
    using P(5) by (auto simp: scaled_value_def Let_def n_def)
  ultimately show ?thesis using that P(4) by blast
qed

lemma is_decimal_TrimSpace:
  assumes "is_decimal s neg ip fp"
  shows "TrimSpace s = s"
proof -
  have pl: "plain_char (CHR ''-'')" "plain_char (CHR ''+'')" "plain_char (CHR ''.'')"
    by (simp_all add: plain_char_def)
  have "list_all plain_char s"
    using assms pl unfolding is_decimal_def
    by (auto simp: list_all_iff digit_char_plain split: if_splits)
  then show ?thesis
    by (intro TrimSpace_plain) (auto simp: list_all_iff)
qed

section \<open>What the numeric boundary guarantees\<close>

text \<open>
  C19. \<open>ParseScaled\<close> returns a value exactly for the decimal literals of the grammar (after
  trimming white space) with no more fractional digits than the scale, and the value is the
  exact decimal value times \<open>10 ^ scale\<close>, when that is an \<open>int64\<close>. Every other input is an
  error.
\<close>

theorem ParseScaled_spec:
  "ParseScaled raw scale = Inr v \<longleftrightarrow>
     0 \<le> scale \<and> scale \<le> 18 \<and> int64 v \<and>
     (\<exists>neg ip fp. is_decimal (TrimSpace raw) neg ip fp \<and> int (length fp) \<le> scale \<and>
        v = scaled_value scale neg ip fp)"
  (is "?L \<longleftrightarrow> ?R")
proof
  assume L: ?L
  obtain neg ip fp where P: "0 \<le> scale" "scale \<le> 18"
      "is_decimal (TrimSpace raw) neg ip fp" "int (length fp) \<le> scale"
    using ParseScaled_InrD [OF L] by blast
  show ?R
    using ParseScaled_decimal [OF P] L P by (auto simp: Let_def split: if_splits)
next
  assume ?R
  then show ?L using ParseScaled_decimal by (auto simp: Let_def)
qed

text \<open>
  C20. Formatting an \<open>int64\<close> at a scale from 0 to 18 and parsing the text back at the same scale
  gives the value again. The one value excluded is \<open>math.MinInt64\<close> at a positive scale, where
  the round trip fails.
\<close>

theorem ParseScaled_FormatScaled:
  assumes "0 \<le> scale" "scale \<le> 18" "int64 v" "v \<noteq> min_int64 \<or> scale = 0"
  shows "ParseScaled (FormatScaled v scale) scale = Inr v"
proof -
  obtain ip fp where P: "is_decimal (FormatScaled v scale) (v < 0) ip fp"
      "int (length fp) \<le> scale" "scaled_value scale (v < 0) ip fp = v"
    using FormatScaled_decimal assms(1,3,4) by blast
  then have "is_decimal (TrimSpace (FormatScaled v scale)) (v < 0) ip fp"
    by (simp add: is_decimal_TrimSpace)
  then show ?thesis
    using ParseScaled_decimal [OF assms(1,2) _ P(2)] P(3) assms(3) by (simp add: Let_def)
qed

theorem ParseScaled_FormatScaled_witness:
  "FormatScaled (- 1250000000) 8 = ''-12.5'' \<and>
   ParseScaled (FormatScaled (- 1250000000) 8) 8 = Inr (- 1250000000)"
proof
  show "FormatScaled (- 1250000000) 8 = ''-12.5''" by code_simp
  show "ParseScaled (FormatScaled (- 1250000000) 8) 8 = Inr (- 1250000000)"
    by (rule ParseScaled_FormatScaled) (simp_all add: int64_def min_int64_def max_int64_def)
qed

lemma TrimRight_last: "s \<noteq> [] \<Longrightarrow> last s \<notin> set cs \<Longrightarrow> TrimRight s cs = s"
  by (cases s rule: rev_cases) (simp_all add: TrimRight_def)

lemma wrap_min: "wrap64 (- min_int64) = min_int64" by code_simp
lemma Format_min: "FormatInt min_int64 = ''-9223372036854775808''" by code_simp

lemma FormatScaled_min_text:
  assumes "0 < scale"
  defines "D \<equiv> replicate (nat (scale - 19)) (CHR ''0'') @ ''-9223372036854775808''"
  shows "FormatScaled min_int64 scale =
      ''-'' @ take (length D - nat scale) D @ ''.'' @ drop (length D - nat scale) D"
    "drop (length D - nat scale) D \<noteq> []" "last (drop (length D - nat scale) D) = CHR ''8''"
proof -
  define ds :: string where "ds = ''-9223372036854775808''"
  have len: "length ds = 20" and lst: "last ds = CHR ''8''" "ds \<noteq> []" by (simp_all add: ds_def)
  have pad: "(if int (length ds) \<le> scale then replicate (nat (scale + 1 - int (length ds))) (CHR ''0'') @ ds else ds) = D"
    by (simp add: D_def len ds_def [symmetric])
  let ?p = "length D - nat scale"
  have "0 < length D" by (simp add: D_def)
  then have lD: "?p < length D" using assms(1) by linarith
  show drop: "drop ?p D \<noteq> []"
  proof
    assume "drop ?p D = []"
    then show False using lD unfolding drop_eq_Nil by linarith
  qed
  show last: "last (drop ?p D) = CHR ''8''"
    unfolding last_drop [OF lD] by (simp add: D_def ds_def [symmetric] lst)
  have trim: "TrimRight (drop ?p D) ''0'' = drop ?p D" by (rule TrimRight_last [OF drop]) (simp add: last)
  let ?T = "take ?p D @ ''.'' @ drop ?p D"
  have suf: "\<not> suffix ''.'' ?T"
  proof
    assume "suffix ''.'' ?T"
    then obtain xs where xs: "?T = xs @ ''.''" by (rule suffixE)
    have "last ?T = CHR ''8''" using drop last by simp
    then show False unfolding xs by simp
  qed
  have ne: "?T \<noteq> ''0''" by (simp add: Cons_eq_append_conv append_eq_Cons_conv)
  have pos: "(scale \<le> 0) = False" "(min_int64 < 0) = True" using assms(1) by (simp_all add: min_int64_def)
  have "FormatScaled min_int64 scale = CHR ''-'' # ?T"
    by (simp only: FormatScaled_def Let_def pos if_False if_True wrap_min Format_min ds_def [symmetric] pad trim suf ne simp_thms)
  then show "FormatScaled min_int64 scale = ''-'' @ ?T" by simp
qed

lemma is_decimal_signs:
  assumes "is_decimal s neg ip fp"
  shows "count_list s (CHR ''-'') \<le> 1"
proof -
  have "count_list ds (CHR ''-'') = 0" if "list_all digit_char ds" for ds
    using that by (induction ds) (auto simp: digit_char_def)
  then show ?thesis using assms by (auto simp: is_decimal_def split: if_splits)
qed

text \<open>
  C24. \<open>FormatScaled\<close> is wrong at \<open>math.MinInt64\<close> and every positive scale: negating the value
  overflows, so the digits keep their minus sign and the text gets another in front. The text is
  the padded digits, sign included, with the point \<open>scale\<close> characters from the end; it has two minus
  signs, and the parser rejects it at any scale.
\<close>

theorem FormatScaled_min_int64:
  assumes "0 < scale"
  shows "(let digits = replicate (nat (scale - 19)) (CHR ''0'') @ ''-9223372036854775808'';
              point = length digits - nat scale
          in FormatScaled min_int64 scale = ''-'' @ take point digits @ ''.'' @ drop point digits) \<and>
    count_list (FormatScaled min_int64 scale) (CHR ''-'') = 2 \<and>
    (\<exists>err. ParseScaled (FormatScaled min_int64 scale) scale' = Inl err)"
proof -
  let ?D = "replicate (nat (scale - 19)) (CHR ''0'') @ ''-9223372036854775808''"
  let ?p = "length ?D - nat scale" and ?s = "FormatScaled min_int64 scale"
  note F = FormatScaled_min_text(1) [OF assms]
  have "count_list (take n xs) x + count_list (drop n xs) x = count_list xs x" for n and xs :: string and x
    by (metis append_take_drop_id count_list_append)
  moreover have "count_list ?D (CHR ''-'') = 1" by (simp add: count_list_append)
  ultimately have c: "count_list ?s (CHR ''-'') = 2" unfolding F by (simp add: count_list_append)
  have "?s \<noteq> []" "hd ?s = CHR ''-''" "last ?s = CHR ''8''"
    unfolding F using FormatScaled_min_text(2,3) [OF assms] by (simp_all del: drop_append)
  then have trim: "TrimSpace ?s = ?s" by (intro TrimSpace_plain) (simp add: plain_char_def)
  have "ParseScaled ?s scale' \<noteq> Inr v" for v
    using ParseScaled_InrD [of ?s scale' v] is_decimal_signs [of ?s] unfolding trim c by fastforce
  then have "\<exists>err. ParseScaled ?s scale' = Inl err" by (metis sumE)
  then show ?thesis using F c by (simp add: Let_def)
qed

lemma FormatScaled_min_int64_witness:
  "FormatScaled min_int64 8 = ''--92233720368.54775808'' \<and>
   (\<exists>err. ParseScaled (FormatScaled min_int64 8) 8 = Inl err)"
proof
  note F = FormatScaled_min_int64 [of 8 8, simplified Let_def]
  show "\<exists>err. ParseScaled (FormatScaled min_int64 8) 8 = Inl err" using F by auto
  show "FormatScaled min_int64 8 = ''--92233720368.54775808''" using F by simp
qed

text \<open>
  C23. The sign test of the API's shape check agrees with the parser: whenever a price or an
  amount parses at some scale, \<open>DecimalSign\<close> returns the sign of the parsed value.
\<close>

theorem DecimalSign_agrees:
  assumes "ParseScaled raw scale = Inr v"
  shows "DecimalSign raw = Inr (sgn v)"
proof -
  obtain neg ip fp where P: "is_decimal (TrimSpace raw) neg ip fp" "int (length fp) \<le> scale"
      "0 \<le> scale" "scale \<le> 18"
    using ParseScaled_InrD [OF assms] by blast
  then have "v = scaled_value scale neg ip fp"
    using ParseScaled_decimal [OF P(3,4,1,2)] assms by (auto simp: Let_def split: if_splits)
  then show ?thesis
    using DecimalSign_decimal [OF P(1)] P(1) by (simp add: sgn_scaled_value is_decimal_def)
qed

theorem DecimalSign_agrees_witness: "DecimalSign '' -0.25'' = Inr (- 1)"
proof -
  have "ParseScaled '' -0.25'' 8 = Inr (- 25000000)" by code_simp
  from DecimalSign_agrees [OF this] show ?thesis by simp
qed

lemma pow10_pos [simp]: "0 < pow10 k"
  by (simp add: pow10_def)

text \<open>
  C21. \<open>QuoteAmount\<close> returns the quote atoms \<open>a\<close> exactly when price and quantity are not
  negative, \<open>a\<close> is the exact quotient \<open>price * quantity * 10 ^ quote / (10 ^ price scale *
  10 ^ quantity scale)\<close> rounded down, and it fits in an \<open>int64\<close>.
\<close>

theorem QuoteAmount_spec:
  "QuoteAmount p price quantity = Inr a \<longleftrightarrow>
     0 \<le> price \<and> 0 \<le> quantity \<and> 0 \<le> a \<and> a \<le> max_int64 \<and>
     a * (pow10 (PriceScale p) * pow10 (QuantityScale p))
       \<le> price * quantity * pow10 (QuoteScale p) \<and>
     price * quantity * pow10 (QuoteScale p)
       < (a + 1) * (pow10 (PriceScale p) * pow10 (QuantityScale p))"
proof -
  define N where "N = price * quantity * pow10 (QuoteScale p)"
  define D where "D = pow10 (PriceScale p) * pow10 (QuantityScale p)"
  have D: "0 < D" by (simp add: D_def)
  have div: "N div D = a \<longleftrightarrow> a * D \<le> N \<and> N < (a + 1) * D"
    using D by (rule div_eq_iff_bounds)
  show ?thesis
  proof (cases "price < 0 \<or> quantity < 0")
    case True
    then show ?thesis by (auto simp: QuoteAmount_def)
  next
    case False
    moreover have "0 \<le> pow10 (QuoteScale p)" by (rule less_imp_le) simp
    ultimately have N: "0 \<le> N" by (simp add: N_def)
    then have "go_quo N D = N div D" and "0 \<le> N div D"
      using D by (simp_all add: go_quo_nonneg pos_imp_zdiv_nonneg_iff)
    then have "QuoteAmount p price quantity
        = (if \<not> N div D \<le> max_int64 then Inl ErrQuoteOverflow else Inr (N div D))"
      using False by (auto simp: QuoteAmount_def Let_def N_def D_def int64_def min_int64_def)
    then show ?thesis
      using False \<open>0 \<le> N div D\<close> div unfolding N_def [symmetric] D_def [symmetric] by auto
  qed
qed

lemma ValidatePrecision_None:
  "ValidatePrecision p = None \<longleftrightarrow>
     0 \<le> PriceScale p \<and> PriceScale p \<le> 18 \<and> 0 \<le> QuantityScale p \<and> QuantityScale p \<le> 18 \<and>
     0 \<le> QuoteScale p \<and> QuoteScale p \<le> 18 \<and> 0 < TickSizeUnits p \<and> 0 < LotSizeUnits p \<and>
     0 < MinPriceTicks p \<and> MinPriceTicks p \<le> MaxPriceTicks p \<and>
     0 < MinQuantityLots p \<and> MinQuantityLots p \<le> MaxQuantityLots p \<and> 0 < ConfigVersion p"
  by (auto simp: ValidatePrecision_def)

lemma DefaultPrecision_valid: "ValidatePrecision DefaultPrecision = None"
  by (simp add: ValidatePrecision_def DefaultPrecision_def DefaultPriceScale_def
      DefaultQuantityScale_def DefaultQuoteScale_def DefaultConfigVersion_def max_int64_def)

lemma WithDefaults_id:
  "TickSizeUnits p \<noteq> 0 \<Longrightarrow> LotSizeUnits p \<noteq> 0 \<Longrightarrow> MinPriceTicks p \<noteq> 0 \<Longrightarrow> MaxPriceTicks p \<noteq> 0 \<Longrightarrow>
   MinQuantityLots p \<noteq> 0 \<Longrightarrow> MaxQuantityLots p \<noteq> 0 \<Longrightarrow> ConfigVersion p \<noteq> 0 \<Longrightarrow> WithDefaults p = p"
  by (simp add: WithDefaults_def Let_def)

lemma WithDefaults_nonzero:
  "TickSizeUnits (WithDefaults p) \<noteq> 0 \<and> LotSizeUnits (WithDefaults p) \<noteq> 0 \<and>
   MinPriceTicks (WithDefaults p) \<noteq> 0 \<and> MaxPriceTicks (WithDefaults p) \<noteq> 0 \<and>
   MinQuantityLots (WithDefaults p) \<noteq> 0 \<and> MaxQuantityLots (WithDefaults p) \<noteq> 0 \<and>
   ConfigVersion (WithDefaults p) \<noteq> 0"
proof -
  have d: "TickSizeUnits DefaultPrecision = 1" "LotSizeUnits DefaultPrecision = 1"
    "MinPriceTicks DefaultPrecision = 1" "MaxPriceTicks DefaultPrecision = max_int64"
    "MinQuantityLots DefaultPrecision = 1" "MaxQuantityLots DefaultPrecision = max_int64"
    "ConfigVersion DefaultPrecision = 1" "max_int64 \<noteq> 0"
    by (simp_all add: DefaultPrecision_def DefaultConfigVersion_def max_int64_def)
  show ?thesis
    unfolding WithDefaults_def Let_def by (intro conjI) (simp_all add: d)
qed

lemma WithDefaults_valid: "ValidatePrecision p = None \<Longrightarrow> WithDefaults p = p"
  by (rule WithDefaults_id) (auto simp: ValidatePrecision_None)

lemma WithDefaults_idem [simp]: "WithDefaults (WithDefaults p) = WithDefaults p"
  using WithDefaults_nonzero [of p] by (intro WithDefaults_id) auto

text \<open>
  C22. Under a validated precision the boundary parsers never reach the division by zero of
  the tick or lot check, and a price or quantity they return is positive, inside the market
  bounds and a multiple of the tick or lot size.
\<close>

theorem boundary_parse_valid:
  assumes "ValidatePrecision p = None"
  shows "(\<forall>price. ParsePrice p raw = Inr price \<longrightarrow>
      0 < price \<and> MinPriceTicks p \<le> price \<and> price \<le> MaxPriceTicks p \<and>
      TickSizeUnits p dvd price) \<and>
    (\<forall>quantity. ParseQuantity p raw = Inr quantity \<longrightarrow>
      0 < quantity \<and> MinQuantityLots p \<le> quantity \<and> quantity \<le> MaxQuantityLots p \<and>
      LotSizeUnits p dvd quantity) \<and>
    ParsePrice p raw \<noteq> Inl PanicDivideByZero \<and> ParseQuantity p raw \<noteq> Inl PanicDivideByZero"
proof -
  have price: "0 < v \<and> MinPriceTicks p \<le> v \<and> v \<le> MaxPriceTicks p \<and> TickSizeUnits p dvd v"
    if "validatePrice p v = None" for v
    using that assms
    by (auto simp: ValidatePrecision_None validatePrice_def go_rem_nonneg dvd_eq_mod_eq_0
        split: if_splits)
  have quantity: "0 < v \<and> MinQuantityLots p \<le> v \<and> v \<le> MaxQuantityLots p \<and> LotSizeUnits p dvd v"
    if "validateQuantity p v = None" for v
    using that assms
    by (auto simp: ValidatePrecision_None validateQuantity_def go_rem_nonneg dvd_eq_mod_eq_0
        split: if_splits)
  have "validatePrice p v \<noteq> Some PanicDivideByZero"
    and "validateQuantity p v \<noteq> Some PanicDivideByZero" for v
    using assms by (auto simp: ValidatePrecision_None validatePrice_def validateQuantity_def)
  with price quantity show ?thesis
    by (auto simp: ParsePrice_def ParseQuantity_def split: sum.splits option.splits)
qed

theorem boundary_parse_valid_witness:
  "ParsePrice DefaultPrecision ''101.5'' = Inr 10150000000 \<and>
   TickSizeUnits DefaultPrecision dvd 10150000000"
proof -
  have "ParsePrice DefaultPrecision ''101.5'' = Inr 10150000000" by code_simp
  with boundary_parse_valid [OF DefaultPrecision_valid, of "''101.5''"] show ?thesis by blast
qed

end
