(* ===== verification/Models.thy ===== *)
theory Models
  imports Numeric
begin

text \<open>
  The data of \<^verbatim>\<open>internal/models\<close>: order types, positions and statuses are Go strings, so that
  an unsupported one is representable; orders and requests are records, with one letter
  before each field name of the source (\<open>o\<close> for an order, \<open>c\<close>, \<open>e\<close> and \<open>x\<close> for a
  create, edit and cancel request).

  A \<open>time.Time\<close> is the number of nanoseconds since the Unix epoch; the zero time of Go is
  the first of January of year 1. \<open>UTC()\<close> does not change the instant.
\<close>

type_synonym Time = int

definition zero_time :: Time where
  "zero_time = - 62135596800000000000"

definition IsZero :: "Time \<Rightarrow> bool" where
  "IsZero t \<longleftrightarrow> t = zero_time"

definition UnixNano :: "Time \<Rightarrow> int" where
  "UnixNano t = wrap64 t"

type_synonym OrderType = string
type_synonym Position = string
type_synonym OrderStatus = string

definition Limit :: OrderType where "Limit = ''LIMIT''"
definition Market :: OrderType where "Market = ''MARKET''"
definition Bid :: Position where "Bid = ''BID''"
definition Ask :: Position where "Ask = ''ASK''"
definition Pending :: OrderStatus where "Pending = ''PENDING''"
definition StatusFilled :: OrderStatus where "StatusFilled = ''FILLED''"
definition StatusPartial :: OrderStatus where "StatusPartial = ''PARTIAL''"
definition StatusCanceled :: OrderStatus where "StatusCanceled = ''CANCELED''"

lemma Bid_neq_Ask [simp]: "Bid \<noteq> Ask" "Ask \<noteq> Bid"
  by (simp_all add: Bid_def Ask_def)

lemma Limit_neq_Market [simp]: "Limit \<noteq> Market" "Market \<noteq> Limit"
  by (simp_all add: Limit_def Market_def)

record BookOrder =
  oTicker :: string
  oOrderID :: string
  oUserID :: string
  oOrderType :: OrderType
  oPosition :: Position
  oPrice :: PriceTicks
  oAmount :: QuantityLots
  oTimestamp :: Time
  oStatus :: OrderStatus
  oNonce :: int

record CancelOrderRequest =
  xCommandID :: string
  xTicker :: string
  xOrderID :: string

text \<open>\<open>Amount\<close> is a pointer: \<open>None\<close> is \<open>nil\<close>, no change.\<close>

record EditOrderRequest =
  eCommandID :: string
  eTicker :: string
  eOrderID :: string
  ePrice :: PriceTicks
  eAmount :: "QuantityLots option"

record CreateOrderRequest =
  cCommandID :: string
  cTicker :: string
  cUserID :: string
  cOrderType :: OrderType
  cPosition :: Position
  cPrice :: PriceTicks
  cAmount :: QuantityLots
  cNonce :: int

end
