(* ===== verification/PriceHeap.thy ===== *)
theory PriceHeap
  imports Models
begin

text \<open>
  The price levels of \<^verbatim>\<open>internal/util\<close> and the heaps that order them. A \<open>*PriceLevel\<close> is
  shared between a side map, a heap and the code that holds it, so levels live in an
  explicit store (\<open>lref \<Rightarrow> PriceLevel\<close>) and a heap is a list of references.
  \<open>MaxPriceHeap\<close> and \<open>MinPriceHeap\<close> differ in \<open>Less\<close> only; the operations of Go's
  \<open>container/heap\<close> (\<open>up\<close>, \<open>down\<close>, \<open>Push\<close>, \<open>Remove\<close>, \<open>Init\<close>) take it as their
  argument \<open>lt\<close> on prices, as the library calls it through the interface.

  The locale \<open>heap_order\<close> states what the library needs of \<open>Less\<close> and holds the correctness
  of the operations; it is interpreted for both heaps.
\<close>

type_synonym lref = nat
type_synonym eref = nat

record PriceLevel =
  lPrice :: PriceTicks
  lQueue :: "eref list"
  lIndex :: int
  lTotalAmount :: QuantityLots

type_synonym lstore = "lref \<Rightarrow> PriceLevel"
type_synonym heap_state = "lref list \<times> lstore"

section \<open>The heap types of \<open>util\<close>\<close>

definition MaxPriceHeap_Less :: "PriceTicks \<Rightarrow> PriceTicks \<Rightarrow> bool" where
  "MaxPriceHeap_Less a b \<longleftrightarrow> a > b"

definition MinPriceHeap_Less :: "PriceTicks \<Rightarrow> PriceTicks \<Rightarrow> bool" where
  "MinPriceHeap_Less a b \<longleftrightarrow> a < b"

definition PriceHeap_Less ::
  "(PriceTicks \<Rightarrow> PriceTicks \<Rightarrow> bool) \<Rightarrow> heap_state \<Rightarrow> nat \<Rightarrow> nat \<Rightarrow> bool" where
  "PriceHeap_Less lt s i j = (case s of (h, m) \<Rightarrow> lt (lPrice (m (h ! i))) (lPrice (m (h ! j))))"

definition set_index :: "lref \<Rightarrow> int \<Rightarrow> lstore \<Rightarrow> lstore" where
  "set_index a i m = m(a := (m a)\<lparr>lIndex := i\<rparr>)"

definition PriceHeap_Swap :: "heap_state \<Rightarrow> nat \<Rightarrow> nat \<Rightarrow> heap_state" where
  "PriceHeap_Swap s i j =
     (case s of (h, m) \<Rightarrow>
        let h' = h[i := h ! j, j := h ! i]
        in (h', set_index (h' ! j) (int j) (set_index (h' ! i) (int i) m)))"

definition PriceHeap_Push :: "heap_state \<Rightarrow> lref \<Rightarrow> heap_state" where
  "PriceHeap_Push s x = (case s of (h, m) \<Rightarrow> (h @ [x], set_index x (int (length h)) m))"

definition PriceHeap_Pop :: "heap_state \<Rightarrow> heap_state" where
  "PriceHeap_Pop s = (case s of (h, m) \<Rightarrow> (butlast h, set_index (last h) (- 1) m))"

definition PriceHeap_Peek :: "lref list \<Rightarrow> lref option" where
  "PriceHeap_Peek h = (if length h = 0 then None else Some (h ! 0))"

section \<open>\<open>container/heap\<close>\<close>

function heap_up ::
  "(PriceTicks \<Rightarrow> PriceTicks \<Rightarrow> bool) \<Rightarrow> heap_state \<Rightarrow> nat \<Rightarrow> heap_state" where
  "heap_up lt s j =
     (let i = (j - 1) div 2 in
      if i = j \<or> \<not> PriceHeap_Less lt s j i then s
      else heap_up lt (PriceHeap_Swap s i j) i)"
  by pat_completeness auto
termination
  by (relation "measure (\<lambda>(lt, s, j). j)") auto

function heap_down_loop ::
  "(PriceTicks \<Rightarrow> PriceTicks \<Rightarrow> bool) \<Rightarrow> heap_state \<Rightarrow> nat \<Rightarrow> nat \<Rightarrow> heap_state \<times> nat" where
  "heap_down_loop lt s i n =
     (let j1 = 2 * i + 1 in
      if j1 \<ge> n then (s, i)
      else let j = (if j1 + 1 < n \<and> PriceHeap_Less lt s (j1 + 1) j1 then j1 + 1 else j1) in
      if \<not> PriceHeap_Less lt s j i then (s, i)
      else heap_down_loop lt (PriceHeap_Swap s i j) j n)"
  by pat_completeness auto
termination
  by (relation "measure (\<lambda>(lt, s, i, n). n - i)") (auto simp: Let_def)

declare heap_up.simps [simp del] heap_down_loop.simps [simp del]

definition heap_down ::
  "(PriceTicks \<Rightarrow> PriceTicks \<Rightarrow> bool) \<Rightarrow> heap_state \<Rightarrow> nat \<Rightarrow> nat \<Rightarrow> heap_state \<times> bool" where
  "heap_down lt s i0 n = (case heap_down_loop lt s i0 n of (s', i) \<Rightarrow> (s', i > i0))"

definition heap_Init :: "(PriceTicks \<Rightarrow> PriceTicks \<Rightarrow> bool) \<Rightarrow> heap_state \<Rightarrow> heap_state" where
  "heap_Init lt s =
     (let n = length (fst s)
      in fold (\<lambda>i s. fst (heap_down lt s i n)) (rev [0..<n div 2]) s)"

definition heap_Push ::
  "(PriceTicks \<Rightarrow> PriceTicks \<Rightarrow> bool) \<Rightarrow> heap_state \<Rightarrow> lref \<Rightarrow> heap_state" where
  "heap_Push lt s x =
     (let s = PriceHeap_Push s x in heap_up lt s (length (fst s) - 1))"

definition heap_Remove ::
  "(PriceTicks \<Rightarrow> PriceTicks \<Rightarrow> bool) \<Rightarrow> heap_state \<Rightarrow> nat \<Rightarrow> heap_state" where
  "heap_Remove lt s i =
     (let n = length (fst s) - 1;
          s = (if n \<noteq> i
               then (case heap_down lt (PriceHeap_Swap s i n) i n of
                       (s, moved) \<Rightarrow> if \<not> moved then heap_up lt s i else s)
               else s)
      in PriceHeap_Pop s)"

section \<open>What every heap operation leaves alone\<close>

text \<open>
  The operations write the \<open>Index\<close> field of levels of the heap and nothing else: the levels
  agree in every other field, and levels outside the heap are untouched.
\<close>

definition frame_index :: "lref set \<Rightarrow> lstore \<Rightarrow> lstore \<Rightarrow> bool" where
  "frame_index A m m' \<longleftrightarrow>
     (\<forall>x. lPrice (m' x) = lPrice (m x) \<and> lQueue (m' x) = lQueue (m x) \<and>
          lTotalAmount (m' x) = lTotalAmount (m x) \<and> (x \<notin> A \<longrightarrow> m' x = m x))"

text \<open>The heap's levels know their positions.\<close>

definition idx_ok :: "heap_state \<Rightarrow> bool" where
  "idx_ok s \<longleftrightarrow> distinct (fst s) \<and> (\<forall>i < length (fst s). lIndex (snd s (fst s ! i)) = int i)"

lemma frame_index_refl [simp]: "frame_index A m m"
  by (simp add: frame_index_def)

lemma frame_index_trans:
  "frame_index A m m' \<Longrightarrow> frame_index A m' m'' \<Longrightarrow> frame_index A m m''"
  by (simp add: frame_index_def)

lemma frame_index_mono: "frame_index A m m' \<Longrightarrow> A \<subseteq> B \<Longrightarrow> frame_index B m m'"
  by (auto simp: frame_index_def)

lemma frame_set_index: "a \<in> A \<Longrightarrow> frame_index A m (set_index a i m)"
  by (simp add: frame_index_def set_index_def)

lemma length_Swap [simp]: "length (fst (PriceHeap_Swap s i j)) = length (fst s)"
  by (simp add: PriceHeap_Swap_def Let_def split: prod.split)

lemma mset_Swap:
  "i < length (fst s) \<Longrightarrow> j < length (fst s) \<Longrightarrow>
   mset (fst (PriceHeap_Swap s i j)) = mset (fst s)"
  by (cases s) (simp add: PriceHeap_Swap_def Let_def mset_swap)

lemma set_Swap:
  "i < length (fst s) \<Longrightarrow> j < length (fst s) \<Longrightarrow>
   set (fst (PriceHeap_Swap s i j)) = set (fst s)"
  by (metis mset_Swap set_mset_mset)

lemma frame_Swap:
  "i < length (fst s) \<Longrightarrow> j < length (fst s) \<Longrightarrow>
   frame_index (set (fst s)) (snd s) (snd (PriceHeap_Swap s i j))"
  by (auto simp: PriceHeap_Swap_def Let_def frame_index_def set_index_def nth_list_update
      split: prod.splits)

lemma idx_Swap:
  assumes "idx_ok s" "i < length (fst s)" "j < length (fst s)"
  shows "idx_ok (PriceHeap_Swap s i j)"
proof -
  obtain h m where s: "s = (h, m)" by (cases s)
  have d: "distinct (h[i := h ! j, j := h ! i])"
    using assms s by (simp add: idx_ok_def distinct_swap)
  show ?thesis
    using assms s d
    by (auto simp: idx_ok_def PriceHeap_Swap_def Let_def set_index_def nth_list_update
        nth_eq_iff_index_eq split: if_splits)
qed

text \<open>The prices along the array, which is all that \<open>Less\<close> reads.\<close>

definition prices :: "heap_state \<Rightarrow> nat \<Rightarrow> PriceTicks" where
  "prices s k = lPrice (snd s (fst s ! k))"

lemma Less_prices: "PriceHeap_Less lt s i j = lt (prices s i) (prices s j)"
  by (simp add: PriceHeap_Less_def prices_def split: prod.split)

lemma prices_Swap:
  assumes "i < length (fst s)" "j < length (fst s)" "k < length (fst s)"
  shows "prices (PriceHeap_Swap s i j) k
    = (if k = j then prices s i else if k = i then prices s j else prices s k)"
  using assms
  by (auto simp: prices_def PriceHeap_Swap_def Let_def set_index_def nth_list_update
      split: prod.splits)

lemma heap_up_frame:
  assumes "j < length (fst s)"
  shows "mset (fst (heap_up lt s j)) = mset (fst s) \<and>
    frame_index (set (fst s)) (snd s) (snd (heap_up lt s j)) \<and>
    (idx_ok s \<longrightarrow> idx_ok (heap_up lt s j))"
  using assms
proof (induction lt s j rule: heap_up.induct)
  case (1 lt s j)
  let ?i = "(j - 1) div 2"
  show ?case
  proof (cases "?i = j \<or> \<not> PriceHeap_Less lt s j ?i")
    case True
    then show ?thesis by (subst (1 2 3) heap_up.simps) (simp add: Let_def)
  next
    case False
    have b: "?i < length (fst s)" using "1.prems" by linarith
    let ?s = "PriceHeap_Swap s ?i j"
    have "heap_up lt s j = heap_up lt ?s ?i"
      using False by (subst heap_up.simps) (auto simp: Let_def)
    with "1.IH" [OF refl False] b "1.prems" show ?thesis
      using frame_Swap [OF b "1.prems"] idx_Swap [OF _ b "1.prems"]
      by (auto simp: mset_Swap set_Swap intro: frame_index_trans)
  qed
qed

lemma heap_down_frame:
  assumes "n \<le> length (fst s)"
  shows "mset (fst (fst (heap_down_loop lt s i n))) = mset (fst s) \<and>
    frame_index (set (fst s)) (snd s) (snd (fst (heap_down_loop lt s i n))) \<and>
    (idx_ok s \<longrightarrow> idx_ok (fst (heap_down_loop lt s i n))) \<and>
    (\<forall>k < length (fst s). n \<le> k \<longrightarrow> fst (fst (heap_down_loop lt s i n)) ! k = fst s ! k)"
  using assms
proof (induction lt s i n rule: heap_down_loop.induct)
  case (1 lt s i n)
  let ?j1 = "2 * i + 1"
  let ?j = "if ?j1 + 1 < n \<and> PriceHeap_Less lt s (?j1 + 1) ?j1 then ?j1 + 1 else ?j1"
  show ?case
  proof (cases "?j1 \<ge> n \<or> \<not> PriceHeap_Less lt s ?j i")
    case True
    then have "heap_down_loop lt s i n = (s, i)"
      by (subst heap_down_loop.simps) (simp only: Let_def, auto)
    then show ?thesis by simp
  next
    case False
    then have n1: "\<not> ?j1 \<ge> n" and L: "\<not> \<not> PriceHeap_Less lt s ?j i" by simp_all
    have b: "i < length (fst s)" "?j < length (fst s)" "i < n" "?j < n"
      using "1.prems" n1 by auto
    have eq: "heap_down_loop lt s i n = heap_down_loop lt (PriceHeap_Swap s i ?j) ?j n"
      using n1 L by (subst heap_down_loop.simps) (simp only: Let_def if_False not_not if_True not_True_eq_False)
    have same: "fst (PriceHeap_Swap s i ?j) ! k = fst s ! k" if "n \<le> k" for k
    proof -
      have "k \<noteq> i" "k \<noteq> ?j" using b(3,4) that by linarith+
      then show ?thesis by (cases s) (simp add: PriceHeap_Swap_def Let_def)
    qed
    have IH: "mset (fst (fst (heap_down_loop lt (PriceHeap_Swap s i ?j) ?j n)))
        = mset (fst (PriceHeap_Swap s i ?j)) \<and>
      frame_index (set (fst (PriceHeap_Swap s i ?j))) (snd (PriceHeap_Swap s i ?j))
        (snd (fst (heap_down_loop lt (PriceHeap_Swap s i ?j) ?j n))) \<and>
      (idx_ok (PriceHeap_Swap s i ?j) \<longrightarrow>
        idx_ok (fst (heap_down_loop lt (PriceHeap_Swap s i ?j) ?j n))) \<and>
      (\<forall>k < length (fst (PriceHeap_Swap s i ?j)). n \<le> k \<longrightarrow>
        fst (fst (heap_down_loop lt (PriceHeap_Swap s i ?j) ?j n)) ! k
          = fst (PriceHeap_Swap s i ?j) ! k)"
      by (rule "1.IH" [OF refl n1 refl L]) (use "1.prems" in simp)
    show ?thesis
      unfolding eq using IH b frame_Swap [OF b(1,2)] idx_Swap [OF _ b(1,2)] same
      by (auto simp: mset_Swap set_Swap intro: frame_index_trans)
  qed
qed

section \<open>Correctness for an ordering of the prices\<close>

text \<open>
  What \<open>container/heap\<close> asks of \<open>Less\<close> on the prices of the levels: a strict total order.
\<close>

locale heap_order =
  fixes lt :: "PriceTicks \<Rightarrow> PriceTicks \<Rightarrow> bool"
  assumes lt_irrefl: "\<not> lt a a"
    and lt_trans: "lt a b \<Longrightarrow> lt b c \<Longrightarrow> lt a c"
    and lt_total: "a \<noteq> b \<Longrightarrow> lt a b \<or> lt b a"
begin

lemma lt_asym: "lt a b \<Longrightarrow> \<not> lt b a"
  using lt_irrefl lt_trans by blast

lemma not_lt_trans: "\<not> lt a b \<Longrightarrow> \<not> lt b c \<Longrightarrow> \<not> lt a c"
  using lt_total lt_trans by metis

end

text \<open>
  The heap property of the first \<open>n\<close> places: no place holds a better price than its parent.
  \<open>hole\<close> allows a defect at one place \<open>i\<close>, between it and its parent or its children.
\<close>

definition parent :: "nat \<Rightarrow> nat" where
  "parent k = (k - 1) div 2"

definition heap_prop :: "(PriceTicks \<Rightarrow> PriceTicks \<Rightarrow> bool) \<Rightarrow> (nat \<Rightarrow> PriceTicks) \<Rightarrow> nat \<Rightarrow> bool" where
  "heap_prop lt a n \<longleftrightarrow> (\<forall>k < n. 0 < k \<longrightarrow> \<not> lt (a k) (a (parent k)))"

definition hole :: "(PriceTicks \<Rightarrow> PriceTicks \<Rightarrow> bool) \<Rightarrow> (nat \<Rightarrow> PriceTicks) \<Rightarrow> nat \<Rightarrow> nat \<Rightarrow> bool" where
  "hole lt a i n \<longleftrightarrow>
     (\<forall>k < n. 0 < k \<longrightarrow> k \<noteq> i \<longrightarrow> parent k \<noteq> i \<longrightarrow> \<not> lt (a k) (a (parent k))) \<and>
     (\<forall>k < n. 0 < k \<longrightarrow> parent k = i \<longrightarrow> 0 < i \<longrightarrow> \<not> lt (a k) (a (parent i)))"

lemma parent_less: "0 < k \<Longrightarrow> parent k < k"
  by (auto simp: parent_def)

lemma parent_le: "parent k \<le> k"
  by (auto simp: parent_def)

lemma parent_eq_iff: "0 < k \<Longrightarrow> parent k = i \<longleftrightarrow> k = 2 * i + 1 \<or> k = 2 * i + 2"
  by (auto simp: parent_def)

lemma heap_prop_mono: "heap_prop lt a n \<Longrightarrow> m \<le> n \<Longrightarrow> heap_prop lt a m"
  by (auto simp: heap_prop_def)

lemma heap_prop_cong: "(\<And>k. k < n \<Longrightarrow> a k = b k) \<Longrightarrow> heap_prop lt a n = heap_prop lt b n"
  unfolding heap_prop_def by (metis order.strict_trans parent_less)

context heap_order
begin

text \<open>The root holds a best price.\<close>

lemma heap_root_best: "heap_prop lt a n \<Longrightarrow> k < n \<Longrightarrow> \<not> lt (a k) (a 0)"
proof (induction k rule: less_induct)
  case (less k)
  show ?case
  proof (cases "k = 0")
    case True
    then show ?thesis by (simp add: lt_irrefl)
  next
    case False
    then have "\<not> lt (a k) (a (parent k))" and "parent k < k"
      using less.prems by (auto simp: heap_prop_def parent_less)
    with less show ?thesis using not_lt_trans by (metis order.strict_trans)
  qed
qed

lemma hole_up_exit:
  assumes "hole lt a i n" "\<forall>k < n. 0 < k \<longrightarrow> parent k = i \<longrightarrow> \<not> lt (a k) (a i)"
    and "i = 0 \<or> \<not> lt (a i) (a (parent i))"
  shows "heap_prop lt a n"
  using assms unfolding heap_prop_def hole_def by (metis gr_implies_not0)

lemma heap_up_correct:
  assumes "j < n" "n \<le> length (fst s)" "hole lt (prices s) j n"
    and "\<forall>k < n. 0 < k \<longrightarrow> parent k = j \<longrightarrow> \<not> lt (prices s k) (prices s j)"
  shows "heap_prop lt (prices (heap_up lt s j)) n"
  using assms
proof (induction j arbitrary: s rule: less_induct)
  case (less j)
  let ?i = "(j - 1) div 2"
  have i: "?i = parent j" by (simp add: parent_def)
  show ?case
  proof (cases "?i = j \<or> \<not> PriceHeap_Less lt s j ?i")
    case True
    then have "heap_up lt s j = s" by (subst heap_up.simps) (simp add: Let_def)
    moreover have "j = 0 \<or> \<not> lt (prices s j) (prices s (parent j))"
      using True i parent_less [of j] by (auto simp: Less_prices)
    ultimately show ?thesis using hole_up_exit less.prems by metis
  next
    case False
    let ?s = "PriceHeap_Swap s ?i j"
    have j0: "0 < j" using False by (cases j) auto
    have b: "?i < n" "?i < length (fst s)" "j < length (fst s)" "?i < j"
      using less.prems j0 by auto
    have L: "lt (prices s j) (prices s (parent j))"
      using False by (simp add: Less_prices parent_def)
    have sw: "prices ?s k = (if k = j then prices s (parent j) else if k = parent j then prices s j
        else prices s k)" if "k < n" for k
      using prices_Swap [OF b(2,3), of k] that less.prems(2) i by (simp add: order.strict_trans2)
    have eq: "heap_up lt s j = heap_up lt ?s ?i"
      using False by (subst heap_up.simps) (auto simp: Let_def)
    show ?thesis
      unfolding eq
    proof (rule less.IH)
      show "?i < j" "?i < n" "n \<le> length (fst ?s)" using b less.prems by simp_all
      show "\<forall>k < n. 0 < k \<longrightarrow> parent k = ?i \<longrightarrow> \<not> lt (prices ?s k) (prices ?s ?i)"
      proof (intro allI impI)
        fix k assume k: "k < n" "0 < k" "parent k = ?i"
        show "\<not> lt (prices ?s k) (prices ?s ?i)"
        proof (cases "k = j")
          case True
          then show ?thesis using sw [OF k(1)] sw [OF b(1)] b(4) i L lt_asym by auto
        next
          case kj: False
          have "k \<noteq> parent j" using parent_less [OF k(2)] k(3) i by simp
          moreover have "\<not> lt (prices s k) (prices s (parent j))"
            using less.prems(3) k kj i parent_less [OF j0] unfolding hole_def by auto
          ultimately show ?thesis
            using sw [OF k(1)] sw [OF b(1)] b(4) i L kj lt_trans by (metis order.irrefl)
        qed
      qed
      show "hole lt (prices ?s) ?i n"
        unfolding hole_def
      proof (intro conjI allI impI)
        fix k assume k: "k < n" "0 < k" "k \<noteq> ?i" "parent k \<noteq> ?i"
        have kj: "k \<noteq> j" using k(4) i by auto
        have pk: "parent k < n" using parent_less [OF k(2)] k(1) by simp
        show "\<not> lt (prices ?s k) (prices ?s (parent k))"
        proof (cases "parent k = j")
          case True
          then have "\<not> lt (prices s k) (prices s (parent j))"
            using less.prems(3) k j0 unfolding hole_def by auto
          then show ?thesis using sw [OF k(1)] sw [OF pk] True kj k(3) i by simp
        next
          case False
          then have "\<not> lt (prices s k) (prices s (parent k))"
            using less.prems(3) k kj unfolding hole_def by auto
          then show ?thesis using sw [OF k(1)] sw [OF pk] False kj k(3,4) i by simp
        qed
      next
        fix k assume k: "k < n" "0 < k" "parent k = ?i" "0 < ?i"
        have pi: "parent ?i < ?i" using parent_less k(4) by blast
        have pin: "parent ?i < n" using pi b(1) by simp
        have A: "\<not> lt (prices s (parent j)) (prices s (parent (parent j)))"
          using less.prems(3) b(1) k(4) pi i parent_less [of "parent j"] unfolding hole_def
          by (metis b(4) order.strict_implies_not_eq order.strict_trans)
        have pp: "prices ?s (parent ?i) = prices s (parent (parent j))"
          using sw [OF pin] pi b(4) i by auto
        show "\<not> lt (prices ?s k) (prices ?s (parent ?i))"
        proof (cases "k = j")
          case True
          then show ?thesis using sw [OF k(1)] pp A by simp
        next
          case kj: False
          have "k \<noteq> parent j" using parent_less [OF k(2)] k(3) i by simp
          moreover have "\<not> lt (prices s k) (prices s (parent j))"
            using less.prems(3) k kj i parent_less [OF j0] unfolding hole_def by auto
          ultimately show ?thesis
            using sw [OF k(1)] pp A kj not_lt_trans by auto
        qed
      qed
    qed
  qed
qed

lemma heap_down_swap:
  assumes "2 * i + 1 < n" "n \<le> length (fst s)" "hole lt (prices s) i n"
    and j: "j = (if 2 * i + 2 < n \<and> lt (prices s (2 * i + 2)) (prices s (2 * i + 1))
                 then 2 * i + 2 else 2 * i + 1)"
    and L: "lt (prices s j) (prices s i)"
  shows "hole lt (prices (PriceHeap_Swap s i j)) j n \<and>
    \<not> lt (prices (PriceHeap_Swap s i j) j) (prices (PriceHeap_Swap s i j) (parent j))"
proof -
  let ?s = "PriceHeap_Swap s i j"
  have b: "i < j" "j < n" "i < n" "parent j = i" "0 < j"
    using assms(1) by (auto simp: j parent_def)
  have sw: "prices ?s k = (if k = j then prices s i else if k = i then prices s j else prices s k)"
    if "k < n" for k
    using prices_Swap [of i s j k] that b assms(2) by simp
  have best: "\<not> lt (prices s k) (prices s j)" if "k < n" "0 < k" "parent k = i" for k
    using that parent_eq_iff [of k i] lt_irrefl lt_asym by (auto simp: j split: if_splits)
  have up: "\<not> lt (prices s k) (prices s (parent i))" if "k < n" "0 < k" "parent k = i" "0 < i" for k
    using assms(3) that unfolding hole_def by blast
  have away: "\<not> lt (prices s k) (prices s (parent k))"
    if "k < n" "0 < k" "k \<noteq> i" "parent k \<noteq> i" for k
    using assms(3) that unfolding hole_def by blast
  have "hole lt (prices ?s) j n"
    unfolding hole_def
  proof (intro conjI allI impI)
    fix k assume k: "k < n" "0 < k" "k \<noteq> j" "parent k \<noteq> j"
    have pk: "parent k < n" "parent k < k" using parent_less [OF k(2)] k(1) by auto
    show "\<not> lt (prices ?s k) (prices ?s (parent k))"
    proof (cases "k = i")
      case True
      then have "parent k \<noteq> i" using pk by simp
      then show ?thesis
        using sw [OF k(1)] sw [OF pk(1)] True k b up [of j] by simp
    next
      case False
      show ?thesis
        using sw [OF k(1)] sw [OF pk(1)] k False best [of k] away [of k] by auto
    qed
  next
    fix k assume k: "k < n" "0 < k" "parent k = j" "0 < j"
    have "k \<noteq> i" "k \<noteq> j" using parent_less [OF k(2)] k(3) b(1) by auto
    then have "prices ?s k = prices s k" using sw [OF k(1)] by simp
    moreover have "prices ?s (parent j) = prices s j" using sw [of i] b by simp
    moreover have "\<not> lt (prices s k) (prices s (parent k))"
      using away [of k] k \<open>k \<noteq> i\<close> b(1) by simp
    ultimately show "\<not> lt (prices ?s k) (prices ?s (parent j))" using k(3) by simp
  qed
  moreover have "\<not> lt (prices ?s j) (prices ?s (parent j))"
    using sw [of j] sw [of i] b L lt_asym by simp
  ultimately show ?thesis ..
qed

text \<open>One unfolding of the loop of \<open>down\<close>: stop with every child in order, or swap.\<close>

lemma heap_down_cases:
  obtains "heap_down_loop lt s i n = (s, i)"
    "\<forall>k < n. 0 < k \<longrightarrow> parent k = i \<longrightarrow> \<not> lt (prices s k) (prices s i)"
  | j where "heap_down_loop lt s i n = heap_down_loop lt (PriceHeap_Swap s i j) j n"
    "2 * i + 1 < n" "i < j" "j < n"
    "j = (if 2 * i + 2 < n \<and> lt (prices s (2 * i + 2)) (prices s (2 * i + 1))
          then 2 * i + 2 else 2 * i + 1)"
    "lt (prices s j) (prices s i)"
proof -
  let ?j = "if 2 * i + 2 < n \<and> lt (prices s (2 * i + 2)) (prices s (2 * i + 1))
          then 2 * i + 2 else 2 * i + 1"
  have unf: "heap_down_loop lt s i n =
      (if 2 * i + 1 \<ge> n then (s, i)
       else if \<not> lt (prices s ?j) (prices s i) then (s, i)
       else heap_down_loop lt (PriceHeap_Swap s i ?j) ?j n)"
    by (subst heap_down_loop.simps) (simp add: Let_def Less_prices)
  show ?thesis
  proof (cases "2 * i + 1 \<ge> n \<or> \<not> lt (prices s ?j) (prices s i)")
    case True
    have "\<not> lt (prices s k) (prices s i)" if "k < n" "0 < k" "parent k = i" for k
    proof -
      have k: "k = 2 * i + 1 \<or> k = 2 * i + 2" using that parent_eq_iff by blast
      then have nj: "\<not> lt (prices s ?j) (prices s i)" using True that(1) by auto
      have "\<not> lt (prices s k) (prices s ?j)"
        using k that(1) lt_irrefl lt_asym by auto
      then show ?thesis using nj by (rule not_lt_trans)
    qed
    moreover have "heap_down_loop lt s i n = (s, i)" using unf True by auto
    ultimately show ?thesis using that(1) by blast
  next
    case False
    then have "heap_down_loop lt s i n = heap_down_loop lt (PriceHeap_Swap s i ?j) ?j n"
      using unf by simp
    with False show ?thesis using that(2) [of ?j] by auto
  qed
qed

lemma heap_down_fixed:
  assumes "n \<le> length (fst s)" "hole lt (prices s) i n" "0 < i \<Longrightarrow> \<not> lt (prices s i) (prices s (parent i))"
  shows "heap_prop lt (prices (fst (heap_down_loop lt s i n))) n \<and> i \<le> snd (heap_down_loop lt s i n)"
  using assms
proof (induction "n - i" arbitrary: s i rule: less_induct)
  case less
  show ?case
  proof (cases rule: heap_down_cases [of s i n])
    case 1
    then show ?thesis using hole_up_exit [OF less.prems(2)] less.prems(3) by auto
  next
    case (2 j)
    note sw = heap_down_swap [OF 2(2) less.prems(1,2) 2(5,6)]
    have "n - j < n - i" using 2(3,4) by simp
    then have "heap_prop lt (prices (fst (heap_down_loop lt (PriceHeap_Swap s i j) j n))) n \<and>
        j \<le> snd (heap_down_loop lt (PriceHeap_Swap s i j) j n)"
      by (rule less.hyps) (use sw less.prems(1) in auto)
    with 2(1,3) show ?thesis by (metis order.strict_implies_order order.trans)
  qed
qed

lemma heap_down_correct:
  assumes "n \<le> length (fst s)" "hole lt (prices s) i n" "heap_down lt s i n = (s', moved)"
  shows "moved \<and> heap_prop lt (prices s') n \<or>
    \<not> moved \<and> s' = s \<and> (\<forall>k < n. 0 < k \<longrightarrow> parent k = i \<longrightarrow> \<not> lt (prices s k) (prices s i))"
proof (cases rule: heap_down_cases [of s i n])
  case 1
  then show ?thesis using assms(3) by (auto simp: heap_down_def)
next
  case (2 j)
  note sw = heap_down_swap [OF 2(2) assms(1,2) 2(5,6)]
  have "heap_prop lt (prices (fst (heap_down_loop lt s i n))) n \<and> j \<le> snd (heap_down_loop lt s i n)"
    unfolding 2(1) using sw assms(1) by (intro heap_down_fixed) auto
  then show ?thesis using assms(3) 2(3) by (auto simp: heap_down_def split: prod.splits)
qed

end

text \<open>\<open>up\<close> from \<open>j\<close> leaves the places above \<open>j\<close> alone.\<close>

lemma heap_up_above: "j < k \<Longrightarrow> fst (heap_up lt s j) ! k = fst s ! k"
proof (induction lt s j rule: heap_up.induct)
  case (1 lt s j)
  let ?i = "(j - 1) div 2"
  show ?case
  proof (cases "?i = j \<or> \<not> PriceHeap_Less lt s j ?i")
    case True
    then show ?thesis by (subst heap_up.simps) (simp add: Let_def)
  next
    case False
    have "?i < k" using "1.prems" by linarith
    then have "fst (heap_up lt (PriceHeap_Swap s ?i j) ?i) ! k = fst (PriceHeap_Swap s ?i j) ! k"
      by (rule "1.IH" [OF refl False])
    moreover have "fst (PriceHeap_Swap s ?i j) ! k = fst s ! k"
      using "1.prems" \<open>?i < k\<close> by (cases s) (simp add: PriceHeap_Swap_def Let_def)
    ultimately show ?thesis using False by (subst heap_up.simps) (auto simp: Let_def)
  qed
qed

text \<open>Without any assumption, a removal takes levels out of the heap and writes only indices.\<close>

lemma heap_Remove_subset:
  assumes "i < length (fst s)"
  shows "mset (fst (heap_Remove lt s i)) \<subseteq># mset (fst s) \<and>
    frame_index UNIV (snd s) (snd (heap_Remove lt s i))"
proof -
  define n where "n = length (fst s) - 1"
  have pop: "mset (fst (PriceHeap_Pop t)) \<subseteq># mset (fst t) \<and>
      frame_index UNIV (snd t) (snd (PriceHeap_Pop t))" for t
  proof (cases t)
    case (Pair h m)
    have "mset (butlast h) \<subseteq># mset h"
      by (cases h rule: rev_cases) auto
    then show ?thesis by (simp add: Pair PriceHeap_Pop_def frame_set_index)
  qed
  show ?thesis
  proof (cases "n = i")
    case True
    then show ?thesis using pop by (simp add: heap_Remove_def Let_def n_def)
  next
    case False
    let ?w = "PriceHeap_Swap s i n"
    have b: "i < length (fst s)" "n < length (fst s)" using assms by (auto simp: n_def)
    have w: "mset (fst ?w) = mset (fst s)" "frame_index UNIV (snd s) (snd ?w)"
      using mset_Swap [OF b] frame_Swap [OF b] by (auto intro: frame_index_mono)
    obtain d moved where D: "heap_down (lt) ?w i n = (d, moved)" by (cases "heap_down lt ?w i n")
    then have d: "d = fst (heap_down_loop lt ?w i n)" by (auto simp: heap_down_def split: prod.splits)
    have df: "mset (fst d) = mset (fst ?w)" "frame_index UNIV (snd ?w) (snd d)"
      using heap_down_frame [of n ?w lt i] b unfolding d by (auto intro: frame_index_mono)
    have "length (fst d) = length (fst s)" using df(1) w(1) by (metis size_mset)
    then have up: "mset (fst (heap_up lt d i)) = mset (fst d)"
      "frame_index UNIV (snd d) (snd (heap_up lt d i))"
      using heap_up_frame [of i d lt] b(1) by (auto intro: frame_index_mono)
    let ?r = "if \<not> moved then heap_up lt d i else d"
    have R: "heap_Remove lt s i = PriceHeap_Pop ?r"
      using False D by (simp add: heap_Remove_def Let_def n_def)
    have "mset (fst ?r) = mset (fst s)" "frame_index UNIV (snd s) (snd ?r)"
      using w df up by (auto intro: frame_index_trans)
    then show ?thesis unfolding R using pop [of ?r] by (auto intro: frame_index_trans)
  qed
qed

lemma prices_frame: "frame_index A (snd s) m \<Longrightarrow> prices (fst s, m) = prices s"
  by (simp add: prices_def frame_index_def fun_eq_iff)

lemma Push_heap:
  assumes "idx_ok s" "x \<notin> set (fst s)"
  shows "fst (PriceHeap_Push s x) = fst s @ [x] \<and> idx_ok (PriceHeap_Push s x) \<and>
    frame_index {x} (snd s) (snd (PriceHeap_Push s x)) \<and>
    (\<forall>k < length (fst s). prices (PriceHeap_Push s x) k = prices s k)"
  using assms
  by (cases s) (auto simp: PriceHeap_Push_def idx_ok_def set_index_def frame_index_def prices_def
      nth_append less_Suc_eq)

lemma Pop_heap:
  assumes "idx_ok s" "fst s \<noteq> []"
  shows "fst (PriceHeap_Pop s) = butlast (fst s) \<and> idx_ok (PriceHeap_Pop s) \<and>
    frame_index (set (fst s)) (snd s) (snd (PriceHeap_Pop s)) \<and>
    (\<forall>k < length (fst s) - 1. prices (PriceHeap_Pop s) k = prices s k)"
proof -
  obtain h x m where s: "s = (h @ [x], m)"
    using assms(2) by (cases s; cases "fst s" rule: rev_cases) auto
  show ?thesis
    using assms(1)
    by (auto simp: s PriceHeap_Pop_def idx_ok_def set_index_def frame_index_def prices_def
        nth_append less_Suc_eq split: if_splits)
qed

context heap_order
begin

theorem heap_Push_correct:
  assumes "idx_ok s" "heap_prop lt (prices s) (length (fst s))" "x \<notin> set (fst s)"
  shows "mset (fst (heap_Push lt s x)) = add_mset x (mset (fst s)) \<and>
    idx_ok (heap_Push lt s x) \<and>
    heap_prop lt (prices (heap_Push lt s x)) (length (fst (heap_Push lt s x))) \<and>
    frame_index (insert x (set (fst s))) (snd s) (snd (heap_Push lt s x))"
proof -
  let ?s = "PriceHeap_Push s x"
  let ?n = "length (fst s)"
  note P = Push_heap [OF assms(1,3)]
  have len: "length (fst ?s) = Suc ?n" using P by simp
  have eq: "heap_Push lt s x = heap_up lt ?s ?n" by (simp add: heap_Push_def Let_def len)
  have up: "mset (fst (heap_up lt ?s ?n)) = mset (fst ?s) \<and>
      frame_index (set (fst ?s)) (snd ?s) (snd (heap_up lt ?s ?n)) \<and>
      (idx_ok ?s \<longrightarrow> idx_ok (heap_up lt ?s ?n))"
    by (rule heap_up_frame) (simp add: len)
  have nochild: "\<not> (k < Suc ?n \<and> 0 < k \<and> parent k = ?n)" for k
    using parent_less [of k] by auto
  have "hole lt (prices ?s) ?n (Suc ?n)"
    unfolding hole_def
  proof (intro conjI allI impI)
    fix k assume k: "k < Suc ?n" "0 < k" "k \<noteq> ?n" "parent k \<noteq> ?n"
    then have "k < ?n" "parent k < ?n" using parent_less [of k] by auto
    then show "\<not> lt (prices ?s k) (prices ?s (parent k))"
      using P assms(2) k(2) by (simp add: heap_prop_def)
  qed (use nochild in blast)
  then have "heap_prop lt (prices (heap_up lt ?s ?n)) (Suc ?n)"
    by (intro heap_up_correct) (use len nochild in auto)
  moreover have "length (fst (heap_up lt ?s ?n)) = Suc ?n"
    using up len by (metis size_mset)
  ultimately show ?thesis
    unfolding eq using up P
    by (auto intro: frame_index_trans frame_index_mono)
qed

lemma heap_Remove_swap:
  assumes "idx_ok s" "heap_prop lt (prices s) (Suc n)" "length (fst s) = Suc n" "i < n"
    and w: "w = PriceHeap_Swap s i n"
  shows "length (fst w) = Suc n \<and> idx_ok w \<and> mset (fst w) = mset (fst s) \<and>
    set (fst w) = set (fst s) \<and> frame_index (set (fst s)) (snd s) (snd w) \<and>
    fst w ! n = fst s ! i \<and> hole lt (prices w) i n"
proof -
  have b: "i < length (fst s)" "n < length (fst s)" using assms(3,4) by auto
  have wn: "fst w ! n = fst s ! i"
    using b assms(4) unfolding w by (cases s) (simp add: PriceHeap_Swap_def Let_def)
  have sw: "prices w k = prices s k" if "k < n" "k \<noteq> i" for k
    using prices_Swap [OF b, of k] that b(2) unfolding w by simp
  have ok: "\<not> lt (prices s k) (prices s (parent k))" if "k < n" "0 < k" for k
    using assms(2) that by (simp add: heap_prop_def)
  have "hole lt (prices w) i n"
    unfolding hole_def
  proof (intro conjI allI impI)
    fix k assume "k < n" "0 < k" "k \<noteq> i" "parent k \<noteq> i"
    then show "\<not> lt (prices w k) (prices w (parent k))"
      using sw ok parent_less [of k] by simp
  next
    fix k assume k: "k < n" "0 < k" "parent k = i" "0 < i"
    have "k \<noteq> i" "parent i < i" "parent i < n"
      using parent_less [of k] parent_less [of i] k by auto
    then have "prices w k = prices s k" "prices w (parent i) = prices s (parent i)"
      using sw [of k] sw [of "parent i"] k by auto
    then show "\<not> lt (prices w k) (prices w (parent i))"
      using ok [of k] ok [of i] k assms(4) not_lt_trans by auto
  qed
  then show ?thesis
    using b wn assms(3) idx_Swap [OF assms(1) b] mset_Swap [OF b] frame_Swap [OF b] set_Swap [OF b]
    unfolding w by simp
qed

text \<open>After the repair and before the last place is popped.\<close>

lemma heap_Remove_repair:
  assumes "idx_ok w" "hole lt (prices w) i n" "length (fst w) = Suc n" "i < n"
    and r: "r = (case heap_down lt w i n of (s, moved) \<Rightarrow> if \<not> moved then heap_up lt s i else s)"
  shows "mset (fst r) = mset (fst w) \<and> idx_ok r \<and> frame_index (set (fst w)) (snd w) (snd r) \<and>
    fst r ! n = fst w ! n \<and> heap_prop lt (prices r) n"
proof -
  obtain d moved where D: "heap_down lt w i n = (d, moved)" by (cases "heap_down lt w i n")
  then have d: "d = fst (heap_down_loop lt w i n)" by (auto simp: heap_down_def split: prod.splits)
  have df: "mset (fst d) = mset (fst w)" "frame_index (set (fst w)) (snd w) (snd d)"
    "idx_ok d" "fst d ! n = fst w ! n"
    using heap_down_frame [of n w lt i] assms(1,3) unfolding d by auto
  have dok: "moved \<and> heap_prop lt (prices d) n \<or> \<not> moved \<and> d = w \<and>
      (\<forall>k < n. 0 < k \<longrightarrow> parent k = i \<longrightarrow> \<not> lt (prices w k) (prices w i))"
    using heap_down_correct [OF _ assms(2) D] assms(3) by simp
  show ?thesis
  proof (cases moved)
    case True
    then show ?thesis using dok df D r by simp
  next
    case False
    then have ch: "\<forall>k < n. 0 < k \<longrightarrow> parent k = i \<longrightarrow> \<not> lt (prices w k) (prices w i)"
      and ru: "r = heap_up lt w i"
      using dok D r by auto
    have "mset (fst r) = mset (fst w) \<and> frame_index (set (fst w)) (snd w) (snd r) \<and>
        (idx_ok w \<longrightarrow> idx_ok r)"
      unfolding ru by (rule heap_up_frame) (use assms(3,4) in simp)
    moreover have "heap_prop lt (prices r) n"
      unfolding ru by (rule heap_up_correct) (use assms(2,3,4) ch in auto)
    moreover have "fst r ! n = fst w ! n"
      unfolding ru using assms(4) by (rule heap_up_above)
    ultimately show ?thesis using assms(1) by blast
  qed
qed

lemma heap_Remove_pop:
  assumes "idx_ok t" "heap_prop lt (prices t) n" "length (fst t) = Suc n"
  shows "mset (fst (PriceHeap_Pop t)) = mset (fst t) - {#fst t ! n#} \<and>
    idx_ok (PriceHeap_Pop t) \<and>
    heap_prop lt (prices (PriceHeap_Pop t)) (length (fst (PriceHeap_Pop t))) \<and>
    frame_index (set (fst t)) (snd t) (snd (PriceHeap_Pop t))"
proof -
  have ne: "fst t \<noteq> []" using assms(3) by auto
  note P = Pop_heap [OF assms(1) ne]
  have "last (fst t) = fst t ! n" using assms(3) by (simp add: last_conv_nth ne)
  moreover have "mset (butlast (fst t)) = mset (fst t) - {#last (fst t)#}"
    using ne by (cases "fst t" rule: rev_cases) auto
  moreover have "heap_prop lt (prices (PriceHeap_Pop t)) n"
    using heap_prop_cong [of n "prices (PriceHeap_Pop t)" "prices t" lt] P assms(2,3) by simp
  ultimately show ?thesis using P assms(3) by simp
qed

theorem heap_Remove_correct:
  assumes "idx_ok s" "heap_prop lt (prices s) (length (fst s))" "i < length (fst s)"
  shows "mset (fst (heap_Remove lt s i)) = mset (fst s) - {#fst s ! i#} \<and>
    idx_ok (heap_Remove lt s i) \<and>
    heap_prop lt (prices (heap_Remove lt s i)) (length (fst (heap_Remove lt s i))) \<and>
    frame_index (set (fst s)) (snd s) (snd (heap_Remove lt s i))"
proof -
  obtain n where n: "length (fst s) = Suc n" "i \<le> n"
    using assms(3) by (cases "length (fst s)") auto
  show ?thesis
  proof (cases "i = n")
    case True
    have "heap_Remove lt s i = PriceHeap_Pop s"
      using True n by (simp add: heap_Remove_def Let_def)
    then show ?thesis
      using heap_Remove_pop [OF assms(1) heap_prop_mono [OF assms(2), of n] n(1)] n True by simp
  next
    case False
    define w where "w = PriceHeap_Swap s i n"
    define r where "r = (case heap_down lt w i n of (s, moved) \<Rightarrow> if \<not> moved then heap_up lt s i else s)"
    have R: "heap_Remove lt s i = PriceHeap_Pop r"
      using False n(1) unfolding heap_Remove_def Let_def w_def r_def by simp
    have hp: "heap_prop lt (prices s) (Suc n)" and i: "i < n" using assms(2) n False by auto
    note W = heap_Remove_swap [OF assms(1) hp n(1) i w_def]
    have R1: "mset (fst r) = mset (fst w) \<and> idx_ok r \<and> frame_index (set (fst w)) (snd w) (snd r) \<and>
        fst r ! n = fst w ! n \<and> heap_prop lt (prices r) n"
      by (rule heap_Remove_repair [OF _ _ _ i r_def]) (use W in auto)
    have len: "length (fst r) = Suc n" using R1 W by (metis size_mset)
    have set: "set (fst r) = set (fst s)" using R1 W by (metis set_mset_mset)
    note P = heap_Remove_pop [OF _ _ len, of]
    have "frame_index (set (fst s)) (snd s) (snd r)"
      using frame_index_trans W R1 by metis
    with P R1 W set show ?thesis
      unfolding R by (auto intro: frame_index_trans)
  qed
qed

end

interpretation max_heap: heap_order MaxPriceHeap_Less
  by unfold_locales (auto simp: MaxPriceHeap_Less_def)

interpretation min_heap: heap_order MinPriceHeap_Less
  by unfold_locales (auto simp: MinPriceHeap_Less_def)

end
