(* ===== verification/MatchLog.thy ===== *)
theory MatchLog
  imports Models
begin

text \<open>
  The raw execution record of \<^verbatim>\<open>internal/matchlog/log.go\<close> and its stable identity. The
  digest \<open>hex(sha256(payload))\<close> is an argument \<open>H\<close> of every definition that computes an
  identity: the theorems hold for any function from payloads to strings, SHA-256 in
  particular.
\<close>

type_synonym digest = "string \<Rightarrow> string"

record MatchLog =
  mExecutionID :: string
  mTicker :: string
  mPrice :: PriceTicks
  mAmount :: QuantityLots
  mQuoteAmount :: QuoteAtoms
  mMarketConfigVersion :: int
  mMakerOrderID :: string
  mTakerOrderID :: string
  mMakerUserID :: string
  mTakerUserID :: string
  mMakerSide :: Position
  mTakerSide :: Position
  mMatchedAt :: Time

definition GenerateExecutionID :: "digest \<Rightarrow> string \<Rightarrow> string \<Rightarrow> Time \<Rightarrow> nat \<Rightarrow> string" where
  "GenerateExecutionID H ticker takerOrderID matchedAt sequence =
     H (ticker @ ''|'' @ takerOrderID @ ''|'' @ FormatInt (UnixNano matchedAt) @ ''|'' @
        FormatInt (int sequence))"

text \<open>\<open>util.GenerateOrderID\<close> of \<^verbatim>\<open>internal/util/utils.go\<close>.\<close>

definition GenerateOrderID :: "digest \<Rightarrow> CreateOrderRequest \<Rightarrow> string" where
  "GenerateOrderID H req =
     H (cTicker req @ ''|'' @ cUserID req @ ''|'' @ cOrderType req @ ''|'' @ cPosition req @ ''|'' @
        FormatInt (cPrice req) @ ''|'' @ FormatInt (cNonce req))"

end
