(* ===== verification/OrderBook.thy ===== *)
theory OrderBook
  imports PriceHeap MatchLog
begin

text \<open>
  The order book of \<^verbatim>\<open>internal/engine/order.go\<close> and the FIFO queue of
  \<^verbatim>\<open>internal/util/queue.go\<close>.

  Go's pointers are references into stores of the book: \<open>bLevels\<close> holds the
  \<open>util.PriceLevel\<close> objects, \<open>bElems\<close> the values of the \<open>list.Element\<close>s (\<open>None\<close> when the
  value is not a non-nil \<open>*models.BookOrder\<close>), and \<open>bNextLevel\<close>, \<open>bNextElem\<close> are the
  next references to allocate. An order is reachable through one element at a time, so the
  order is kept in the element. A queue is the list of its elements in order, the side maps
  are association lists in Go's unspecified iteration order, and the index is a map from
  order ids to elements.
\<close>

section \<open>The queue\<close>

definition Queue_Push :: "eref list \<Rightarrow> eref \<Rightarrow> eref list" where
  "Queue_Push q e = q @ [e]"

text \<open>\<open>list.Remove\<close> does nothing when the element is not of this list.\<close>

definition Queue_Remove :: "eref list \<Rightarrow> eref \<Rightarrow> eref list" where
  "Queue_Remove q e = (if e \<in> set q then remove1 e q else q)"

definition Queue_Front :: "eref list \<Rightarrow> eref option" where
  "Queue_Front q = (case q of [] \<Rightarrow> None | e # _ \<Rightarrow> Some e)"

definition Queue_Len :: "eref list \<Rightarrow> nat" where
  "Queue_Len q = length q"

definition Queue_Pop :: "eref list \<Rightarrow> eref list \<times> eref option" where
  "Queue_Pop q = (case Queue_Front q of None \<Rightarrow> (q, None) | Some e \<Rightarrow> (Queue_Remove q e, Some e))"

section \<open>State\<close>

record OrderBook =
  bBids :: "(PriceTicks \<times> lref) list"
  bAsks :: "(PriceTicks \<times> lref) list"
  bBidLevels :: "lref list"
  bAskLevels :: "lref list"
  bIndex :: "string \<Rightarrow> eref option"
  bTicker :: string
  bPrecision :: Precision
  bLevels :: lstore
  bElems :: "eref \<Rightarrow> BookOrder option"
  bNextLevel :: lref
  bNextElem :: eref

record OrderBookLevel =
  slPrice :: PriceTicks
  slAmount :: QuantityLots
  slCumulativeAmount :: QuantityLots

record OrderBookSnapshot =
  snTicker :: string
  snBids :: "OrderBookLevel list"
  snAsks :: "OrderBookLevel list"

record EditOrderResult =
  edBefore :: BookOrder
  edAfter :: BookOrder
  edRequiresRematch :: bool

definition empty_level :: PriceLevel where
  "empty_level = \<lparr>lPrice = 0, lQueue = [], lIndex = 0, lTotalAmount = 0\<rparr>"

definition NewOrderBookWithPrecision :: "string \<Rightarrow> Precision \<Rightarrow> OrderBook" where
  "NewOrderBookWithPrecision ticker precision =
     (let precision = WithDefaults precision;
          (bids, m) = heap_Init MaxPriceHeap_Less ([], \<lambda>_. empty_level);
          (asks, m) = heap_Init MinPriceHeap_Less ([], m)
      in \<lparr>bBids = [], bAsks = [], bBidLevels = bids, bAskLevels = asks, bIndex = Map.empty,
          bTicker = ticker, bPrecision = precision, bLevels = m, bElems = (\<lambda>_. None),
          bNextLevel = 0, bNextElem = 0\<rparr>)"

definition NewOrderBook :: "string \<Rightarrow> OrderBook" where
  "NewOrderBook ticker = NewOrderBookWithPrecision ticker DefaultPrecision"

text \<open>
  \<open>side\<close> selects a side's map and heap by the order's position. The \<open>heap.Interface\<close> value
  it returns carries the side's \<open>Less\<close>.
\<close>

datatype book_side = BidSide | AskSide

definition side :: "Position \<Rightarrow> book_side option" where
  "side position =
     (if position = Bid then Some BidSide else if position = Ask then Some AskSide else None)"

fun side_levels :: "book_side \<Rightarrow> OrderBook \<Rightarrow> (PriceTicks \<times> lref) list" where
  "side_levels BidSide ob = bBids ob"
| "side_levels AskSide ob = bAsks ob"

fun side_heap :: "book_side \<Rightarrow> OrderBook \<Rightarrow> lref list" where
  "side_heap BidSide ob = bBidLevels ob"
| "side_heap AskSide ob = bAskLevels ob"

fun side_Less :: "book_side \<Rightarrow> PriceTicks \<Rightarrow> PriceTicks \<Rightarrow> bool" where
  "side_Less BidSide = MaxPriceHeap_Less"
| "side_Less AskSide = MinPriceHeap_Less"

fun set_side_levels :: "book_side \<Rightarrow> (PriceTicks \<times> lref) list \<Rightarrow> OrderBook \<Rightarrow> OrderBook" where
  "set_side_levels BidSide M ob = ob\<lparr>bBids := M\<rparr>"
| "set_side_levels AskSide M ob = ob\<lparr>bAsks := M\<rparr>"

text \<open>A heap operation writes the heap's slice and the levels it moves.\<close>

fun set_side_heap :: "book_side \<Rightarrow> heap_state \<Rightarrow> OrderBook \<Rightarrow> OrderBook" where
  "set_side_heap BidSide s ob = ob\<lparr>bBidLevels := fst s, bLevels := snd s\<rparr>"
| "set_side_heap AskSide s ob = ob\<lparr>bAskLevels := fst s, bLevels := snd s\<rparr>"

definition upd_level :: "lref \<Rightarrow> (PriceLevel \<Rightarrow> PriceLevel) \<Rightarrow> OrderBook \<Rightarrow> OrderBook" where
  "upd_level l f ob = ob\<lparr>bLevels := (bLevels ob)(l := f (bLevels ob l))\<rparr>"

text \<open>Reading one side after writing a side.\<close>

lemma side_levels_set [simp]:
  "side_levels sd' (set_side_levels sd M ob) = (if sd' = sd then M else side_levels sd' ob)"
  "side_levels sd' (set_side_heap sd s ob) = side_levels sd' ob"
  "side_levels sd' (upd_level l f ob) = side_levels sd' ob"
  by (cases sd; cases sd'; simp add: upd_level_def)+

lemma side_heap_set [simp]:
  "side_heap sd' (set_side_levels sd M ob) = side_heap sd' ob"
  "side_heap sd' (set_side_heap sd s ob) = (if sd' = sd then fst s else side_heap sd' ob)"
  "side_heap sd' (upd_level l f ob) = side_heap sd' ob"
  by (cases sd; cases sd'; simp add: upd_level_def)+

lemma side_levels_simps [simp]:
  "side_levels sd (ob\<lparr>bElems := E\<rparr>) = side_levels sd ob"
  "side_levels sd (ob\<lparr>bLevels := m\<rparr>) = side_levels sd ob"
  "side_levels sd (ob\<lparr>bIndex := I\<rparr>) = side_levels sd ob"
  "side_levels sd (ob\<lparr>bNextElem := n\<rparr>) = side_levels sd ob"
  "side_levels sd (ob\<lparr>bNextLevel := n\<rparr>) = side_levels sd ob"
  by (cases sd; simp)+

lemma side_heap_simps [simp]:
  "side_heap sd (ob\<lparr>bElems := E\<rparr>) = side_heap sd ob"
  "side_heap sd (ob\<lparr>bLevels := m\<rparr>) = side_heap sd ob"
  "side_heap sd (ob\<lparr>bIndex := I\<rparr>) = side_heap sd ob"
  "side_heap sd (ob\<lparr>bNextElem := n\<rparr>) = side_heap sd ob"
  "side_heap sd (ob\<lparr>bNextLevel := n\<rparr>) = side_heap sd ob"
  by (cases sd; simp)+

lemma set_side_fields [simp]:
  "bLevels (set_side_levels sd M ob) = bLevels ob" "bLevels (set_side_heap sd s ob) = snd s"
  "bElems (set_side_levels sd M ob) = bElems ob" "bElems (set_side_heap sd s ob) = bElems ob"
  "bIndex (set_side_levels sd M ob) = bIndex ob" "bIndex (set_side_heap sd s ob) = bIndex ob"
  "bTicker (set_side_levels sd M ob) = bTicker ob" "bTicker (set_side_heap sd s ob) = bTicker ob"
  "bPrecision (set_side_levels sd M ob) = bPrecision ob"
  "bPrecision (set_side_heap sd s ob) = bPrecision ob"
  "bNextElem (set_side_levels sd M ob) = bNextElem ob"
  "bNextElem (set_side_heap sd s ob) = bNextElem ob"
  "bNextLevel (set_side_levels sd M ob) = bNextLevel ob"
  "bNextLevel (set_side_heap sd s ob) = bNextLevel ob"
  by (cases sd; simp)+

lemma upd_level_fields [simp]:
  "bLevels (upd_level l f ob) = (bLevels ob)(l := f (bLevels ob l))"
  "bElems (upd_level l f ob) = bElems ob" "bIndex (upd_level l f ob) = bIndex ob"
  "bTicker (upd_level l f ob) = bTicker ob" "bPrecision (upd_level l f ob) = bPrecision ob"
  "bNextElem (upd_level l f ob) = bNextElem ob" "bNextLevel (upd_level l f ob) = bNextLevel ob"
  by (simp_all add: upd_level_def)

section \<open>Operations\<close>

definition CreateOrderAt :: "digest \<Rightarrow> CreateOrderRequest \<Rightarrow> Time \<Rightarrow> BookOrder" where
  "CreateOrderAt H req recordedAt =
     \<lparr>oTicker = cTicker req, oOrderID = GenerateOrderID H req, oUserID = cUserID req,
      oOrderType = cOrderType req, oPosition = cPosition req, oPrice = cPrice req,
      oAmount = cAmount req, oTimestamp = recordedAt, oStatus = Pending, oNonce = cNonce req\<rparr>"

text \<open>The level of a price, created, mapped and pushed on the heap when it is missing.\<close>

definition ensure_level :: "book_side \<Rightarrow> PriceTicks \<Rightarrow> OrderBook \<Rightarrow> lref \<times> OrderBook" where
  "ensure_level sd price ob =
     (case map_of (side_levels sd ob) price of
        Some lvl \<Rightarrow> (lvl, ob)
      | None \<Rightarrow>
          let lvl = bNextLevel ob;
              ob = ob\<lparr>bNextLevel := lvl + 1\<rparr>;
              ob = upd_level lvl
                (\<lambda>_. \<lparr>lPrice = price, lQueue = [], lIndex = 0, lTotalAmount = 0\<rparr>) ob;
              ob = set_side_levels sd (AList.update price lvl (side_levels sd ob)) ob;
              ob = set_side_heap sd (heap_Push (side_Less sd) (side_heap sd ob, bLevels ob) lvl) ob
          in (lvl, ob))"

definition AddOrder :: "OrderBook \<Rightarrow> BookOrder \<Rightarrow> OrderBook" where
  "AddOrder ob order =
     (case side (oPosition order) of
        None \<Rightarrow> ob
      | Some sd \<Rightarrow>
          let (lvl, ob) = ensure_level sd (oPrice order) ob;
              ob = upd_level lvl
                (\<lambda>v. v\<lparr>lTotalAmount := wrap64 (lTotalAmount v + oAmount order)\<rparr>) ob;
              elem = bNextElem ob;
              ob = ob\<lparr>bNextElem := elem + 1, bElems := (bElems ob)(elem := Some order)\<rparr>;
              ob = upd_level lvl (\<lambda>v. v\<lparr>lQueue := Queue_Push (lQueue v) elem\<rparr>) ob
          in ob\<lparr>bIndex := (bIndex ob)(oOrderID order := Some elem)\<rparr>)"

text \<open>\<open>level\<close>: the side and the level of a position and a price. A stored level is never nil.\<close>

definition level :: "OrderBook \<Rightarrow> Position \<Rightarrow> PriceTicks \<Rightarrow> (lref \<times> book_side) option" where
  "level ob position price =
     (case side position of
        None \<Rightarrow> None
      | Some sd \<Rightarrow>
          (case map_of (side_levels sd ob) price of None \<Rightarrow> None | Some lvl \<Rightarrow> Some (lvl, sd)))"

definition dropPriceLevel :: "OrderBook \<Rightarrow> book_side \<Rightarrow> lref \<Rightarrow> OrderBook" where
  "dropPriceLevel ob sd lvl =
     (let index = lIndex (bLevels ob lvl);
          ob = (if 0 \<le> index \<and> index < int (length (side_heap sd ob))
                then set_side_heap sd
                       (heap_Remove (side_Less sd) (side_heap sd ob, bLevels ob) (nat index)) ob
                else ob)
      in set_side_levels sd (AList.delete (lPrice (bLevels ob lvl)) (side_levels sd ob)) ob)"

definition removeElement ::
  "OrderBook \<Rightarrow> lref \<Rightarrow> book_side \<Rightarrow> eref \<Rightarrow> QuantityLots \<Rightarrow> OrderBook" where
  "removeElement ob lvl sd elem fallbackAmount =
     (let ob = upd_level lvl (\<lambda>v. v\<lparr>lQueue := Queue_Remove (lQueue v) elem\<rparr>) ob;
          orderID = (case bElems ob elem of Some mo \<Rightarrow> oOrderID mo | None \<Rightarrow> []);
          ob = (if orderID \<noteq> [] then ob\<lparr>bIndex := (bIndex ob)(orderID := None)\<rparr> else ob);
          amt = (case bElems ob elem of Some mo \<Rightarrow> oAmount mo | None \<Rightarrow> fallbackAmount);
          ob = upd_level lvl (\<lambda>v. v\<lparr>lTotalAmount := wrap64 (lTotalAmount v - amt)\<rparr>) ob
      in if Queue_Len (lQueue (bLevels ob lvl)) = 0 then dropPriceLevel ob sd lvl else ob)"

definition RemoveOrder :: "OrderBook \<Rightarrow> string \<Rightarrow> OrderBook \<times> BookOrder option" where
  "RemoveOrder ob orderID =
     (case bIndex ob orderID of
        None \<Rightarrow> (ob, None)
      | Some elem \<Rightarrow>
          (case bElems ob elem of
             None \<Rightarrow> (ob, None)
           | Some current \<Rightarrow>
               (case level ob (oPosition current) (oPrice current) of
                  None \<Rightarrow> (ob, None)
                | Some (lvl, sd) \<Rightarrow>
                    (removeElement ob lvl sd elem (oAmount current), Some current))))"

definition EditOrderAt ::
  "OrderBook \<Rightarrow> EditOrderRequest \<Rightarrow> Time \<Rightarrow> OrderBook \<times> EditOrderResult option" where
  "EditOrderAt ob req recordedAt =
     (case bIndex ob (eOrderID req) of
        None \<Rightarrow> (ob, None)
      | Some elem \<Rightarrow>
     (case bElems ob elem of
        None \<Rightarrow> (ob, None)
      | Some existing \<Rightarrow>
     (case level ob (oPosition existing) (oPrice existing) of
        None \<Rightarrow> (ob, None)
      | Some (lvl, sd) \<Rightarrow>
          let priceChanged = oPrice existing \<noteq> ePrice req;
              amountChanged = (case eAmount req of None \<Rightarrow> False | Some a \<Rightarrow> a \<noteq> oAmount existing);
              before = existing
          in if \<not> priceChanged \<and> \<not> amountChanged then (ob, None)
             else if priceChanged then
               (let ob = removeElement ob lvl sd elem (oAmount existing);
                    existing = existing\<lparr>oPrice := ePrice req\<rparr>;
                    existing = (case eAmount req of
                      None \<Rightarrow> existing | Some a \<Rightarrow> existing\<lparr>oAmount := a\<rparr>);
                    existing = existing\<lparr>oTimestamp := recordedAt\<rparr>;
                    ob = ob\<lparr>bElems := (bElems ob)(elem := Some existing)\<rparr>
                in (ob, Some \<lparr>edBefore = before, edAfter = existing, edRequiresRematch = True\<rparr>))
             else
               (let amount = the (eAmount req);
                    delta = wrap64 (amount - oAmount existing);
                    updated = existing\<lparr>oAmount := amount, oTimestamp := recordedAt\<rparr>
                in if delta > 0 then
                     (let ob = removeElement ob lvl sd elem (oAmount existing);
                          ob = ob\<lparr>bElems := (bElems ob)(elem := Some updated)\<rparr>
                      in (AddOrder ob updated,
                          Some \<lparr>edBefore = before, edAfter = updated, edRequiresRematch = False\<rparr>))
                   else
                     (let ob = ob\<lparr>bElems := (bElems ob)(elem := Some updated)\<rparr>;
                          ob = upd_level lvl
                            (\<lambda>v. v\<lparr>lTotalAmount := wrap64 (lTotalAmount v + delta)\<rparr>) ob
                      in (ob,
                          Some \<lparr>edBefore = before, edAfter = updated, edRequiresRematch = False\<rparr>))))))"

fun cumulate :: "QuantityLots \<Rightarrow> OrderBookLevel list \<Rightarrow> OrderBookLevel list" where
  "cumulate cumulative [] = []"
| "cumulate cumulative (v # vs) =
     (let cumulative = wrap64 (cumulative + slAmount v)
      in v\<lparr>slCumulativeAmount := cumulative\<rparr> # cumulate cumulative vs)"

definition snapshotLevels :: "lstore \<Rightarrow> (PriceTicks \<times> lref) list \<Rightarrow> int \<Rightarrow> bool \<Rightarrow> OrderBookLevel list" where
  "snapshotLevels m levels depth desc =
     (let out = map (\<lambda>(_, lvl). \<lparr>slPrice = lPrice (m lvl), slAmount = lTotalAmount (m lvl),
                                 slCumulativeAmount = 0\<rparr>) levels;
          out = sort_key (\<lambda>v. if desc then - slPrice v else slPrice v) out;
          out = (if depth > 0 \<and> depth < int (length out) then take (nat depth) out else out)
      in cumulate 0 out)"

definition Snapshot :: "OrderBook \<Rightarrow> int \<Rightarrow> OrderBookSnapshot" where
  "Snapshot ob depth =
     \<lparr>snTicker = bTicker ob,
      snBids = snapshotLevels (bLevels ob) (bBids ob) depth True,
      snAsks = snapshotLevels (bLevels ob) (bAsks ob) depth False\<rparr>"

end
