(* ===== verification/Matching.thy ===== *)
theory Matching
  imports OrderBook
begin

text \<open>
  The matching loop of \<^verbatim>\<open>internal/engine/match.go\<close>. The two cases of the source, for an
  incoming bid and for an incoming ask, are the same code over the opposite side's heap and
  map; \<open>match_loop\<close> is that code with the opposite side as an argument. The incoming order
  is passed and returned, as \<open>Match\<close> mutates it through its pointer.
\<close>

record MakerFillTransition =
  tOrder :: BookOrder
  tPreviousAmount :: QuantityLots
  tFilledAmount :: QuantityLots
  tRemainingAmount :: QuantityLots

record MatchResult =
  rResidual :: "BookOrder option"
  rLogs :: "MatchLog list"
  rMakerTransitions :: "MakerFillTransition list"
  rErr :: "numeric_error option"

definition minQuantity :: "QuantityLots \<Rightarrow> QuantityLots \<Rightarrow> QuantityLots" where
  "minQuantity left right = (if left < right then left else right)"

definition canMatchAtPrice :: "BookOrder \<Rightarrow> PriceTicks \<Rightarrow> bool" where
  "canMatchAtPrice incoming oppositePrice =
     (if oOrderType incoming = Market then True
      else if oPosition incoming = Bid then oPrice incoming \<ge> oppositePrice
      else oPrice incoming \<le> oppositePrice)"

definition newMatchLog ::
  "digest \<Rightarrow> OrderBook \<Rightarrow> BookOrder \<Rightarrow> BookOrder \<Rightarrow> PriceTicks \<Rightarrow> QuantityLots \<Rightarrow> nat \<Rightarrow>
   numeric_error + MatchLog" where
  "newMatchLog H book taker maker price amount sequence =
     (case QuoteAmount (bPrecision book) price amount of
        Inl err \<Rightarrow> Inl err
      | Inr quoteAmount \<Rightarrow>
          Inr \<lparr>mExecutionID =
                 GenerateExecutionID H (bTicker book) (oOrderID taker) (oTimestamp taker) sequence,
               mTicker = bTicker book, mPrice = price, mAmount = amount,
               mQuoteAmount = quoteAmount,
               mMarketConfigVersion = ConfigVersion (bPrecision book),
               mMakerOrderID = oOrderID maker, mTakerOrderID = oOrderID taker,
               mMakerUserID = oUserID maker, mTakerUserID = oUserID taker,
               mMakerSide = oPosition maker, mTakerSide = oPosition taker,
               mMatchedAt = oTimestamp taker\<rparr>)"

text \<open>
  The changes one execution makes to the book: the maker's amount and the level's total go
  down by the traded amount; a maker with nothing left leaves its queue and the index; a
  level with no order left leaves its heap and its map.
\<close>

definition fill_maker ::
  "OrderBook \<Rightarrow> book_side \<Rightarrow> lref \<Rightarrow> eref \<Rightarrow> BookOrder \<Rightarrow> QuantityLots \<Rightarrow> OrderBook" where
  "fill_maker book sd best elem target tradeAmount =
     (let target = target\<lparr>oAmount := wrap64 (oAmount target - tradeAmount)\<rparr>;
          book = book\<lparr>bElems := (bElems book)(elem := Some target)\<rparr>;
          book = upd_level best
            (\<lambda>v. v\<lparr>lTotalAmount := wrap64 (lTotalAmount v - tradeAmount)\<rparr>) book;
          book = (if oAmount target \<le> 0
                  then (upd_level best (\<lambda>v. v\<lparr>lQueue := Queue_Remove (lQueue v) elem\<rparr>) book)
                         \<lparr>bIndex := (bIndex book)(oOrderID target := None)\<rparr>
                  else book)
      in if Queue_Len (lQueue (bLevels book best)) = 0 then dropPriceLevel book sd best else book)"

definition transition :: "BookOrder \<Rightarrow> QuantityLots \<Rightarrow> MakerFillTransition" where
  "transition target tradeAmount =
     \<lparr>tOrder = target, tPreviousAmount = oAmount target, tFilledAmount = tradeAmount,
      tRemainingAmount = wrap64 (oAmount target - tradeAmount)\<rparr>"

text \<open>
  The loop stops when the opposite side is empty, nothing is left to trade or the best price
  does not cross, and at the two defensive \<open>break\<close>s (an empty best queue, an element that
  is no order). A quote overflow ends it with the error, before the book is changed.
\<close>

definition match_candidate ::
  "OrderBook \<Rightarrow> book_side \<Rightarrow> BookOrder \<Rightarrow> (lref \<times> eref \<times> BookOrder) option" where
  "match_candidate book sd incoming =
     (case PriceHeap_Peek (side_heap sd book) of
        None \<Rightarrow> None
      | Some best \<Rightarrow>
          if oAmount incoming \<le> 0 \<or> \<not> canMatchAtPrice incoming (lPrice (bLevels book best)) then None
          else (case Queue_Front (lQueue (bLevels book best)) of
                  None \<Rightarrow> None
                | Some elem \<Rightarrow>
                    (case bElems book elem of
                       None \<Rightarrow> None
                     | Some target \<Rightarrow> Some (best, elem, target))))"

record match_state =
  msBook :: OrderBook
  msIncoming :: BookOrder
  msLogs :: "MatchLog list"
  msTransitions :: "MakerFillTransition list"

definition match_fill ::
  "book_side \<Rightarrow> match_state \<Rightarrow> lref \<Rightarrow> eref \<Rightarrow> BookOrder \<Rightarrow> MatchLog \<Rightarrow> match_state" where
  "match_fill sd st best elem target logEntry =
     (let tradeAmount = minQuantity (oAmount (msIncoming st)) (oAmount target)
      in \<lparr>msBook = fill_maker (msBook st) sd best elem target tradeAmount,
          msIncoming = (msIncoming st)
            \<lparr>oAmount := wrap64 (oAmount (msIncoming st) - tradeAmount)\<rparr>,
          msLogs = msLogs st @ [logEntry],
          msTransitions = msTransitions st @ [transition target tradeAmount]\<rparr>)"

definition match_log ::
  "digest \<Rightarrow> match_state \<Rightarrow> lref \<Rightarrow> BookOrder \<Rightarrow> numeric_error + MatchLog" where
  "match_log H st best target =
     newMatchLog H (msBook st) (msIncoming st) target (lPrice (bLevels (msBook st) best))
       (minQuantity (oAmount (msIncoming st)) (oAmount target)) (length (msLogs st))"

section \<open>Termination of the loop\<close>

text \<open>
  Every execution either empties the incoming order or takes the front order off the best
  level's queue. Nothing about the book is assumed.
\<close>

definition resting_count :: "book_side \<Rightarrow> OrderBook \<Rightarrow> nat" where
  "resting_count sd book = (\<Sum>l\<leftarrow>side_heap sd book. length (lQueue (bLevels book l)))"

lemma resting_count_mset:
  "resting_count sd book = (\<Sum>l\<in>#mset (side_heap sd book). length (lQueue (bLevels book l)))"
  by (simp add: resting_count_def sum_mset_sum_list [symmetric])

lemma resting_count_dropPriceLevel: "resting_count sd (dropPriceLevel ob sd l) \<le> resting_count sd ob"
proof -
  have set_levels: "resting_count sd (set_side_levels sd M ob') = resting_count sd ob'" for M ob'
    by (simp add: resting_count_def)
  let ?i = "lIndex (bLevels ob l)"
  show ?thesis
  proof (cases "0 \<le> ?i \<and> ?i < int (length (side_heap sd ob))")
    case False
    then show ?thesis by (simp only: dropPriceLevel_def Let_def if_False set_levels order.refl)
  next
    case True
    then have "nat ?i < length (fst (side_heap sd ob, bLevels ob))" by auto
    from heap_Remove_subset [OF this, of "side_Less sd"]
    have R: "mset (fst (heap_Remove (side_Less sd) (side_heap sd ob, bLevels ob) (nat ?i)))
          \<subseteq># mset (side_heap sd ob)"
        "\<And>x. lQueue (snd (heap_Remove (side_Less sd) (side_heap sd ob, bLevels ob) (nat ?i)) x)
          = lQueue (bLevels ob x)"
      by (auto simp: frame_index_def)
    have heap: "side_heap sd (set_side_heap sd s ob) = fst s" "bLevels (set_side_heap sd s ob) = snd s" for s
      by simp_all
    have "resting_count sd (set_side_heap sd
        (heap_Remove (side_Less sd) (side_heap sd ob, bLevels ob) (nat ?i)) ob) \<le> resting_count sd ob"
      unfolding resting_count_mset heap R(2)
      by (rule sum_mset_subset_le) (rule R(1))
    with True show ?thesis by (simp only: dropPriceLevel_def Let_def if_True set_levels simp_thms)
  qed
qed

lemma resting_count_upd_level:
  assumes "l \<in> set (side_heap sd ob)" "length (lQueue (f (bLevels ob l))) < length (lQueue (bLevels ob l))"
  shows "resting_count sd (upd_level l f ob) < resting_count sd ob"
  unfolding resting_count_def side_heap_set
  by (rule sum_list_less [OF assms(1)]) (use assms(2) in \<open>auto simp: upd_level_def\<close>)

lemma resting_count_same_queues:
  assumes "side_heap sd ob' = side_heap sd ob" "\<And>l. lQueue (bLevels ob' l) = lQueue (bLevels ob l)"
  shows "resting_count sd ob' = resting_count sd ob"
  using assms by (simp add: resting_count_def)

lemma resting_count_simps [simp]:
  "resting_count sd (ob\<lparr>bElems := E\<rparr>) = resting_count sd ob"
  "resting_count sd (ob\<lparr>bIndex := I\<rparr>) = resting_count sd ob"
  by (simp_all add: resting_count_def)

lemma match_candidate_Some:
  assumes "match_candidate book sd incoming = Some (best, elem, target)"
  shows "best \<in> set (side_heap sd book)" "Queue_Front (lQueue (bLevels book best)) = Some elem"
    "elem \<in> set (lQueue (bLevels book best))"
    "0 < oAmount incoming" "canMatchAtPrice incoming (lPrice (bLevels book best))"
    "bElems book elem = Some target"
  using assms
  by (auto simp: match_candidate_def PriceHeap_Peek_def Queue_Front_def split: option.splits if_splits list.splits)

lemma resting_count_fill_maker:
  assumes "match_candidate book sd incoming = Some (best, elem, target)"
  shows "resting_count sd (fill_maker book sd best elem target amt) \<le> resting_count sd book"
    and "wrap64 (oAmount target - amt) \<le> 0 \<Longrightarrow>
      resting_count sd (fill_maker book sd best elem target amt) < resting_count sd book"
proof -
  note C = match_candidate_Some [OF assms]
  define t where "t = target\<lparr>oAmount := wrap64 (oAmount target - amt)\<rparr>"
  define b1 where "b1 = book\<lparr>bElems := (bElems book)(elem := Some t)\<rparr>"
  define b2 where "b2 = upd_level best (\<lambda>v. v\<lparr>lTotalAmount := wrap64 (lTotalAmount v - amt)\<rparr>) b1"
  define b3 where "b3 = upd_level best (\<lambda>v. v\<lparr>lQueue := Queue_Remove (lQueue v) elem\<rparr>) b2"
  define b4 where "b4 = (if oAmount t \<le> 0 then b3\<lparr>bIndex := (bIndex b3)(oOrderID t := None)\<rparr> else b2)"
  have fill: "fill_maker book sd best elem target amt =
      (if Queue_Len (lQueue (bLevels b4 best)) = 0 then dropPriceLevel b4 sd best else b4)"
    unfolding fill_maker_def Let_def t_def [symmetric] b1_def [symmetric] b2_def [symmetric]
      b4_def b3_def by (simp add: upd_level_def)
  have r2: "resting_count sd b2 = resting_count sd book"
    unfolding b2_def
    by (rule resting_count_same_queues) (simp_all add: b1_def)
  have r3: "resting_count sd b3 < resting_count sd b2"
    unfolding b3_def
    by (rule resting_count_upd_level)
      (use C in \<open>auto simp: b2_def b1_def upd_level_def Queue_Remove_def length_remove1
        intro: diff_Suc_less length_pos_if_in_set\<close>)
  have r4: "resting_count sd b4 \<le> resting_count sd book"
    using r2 r3 by (simp add: b4_def)
  show "resting_count sd (fill_maker book sd best elem target amt) \<le> resting_count sd book"
    using r4 resting_count_dropPriceLevel [of sd b4 best] unfolding fill by simp
  assume "wrap64 (oAmount target - amt) \<le> 0"
  then have "resting_count sd b4 < resting_count sd book"
    using r2 r3 by (simp add: b4_def t_def)
  then show "resting_count sd (fill_maker book sd best elem target amt) < resting_count sd book"
    using resting_count_dropPriceLevel [of sd b4 best] unfolding fill by simp
qed

section \<open>The loop\<close>

definition match_measure :: "book_side \<Rightarrow> match_state \<Rightarrow> nat" where
  "match_measure sd st =
     resting_count sd (msBook st) + (if 0 < oAmount (msIncoming st) then 1 else 0)"

lemma match_fill_measure:
  assumes "match_candidate (msBook st) sd (msIncoming st) = Some (best, elem, target)"
  shows "match_measure sd (match_fill sd st best elem target logEntry) < match_measure sd st"
proof -
  note C = match_candidate_Some [OF assms]
  note R = resting_count_fill_maker [OF assms]
  show ?thesis
  proof (cases "oAmount (msIncoming st) < oAmount target")
    case True
    then show ?thesis
      using C(4) R(1) [of "oAmount (msIncoming st)"]
      by (simp add: match_measure_def match_fill_def Let_def minQuantity_def)
  next
    case False
    then show ?thesis
      using C(4) R(2) [of "oAmount target"]
      by (simp add: match_measure_def match_fill_def Let_def minQuantity_def)
  qed
qed

function match_loop ::
  "digest \<Rightarrow> book_side \<Rightarrow> match_state \<Rightarrow> match_state \<times> numeric_error option" where
  "match_loop H sd st =
     (case match_candidate (msBook st) sd (msIncoming st) of
        None \<Rightarrow> (st, None)
      | Some (best, elem, target) \<Rightarrow>
          (case match_log H st best target of
             Inl err \<Rightarrow> (st, Some err)
           | Inr logEntry \<Rightarrow> match_loop H sd (match_fill sd st best elem target logEntry)))"
  by pat_completeness auto
termination
  by (relation "measure (\<lambda>(H, sd, st). match_measure sd st)") (auto simp: match_fill_measure)

declare match_loop.simps [simp del]

text \<open>
  \<open>Match\<close> on a book and an order, both not nil (on a nil argument the source returns the
  incoming order as the residual and changes nothing). Both are changed through their
  pointers, so both are returned.
\<close>

definition Match :: "digest \<Rightarrow> OrderBook \<Rightarrow> BookOrder \<Rightarrow> MatchResult \<times> OrderBook \<times> BookOrder" where
  "Match H book incoming =
     (let st = \<lparr>msBook = book, msIncoming = incoming, msLogs = [], msTransitions = []\<rparr>;
          (st, err) =
            (if oPosition incoming = Bid then match_loop H AskSide st
             else if oPosition incoming = Ask then match_loop H BidSide st
             else (st, None));
          residual =
            (if err \<noteq> None then Some (msIncoming st)
             else if oAmount (msIncoming st) \<le> 0 then None else Some (msIncoming st))
      in (\<lparr>rResidual = residual, rLogs = msLogs st, rMakerTransitions = msTransitions st,
           rErr = err\<rparr>, msBook st, msIncoming st))"

end
