(* ===== verification/BookInvariant.thy ===== *)
theory BookInvariant
  imports OrderBook
begin

text \<open>
  What the order book keeps true. \<open>book_struct\<close> relates the two sides' maps, heaps and level
  indices; \<open>book_contents\<close> states, over the queues seen through the maps, what the levels
  hold: FIFO queues of live orders of the right side and price, totals that are the sums of
  the queued amounts, and an index that finds exactly the queued orders. \<open>queue_at\<close> and
  \<open>total_at\<close> are the levels as a function of side and price; the lemmas of this theory say
  how each building block of the operations changes them.
\<close>

section \<open>Structure\<close>

definition side_struct :: "book_side \<Rightarrow> OrderBook \<Rightarrow> bool" where
  "side_struct sd ob \<longleftrightarrow>
     distinct (map fst (side_levels sd ob)) \<and>
     (\<forall>(p, l) \<in> set (side_levels sd ob). lPrice (bLevels ob l) = p \<and> l < bNextLevel ob) \<and>
     set (side_heap sd ob) = snd ` set (side_levels sd ob) \<and>
     idx_ok (side_heap sd ob, bLevels ob) \<and>
     heap_prop (side_Less sd) (prices (side_heap sd ob, bLevels ob)) (length (side_heap sd ob))"

definition book_struct :: "OrderBook \<Rightarrow> bool" where
  "book_struct ob \<longleftrightarrow> side_struct BidSide ob \<and> side_struct AskSide ob \<and>
     set (bBidLevels ob) \<inter> set (bAskLevels ob) = {}"

lemma book_struct_side: "book_struct ob \<Longrightarrow> side_struct sd ob"
  by (cases sd) (simp_all add: book_struct_def)

lemma book_struct_disjoint:
  "book_struct ob \<Longrightarrow> l \<in> set (side_heap sd ob) \<Longrightarrow> l \<in> set (side_heap sd' ob) \<Longrightarrow> sd' = sd"
  by (cases sd; cases sd') (auto simp: book_struct_def)

lemma book_structI:
  assumes "\<And>sd. side_struct sd ob"
    and "\<And>l. l \<in> set (side_heap BidSide ob) \<Longrightarrow> l \<in> set (side_heap AskSide ob) \<Longrightarrow> False"
  shows "book_struct ob"
  using assms by (auto simp: book_struct_def)

text \<open>Only the fields named here matter to the structure.\<close>

definition same_index :: "OrderBook \<Rightarrow> OrderBook \<Rightarrow> book_side \<Rightarrow> bool" where
  "same_index ob ob' sd \<longleftrightarrow> side_levels sd ob' = side_levels sd ob \<and>
     side_heap sd ob' = side_heap sd ob \<and> bNextLevel ob \<le> bNextLevel ob' \<and>
     (\<forall>l \<in> set (side_heap sd ob). lPrice (bLevels ob' l) = lPrice (bLevels ob l) \<and>
        lIndex (bLevels ob' l) = lIndex (bLevels ob l))"

lemma side_struct_same:
  assumes "same_index ob ob' sd" "side_struct sd ob"
  shows "side_struct sd ob'"
proof -
  have eq: "prices (side_heap sd ob', bLevels ob') k = prices (side_heap sd ob, bLevels ob) k"
    if "k < length (side_heap sd ob)" for k
    using assms(1) that by (auto simp: same_index_def prices_def)
  have mem: "l \<in> set (side_heap sd ob)" if "(p, l) \<in> set (side_levels sd ob)" for p l
    using assms(2) that by (auto simp: side_struct_def image_iff intro: bexI [of _ "(p, l)"])
  have "heap_prop (side_Less sd) (prices (side_heap sd ob', bLevels ob')) (length (side_heap sd ob))"
    using assms(2) heap_prop_cong [OF eq] by (auto simp: side_struct_def)
  moreover have "lIndex (bLevels ob' (side_heap sd ob ! i)) = lIndex (bLevels ob (side_heap sd ob ! i))"
    if "i < length (side_heap sd ob)" for i
    using assms(1) nth_mem [OF that] unfolding same_index_def by blast
  then have "idx_ok (side_heap sd ob', bLevels ob')"
    using assms unfolding side_struct_def idx_ok_def same_index_def by simp
  moreover have "\<forall>(p, l) \<in> set (side_levels sd ob'). lPrice (bLevels ob' l) = p \<and> l < bNextLevel ob'"
    using assms mem by (fastforce simp: side_struct_def same_index_def)
  ultimately show ?thesis
    using assms by (simp add: side_struct_def same_index_def)
qed

lemma book_struct_same:
  assumes "\<And>sd. same_index ob ob' sd" "book_struct ob"
  shows "book_struct ob'"
proof -
  have "side_heap sd ob' = side_heap sd ob" for sd using assms(1) by (simp add: same_index_def)
  from this [of BidSide] this [of AskSide] show ?thesis
    using side_struct_same [OF assms(1)] book_struct_side [OF assms(2)] assms(2)
    by (simp add: book_struct_def)
qed

lemma book_struct_upd_level [simp]:
  assumes "book_struct ob" "\<And>v. lPrice (f v) = lPrice v" "\<And>v. lIndex (f v) = lIndex v"
  shows "book_struct (upd_level l f ob)"
  by (rule book_struct_same [OF _ assms(1)]) (simp add: same_index_def assms)

lemma book_struct_fields [simp]:
  "book_struct ob \<Longrightarrow> book_struct (ob\<lparr>bElems := E\<rparr>)"
  "book_struct ob \<Longrightarrow> book_struct (ob\<lparr>bIndex := I\<rparr>)"
  "book_struct ob \<Longrightarrow> book_struct (ob\<lparr>bNextElem := n\<rparr>)"
  by (rule book_struct_same; simp add: same_index_def)+

section \<open>Levels by side and price\<close>

definition queue_at :: "book_side \<Rightarrow> OrderBook \<Rightarrow> PriceTicks \<Rightarrow> eref list" where
  "queue_at sd ob p =
     (case map_of (side_levels sd ob) p of None \<Rightarrow> [] | Some l \<Rightarrow> lQueue (bLevels ob l))"

definition total_at :: "book_side \<Rightarrow> OrderBook \<Rightarrow> PriceTicks \<Rightarrow> QuantityLots" where
  "total_at sd ob p =
     (case map_of (side_levels sd ob) p of None \<Rightarrow> 0 | Some l \<Rightarrow> lTotalAmount (bLevels ob l))"

definition prices_of :: "book_side \<Rightarrow> OrderBook \<Rightarrow> PriceTicks list" where
  "prices_of sd ob = map fst (side_levels sd ob)"

lemma level_unique:
  assumes "book_struct ob" "map_of (side_levels sd ob) p = Some l"
    "map_of (side_levels sd' ob) p' = Some l"
  shows "sd' = sd \<and> p' = p"
proof -
  have heap: "l \<in> set (side_heap s ob)" "lPrice (bLevels ob l) = q"
    if "map_of (side_levels s ob) q = Some l" for s q
    using book_struct_side [OF assms(1), of s] map_of_SomeD [OF that]
    by (auto simp: side_struct_def image_iff intro: bexI [of _ "(q, l)"])
  show ?thesis
    using heap [OF assms(2)] heap [OF assms(3)] book_struct_disjoint [OF assms(1)] by auto
qed

lemma map_of_prices_of: "map_of (side_levels sd ob) p = None \<longleftrightarrow> p \<notin> set (prices_of sd ob)"
  by (simp add: prices_of_def map_of_eq_None_iff)

lemma queue_at_upd_level:
  assumes "book_struct ob" "map_of (side_levels sd ob) p = Some l"
  shows "queue_at sd' (upd_level l f ob) p' =
    (if sd' = sd \<and> p' = p then lQueue (f (bLevels ob l)) else queue_at sd' ob p')"
proof (cases "map_of (side_levels sd' ob) p'")
  case None
  then show ?thesis using assms(2) by (auto simp: queue_at_def)
next
  case (Some l')
  have "l' = l \<longleftrightarrow> sd' = sd \<and> p' = p"
    using level_unique [OF assms, of sd' p'] Some assms(2) by auto
  then show ?thesis using Some by (simp add: queue_at_def)
qed

lemma total_at_upd_level:
  assumes "book_struct ob" "map_of (side_levels sd ob) p = Some l"
  shows "total_at sd' (upd_level l f ob) p' =
    (if sd' = sd \<and> p' = p then lTotalAmount (f (bLevels ob l)) else total_at sd' ob p')"
proof (cases "map_of (side_levels sd' ob) p'")
  case None
  then show ?thesis using assms(2) by (auto simp: total_at_def)
next
  case (Some l')
  have "l' = l \<longleftrightarrow> sd' = sd \<and> p' = p"
    using level_unique [OF assms, of sd' p'] Some assms(2) by auto
  then show ?thesis using Some by (simp add: total_at_def)
qed

lemma at_fields [simp]:
  "queue_at sd (ob\<lparr>bElems := E\<rparr>) p = queue_at sd ob p" "total_at sd (ob\<lparr>bElems := E\<rparr>) p = total_at sd ob p"
  "queue_at sd (ob\<lparr>bIndex := I\<rparr>) p = queue_at sd ob p" "total_at sd (ob\<lparr>bIndex := I\<rparr>) p = total_at sd ob p"
  "queue_at sd (ob\<lparr>bNextElem := n\<rparr>) p = queue_at sd ob p" "total_at sd (ob\<lparr>bNextElem := n\<rparr>) p = total_at sd ob p"
  "prices_of sd (ob\<lparr>bElems := E\<rparr>) = prices_of sd ob" "prices_of sd (ob\<lparr>bIndex := I\<rparr>) = prices_of sd ob"
  "prices_of sd (ob\<lparr>bNextElem := n\<rparr>) = prices_of sd ob" "prices_of sd (upd_level l f ob) = prices_of sd ob"
  by (simp_all add: queue_at_def total_at_def prices_of_def split: option.splits)

section \<open>Creating and dropping a level\<close>

lemma side_heap_order: "heap_order (side_Less sd)"
  by (cases sd) (simp_all add: max_heap.heap_order_axioms min_heap.heap_order_axioms)

text \<open>Everything outside the structure, which both operations leave alone.\<close>

definition same_rest :: "OrderBook \<Rightarrow> OrderBook \<Rightarrow> bool" where
  "same_rest ob ob' \<longleftrightarrow> bElems ob' = bElems ob \<and> bIndex ob' = bIndex ob \<and>
     bNextElem ob' = bNextElem ob \<and> bTicker ob' = bTicker ob \<and> bPrecision ob' = bPrecision ob"

lemma side_struct_parts:
  assumes "side_struct sd ob"
  shows "idx_ok (side_heap sd ob, bLevels ob)"
    "heap_prop (side_Less sd) (prices (side_heap sd ob, bLevels ob)) (length (side_heap sd ob))"
    "distinct (map fst (side_levels sd ob))" "set (side_heap sd ob) = snd ` set (side_levels sd ob)"
    "\<And>p l. (p, l) \<in> set (side_levels sd ob) \<Longrightarrow> lPrice (bLevels ob l) = p \<and> l < bNextLevel ob"
    "\<And>l. l \<in> set (side_heap sd ob) \<Longrightarrow> l < bNextLevel ob"
  using assms by (auto simp: side_struct_def)

lemma other_side_frame:
  assumes "book_struct ob" "sd' \<noteq> sd" "side_levels sd' ob' = side_levels sd' ob"
    "side_heap sd' ob' = side_heap sd' ob" "bNextLevel ob \<le> bNextLevel ob'"
    "\<And>l. l \<notin> set (side_heap sd ob) \<Longrightarrow> l < bNextLevel ob \<Longrightarrow> bLevels ob' l = bLevels ob l"
  shows "side_struct sd' ob'"
proof (rule side_struct_same)
  show "side_struct sd' ob" by (rule book_struct_side [OF assms(1)])
  show "same_index ob ob' sd'"
    using assms(2-5) assms(6) book_struct_disjoint [OF assms(1)]
      side_struct_parts(6) [OF book_struct_side [OF assms(1)]]
    unfolding same_index_def by metis
qed

lemma ensure_level_new:
  assumes "book_struct ob" "map_of (side_levels sd ob) p = None"
    "ensure_level sd p ob = (l, ob')"
  shows "l = bNextLevel ob" "side_struct sd ob'" "same_rest ob ob'"
    "side_levels sd' ob' = (if sd' = sd then side_levels sd ob @ [(p, l)] else side_levels sd' ob)"
    "set (side_heap sd' ob') = (if sd' = sd then insert l (set (side_heap sd ob)) else set (side_heap sd' ob))"
    "sd' \<noteq> sd \<Longrightarrow> side_heap sd' ob' = side_heap sd' ob"
    "bNextLevel ob' = bNextLevel ob + 1"
    "lPrice (bLevels ob' l) = p \<and> lQueue (bLevels ob' l) = [] \<and> lTotalAmount (bLevels ob' l) = 0"
    "x \<noteq> l \<Longrightarrow> lQueue (bLevels ob' x) = lQueue (bLevels ob x) \<and>
       lTotalAmount (bLevels ob' x) = lTotalAmount (bLevels ob x)"
    "x \<noteq> l \<Longrightarrow> x \<notin> set (side_heap sd ob) \<Longrightarrow> bLevels ob' x = bLevels ob x"
proof -
  note S = side_struct_parts [OF book_struct_side [OF assms(1), of sd]]
  let ?l = "bNextLevel ob"
  let ?m = "(bLevels ob)(?l := \<lparr>lPrice = p, lQueue = [], lIndex = 0, lTotalAmount = 0\<rparr>)"
  define s where "s = (side_heap sd ob, ?m)"
  define s' where "s' = heap_Push (side_Less sd) s ?l"
  have fresh: "?l \<notin> set (side_heap sd ob)" using S(6) by blast
  have pk: "p \<notin> set (map fst (side_levels sd ob))" using assms(2) by (simp add: map_of_eq_None_iff)
  have E: "l = ?l" "ob' = set_side_heap sd s' (set_side_levels sd (side_levels sd ob @ [(p, ?l)])
      (upd_level ?l (\<lambda>_. \<lparr>lPrice = p, lQueue = [], lIndex = 0, lTotalAmount = 0\<rparr>)
        (ob\<lparr>bNextLevel := ?l + 1\<rparr>)))"
    using assms(2,3) pk
    by (auto simp: ensure_level_def Let_def s_def s'_def AList_update_new)
  have ne: "h \<noteq> ?l" if "h \<in> set (side_heap sd ob)" for h using fresh that by auto
  have pr: "prices s k = prices (side_heap sd ob, bLevels ob) k" if "k < length (side_heap sd ob)" for k
    using ne [OF nth_mem [OF that]] by (simp add: s_def prices_def)
  have "heap_prop (side_Less sd) (prices s) (length (side_heap sd ob))"
    by (rule iffD2 [OF heap_prop_cong S(2)]) (rule pr)
  then have "heap_prop (side_Less sd) (prices s) (length (fst s))" by (simp add: s_def)
  moreover have "idx_ok s"
    using S(1) ne [OF nth_mem] by (auto simp: s_def idx_ok_def)
  moreover have "?l \<notin> set (fst s)" using fresh by (simp add: s_def)
  ultimately have P: "mset (fst s') = add_mset ?l (mset (fst s))" "idx_ok s'"
    "heap_prop (side_Less sd) (prices s') (length (fst s'))"
    "frame_index (insert ?l (set (fst s))) (snd s) (snd s')"
    using heap_order.heap_Push_correct [OF side_heap_order, of s sd ?l] unfolding s'_def by auto
  have set: "set (fst s') = insert ?l (set (side_heap sd ob))"
    using P(1) by (metis fst_conv s_def set_mset_add_mset_insert set_mset_mset)
  have fr: "lPrice (snd s' x) = lPrice (?m x)" "lQueue (snd s' x) = lQueue (?m x)"
    "lTotalAmount (snd s' x) = lTotalAmount (?m x)"
    "x \<noteq> ?l \<Longrightarrow> x \<notin> set (side_heap sd ob) \<Longrightarrow> snd s' x = ?m x" for x
    using P(4) by (auto simp: frame_index_def s_def)
  show "l = bNextLevel ob" by (rule E)
  have F: "side_levels sd ob' = side_levels sd ob @ [(p, ?l)]" "side_heap sd ob' = fst s'"
    "bLevels ob' = snd s'" "bNextLevel ob' = ?l + 1"
    by (simp_all add: E(2))
  have "lPrice (snd s' x) = q \<and> x < ?l + 1" if "(q, x) \<in> set (side_levels sd ob @ [(p, ?l)])" for q x
  proof (cases "(q, x) \<in> set (side_levels sd ob)")
    case True
    then show ?thesis using S(5) [OF True] fr(1) [of x] by simp
  next
    case False
    then show ?thesis using that fr(1) [of x] by simp
  qed
  then have "\<forall>(q, x) \<in> set (side_levels sd ob @ [(p, ?l)]). lPrice (snd s' x) = q \<and> x < ?l + 1"
    by blast
  moreover have "set (fst s') = snd ` set (side_levels sd ob @ [(p, ?l)])" using set S(4) by simp
  moreover have "distinct (map fst (side_levels sd ob @ [(p, ?l)]))" using S(3) pk by simp
  ultimately show "side_struct sd ob'"
    unfolding side_struct_def F using P(2,3) by simp
  show "same_rest ob ob'" by (simp add: same_rest_def E)
  show "side_levels sd' ob' = (if sd' = sd then side_levels sd ob @ [(p, l)] else side_levels sd' ob)"
    by (simp add: E)
  show "set (side_heap sd' ob') = (if sd' = sd then insert l (set (side_heap sd ob)) else set (side_heap sd' ob))"
    using set by (simp add: E)
  show "sd' \<noteq> sd \<Longrightarrow> side_heap sd' ob' = side_heap sd' ob" by (simp add: E)
  show "bNextLevel ob' = bNextLevel ob + 1" by (simp add: E)
  show "lPrice (bLevels ob' l) = p \<and> lQueue (bLevels ob' l) = [] \<and> lTotalAmount (bLevels ob' l) = 0"
    by (simp add: E fr)
  show "x \<noteq> l \<Longrightarrow> lQueue (bLevels ob' x) = lQueue (bLevels ob x) \<and>
       lTotalAmount (bLevels ob' x) = lTotalAmount (bLevels ob x)"
    by (simp add: E fr)
  show "x \<noteq> l \<Longrightarrow> x \<notin> set (side_heap sd ob) \<Longrightarrow> bLevels ob' x = bLevels ob x"
    by (simp add: E fr)
qed

text \<open>The level of a price that has one, or a new empty level: no queue or total changes.\<close>

lemma ensure_level_correct:
  assumes "book_struct ob" "ensure_level sd p ob = (l, ob')"
  shows "book_struct ob'" "same_rest ob ob'" "map_of (side_levels sd ob') p = Some l"
    "queue_at sd' ob' q = queue_at sd' ob q" "total_at sd' ob' q = total_at sd' ob q"
    "prices_of sd' ob' = (if sd' = sd \<and> p \<notin> set (prices_of sd ob) then prices_of sd ob @ [p]
                          else prices_of sd' ob)"
proof -
  have "book_struct ob' \<and> same_rest ob ob' \<and> map_of (side_levels sd ob') p = Some l \<and>
    queue_at sd' ob' q = queue_at sd' ob q \<and> total_at sd' ob' q = total_at sd' ob q \<and>
    prices_of sd' ob' = (if sd' = sd \<and> p \<notin> set (prices_of sd ob) then prices_of sd ob @ [p]
                          else prices_of sd' ob)"
  proof (cases "map_of (side_levels sd ob) p")
    case (Some l')
    then have "ob' = ob" "l' = l" using assms(2) by (auto simp: ensure_level_def)
    moreover have "p \<in> set (prices_of sd ob)" using Some map_of_prices_of [of sd ob p] by auto
    ultimately show ?thesis using assms(1) Some by (simp add: same_rest_def)
  next
    case None
    note N = ensure_level_new [OF assms(1) None assms(2)]
    have fresh: "l \<notin> set (side_heap s ob)" for s
      using side_struct_parts(6) [OF book_struct_side [OF assms(1)]] N(1) by blast
    have "side_struct s ob'" for s
    proof (cases "s = sd")
      case False
      then show ?thesis
        by (rule other_side_frame [OF assms(1)]) (use False N in auto)
    qed (simp add: N(2))
    moreover have "False" if "x \<in> set (side_heap BidSide ob')" "x \<in> set (side_heap AskSide ob')" for x
      using that fresh [of BidSide] fresh [of AskSide] book_struct_disjoint [OF assms(1), of x BidSide AskSide]
      unfolding N(5) by (auto split: if_splits)
    ultimately have "book_struct ob'" by (rule book_structI)
    moreover have ne: "l' \<noteq> l" if "map_of (side_levels s ob) r = Some l'" for s r l'
      using side_struct_parts(5) [OF book_struct_side [OF assms(1)] map_of_SomeD [OF that]] N(1) by auto
    have mo: "map_of (side_levels s ob') r = (if s = sd \<and> r = p then Some l else map_of (side_levels s ob) r)"
      for s r using None by (auto simp: N(4) map_add_def split: option.splits)
    have "queue_at sd' ob' q = queue_at sd' ob q" "total_at sd' ob' q = total_at sd' ob q"
      using None N(8) N(9) ne [of sd' q]
      by (auto simp: queue_at_def total_at_def mo split: option.splits)
    moreover have "map_of (side_levels sd ob') p = Some l" using mo by simp
    ultimately show ?thesis
      using N(3) None map_of_prices_of [of sd ob p] by (simp add: prices_of_def N(4))
  qed
  then show "book_struct ob'" "same_rest ob ob'" "map_of (side_levels sd ob') p = Some l"
    "queue_at sd' ob' q = queue_at sd' ob q" "total_at sd' ob' q = total_at sd' ob q"
    "prices_of sd' ob' = (if sd' = sd \<and> p \<notin> set (prices_of sd ob) then prices_of sd ob @ [p]
                          else prices_of sd' ob)" by blast+
qed

text \<open>Dropping the level of a price, whose queue is empty.\<close>

lemma level_in_heap:
  assumes "side_struct sd ob" "map_of (side_levels sd ob) p = Some l"
  shows "l \<in> set (side_heap sd ob)" "lPrice (bLevels ob l) = p"
    "0 \<le> lIndex (bLevels ob l)" "nat (lIndex (bLevels ob l)) < length (side_heap sd ob)"
    "side_heap sd ob ! nat (lIndex (bLevels ob l)) = l"
proof -
  note S = side_struct_parts [OF assms(1)]
  show l: "l \<in> set (side_heap sd ob)" and "lPrice (bLevels ob l) = p"
    using map_of_SomeD [OF assms(2)] S(4,5) by force+
  obtain i where i: "i < length (side_heap sd ob)" "side_heap sd ob ! i = l"
    using l by (auto simp: in_set_conv_nth)
  then have "lIndex (bLevels ob l) = int i" using S(1) by (auto simp: idx_ok_def)
  then show "0 \<le> lIndex (bLevels ob l)" "nat (lIndex (bLevels ob l)) < length (side_heap sd ob)"
    "side_heap sd ob ! nat (lIndex (bLevels ob l)) = l"
    using i by simp_all
qed

lemma dropPriceLevel_eq:
  assumes "book_struct ob" "map_of (side_levels sd ob) p = Some l"
  shows "dropPriceLevel ob sd l = set_side_levels sd (AList.delete p (side_levels sd ob))
    (set_side_heap sd (heap_Remove (side_Less sd) (side_heap sd ob, bLevels ob)
       (nat (lIndex (bLevels ob l)))) ob)"
proof -
  note L = level_in_heap [OF book_struct_side [OF assms(1)] assms(2)]
  let ?s = "(side_heap sd ob, bLevels ob)"
  have "lPrice (snd (heap_Remove (side_Less sd) ?s (nat (lIndex (bLevels ob l)))) l) = p"
    using heap_Remove_subset [of _ ?s "side_Less sd"] L(2,4) by (auto simp: frame_index_def)
  then show ?thesis
    using L(3,4) by (simp add: dropPriceLevel_def Let_def nat_less_iff)
qed

lemma dropPriceLevel_struct:
  assumes "book_struct ob" "map_of (side_levels sd ob) p = Some l"
  shows "side_struct sd (dropPriceLevel ob sd l)"
    "set (side_heap sd (dropPriceLevel ob sd l)) = set (side_heap sd ob) - {l}"
    "frame_index (set (side_heap sd ob)) (bLevels ob) (bLevels (dropPriceLevel ob sd l))"
proof -
  note S = side_struct_parts [OF book_struct_side [OF assms(1), of sd]]
  note L = level_in_heap [OF book_struct_side [OF assms(1)] assms(2)]
  let ?s = "(side_heap sd ob, bLevels ob)"
  define s' where "s' = heap_Remove (side_Less sd) ?s (nat (lIndex (bLevels ob l)))"
  have F: "side_levels sd (dropPriceLevel ob sd l) = AList.delete p (side_levels sd ob)"
    "side_heap sd (dropPriceLevel ob sd l) = fst s'" "bLevels (dropPriceLevel ob sd l) = snd s'"
    "bNextLevel (dropPriceLevel ob sd l) = bNextLevel ob"
    by (simp_all add: dropPriceLevel_eq [OF assms] s'_def)
  have "mset (fst s') = mset (side_heap sd ob) - {#l#} \<and> idx_ok s' \<and>
      heap_prop (side_Less sd) (prices s') (length (fst s')) \<and>
      frame_index (set (side_heap sd ob)) (bLevels ob) (snd s')"
    using heap_order.heap_Remove_correct [OF side_heap_order, of ?s sd] S(1,2) L(4,5)
    by (simp add: s'_def)
  then have P: "mset (fst s') = mset (side_heap sd ob) - {#l#}" "idx_ok s'"
    "heap_prop (side_Less sd) (prices s') (length (fst s'))"
    "frame_index (set (side_heap sd ob)) (bLevels ob) (snd s')" by blast+
  have set: "set (fst s') = set (side_heap sd ob) - {l}"
  proof -
    have "mset (fst s') = mset (remove1 l (side_heap sd ob))" using P(1) by simp
    then have "set (fst s') = set (remove1 l (side_heap sd ob))" by (rule mset_eq_setD)
    then show ?thesis using S(1) by (simp add: idx_ok_def set_remove1_eq)
  qed
  have del: "set (AList.delete p (side_levels sd ob)) = {x \<in> set (side_levels sd ob). fst x \<noteq> p}"
    by (rule set_AList_delete [OF S(3)])
  have price: "lPrice (snd s' x) = lPrice (bLevels ob x)" for x
    using P(4) by (simp add: frame_index_def)
  have "\<forall>(q, x) \<in> set (AList.delete p (side_levels sd ob)). lPrice (snd s' x) = q \<and> x < bNextLevel ob"
    unfolding del price using S(5) by blast
  moreover have "set (fst s') = snd ` set (AList.delete p (side_levels sd ob))"
  proof -
    have "x = l \<longleftrightarrow> q = p" if "(q, x) \<in> set (side_levels sd ob)" for q x
    proof
      assume "x = l"
      then show "q = p" using S(5) [OF that] L(2) by simp
    next
      assume "q = p"
      then show "x = l" using map_of_is_SomeI [OF S(3) that] assms(2) by simp
    qed
    then show ?thesis unfolding set del S(4) by force
  qed
  moreover have "distinct (map fst (AList.delete p (side_levels sd ob)))"
    using S(3) by (rule distinct_delete)
  ultimately show "side_struct sd (dropPriceLevel ob sd l)"
    unfolding side_struct_def F using P(2,3) by simp
  show "set (side_heap sd (dropPriceLevel ob sd l)) = set (side_heap sd ob) - {l}"
    unfolding F by (rule set)
  show "frame_index (set (side_heap sd ob)) (bLevels ob) (bLevels (dropPriceLevel ob sd l))"
    unfolding F by (rule P(4))
qed

lemma dropPriceLevel_correct:
  assumes "book_struct ob" "map_of (side_levels sd ob) p = Some l" "lQueue (bLevels ob l) = []"
  shows "book_struct (dropPriceLevel ob sd l)" "same_rest ob (dropPriceLevel ob sd l)"
    "queue_at sd' (dropPriceLevel ob sd l) q = queue_at sd' ob q"
    "total_at sd' (dropPriceLevel ob sd l) q = (if sd' = sd \<and> q = p then 0 else total_at sd' ob q)"
    "prices_of sd' (dropPriceLevel ob sd l) =
       (if sd' = sd then filter (\<lambda>r. r \<noteq> p) (prices_of sd ob) else prices_of sd' ob)"
proof -
  let ?ob = "dropPriceLevel ob sd l"
  note D = dropPriceLevel_struct [OF assms(1,2)]
  note eq = dropPriceLevel_eq [OF assms(1,2)]
  have other: "s \<noteq> sd \<Longrightarrow> side_heap s ?ob = side_heap s ob" for s by (simp add: eq)
  show "book_struct ?ob"
  proof (rule book_structI)
    show "side_struct s ?ob" for s
    proof (cases "s = sd")
      case False
      show ?thesis
        by (rule other_side_frame [OF assms(1) False])
          (use False D(3) in \<open>simp_all add: eq frame_index_def\<close>)
    qed (simp add: D(1))
    have sub: "set (side_heap s ?ob) \<subseteq> set (side_heap s ob)" for s
      using D(2) other by (cases "s = sd") auto
    show False if "x \<in> set (side_heap BidSide ?ob)" "x \<in> set (side_heap AskSide ?ob)" for x
      using that sub [of BidSide] sub [of AskSide]
        book_struct_disjoint [OF assms(1), of x BidSide AskSide] by blast
  qed
  show "same_rest ob ?ob" by (simp add: same_rest_def eq)
  have mo: "map_of (side_levels s ?ob) r =
      (if s = sd \<and> r = p then None else map_of (side_levels s ob) r)" for s r
    by (simp add: eq)
  have fr: "lQueue (bLevels ?ob x) = lQueue (bLevels ob x)"
    "lTotalAmount (bLevels ?ob x) = lTotalAmount (bLevels ob x)" for x
    using D(3) by (simp_all add: frame_index_def)
  show "queue_at sd' ?ob q = queue_at sd' ob q"
    using assms(2,3) by (auto simp: queue_at_def mo fr split: option.splits)
  show "total_at sd' ?ob q = (if sd' = sd \<and> q = p then 0 else total_at sd' ob q)"
    by (auto simp: total_at_def mo fr split: option.splits)
  show "prices_of sd' ?ob =
      (if sd' = sd then filter (\<lambda>r. r \<noteq> p) (prices_of sd ob) else prices_of sd' ob)"
    by (simp add: prices_of_def eq AList.delete_eq filter_map o_def case_prod_unfold eq_commute [of p])
qed

section \<open>Contents\<close>

definition elem_order :: "OrderBook \<Rightarrow> eref \<Rightarrow> BookOrder" where
  "elem_order ob e = the (bElems ob e)"

text \<open>A resting order: of this side and price, with a positive amount and an identity.\<close>

definition order_at :: "book_side \<Rightarrow> PriceTicks \<Rightarrow> BookOrder \<Rightarrow> bool" where
  "order_at sd p order \<longleftrightarrow> side (oPosition order) = Some sd \<and> oPrice order = p \<and>
     0 < oAmount order \<and> int64 (oAmount order) \<and> oOrderID order \<noteq> []"

definition elem_at :: "OrderBook \<Rightarrow> book_side \<Rightarrow> PriceTicks \<Rightarrow> eref \<Rightarrow> bool" where
  "elem_at ob sd p e \<longleftrightarrow> e < bNextElem ob \<and> bElems ob e = Some (elem_order ob e) \<and>
     order_at sd p (elem_order ob e) \<and> bIndex ob (oOrderID (elem_order ob e)) = Some e"

definition queue_sum :: "OrderBook \<Rightarrow> eref list \<Rightarrow> int" where
  "queue_sum ob q = (\<Sum>e\<leftarrow>q. oAmount (elem_order ob e))"

definition level_ok :: "OrderBook \<Rightarrow> book_side \<Rightarrow> PriceTicks \<Rightarrow> bool" where
  "level_ok ob sd p \<longleftrightarrow>
     distinct (queue_at sd ob p) \<and> (p \<in> set (prices_of sd ob) \<longrightarrow> queue_at sd ob p \<noteq> []) \<and>
     (\<forall>e \<in> set (queue_at sd ob p). elem_at ob sd p e) \<and>
     total_at sd ob p = wrap64 (queue_sum ob (queue_at sd ob p))"

definition index_ok :: "OrderBook \<Rightarrow> string \<Rightarrow> eref \<Rightarrow> bool" where
  "index_ok ob orderID e \<longleftrightarrow> bElems ob e = Some (elem_order ob e) \<and>
     oOrderID (elem_order ob e) = orderID \<and>
     (\<exists>sd. side (oPosition (elem_order ob e)) = Some sd \<and>
        e \<in> set (queue_at sd ob (oPrice (elem_order ob e))))"

definition book_contents :: "OrderBook \<Rightarrow> bool" where
  "book_contents ob \<longleftrightarrow> (\<forall>sd p. level_ok ob sd p) \<and>
     (\<forall>orderID e. bIndex ob orderID = Some e \<longrightarrow> index_ok ob orderID e)"

definition book_ok :: "OrderBook \<Rightarrow> bool" where
  "book_ok ob \<longleftrightarrow> book_struct ob \<and> book_contents ob"

lemma book_contents_level: "book_contents ob \<Longrightarrow> level_ok ob sd p"
  by (simp add: book_contents_def)

lemma book_contents_elem:
  assumes "book_contents ob" "e \<in> set (queue_at sd ob p)"
  shows "e < bNextElem ob" "bElems ob e = Some (elem_order ob e)" "order_at sd p (elem_order ob e)"
    "bIndex ob (oOrderID (elem_order ob e)) = Some e"
  using book_contents_level [OF assms(1), of sd p] assms(2) by (auto simp: level_ok_def elem_at_def)

lemma elem_place_unique:
  assumes "book_contents ob" "e \<in> set (queue_at sd ob p)" "e \<in> set (queue_at sd' ob p')"
  shows "sd' = sd" "p' = p"
  using book_contents_elem(3) [OF assms(1,2)] book_contents_elem(3) [OF assms(1,3)]
  by (auto simp: order_at_def)

lemma queue_prices: "queue_at sd ob p \<noteq> [] \<Longrightarrow> p \<in> set (prices_of sd ob)"
  using map_of_prices_of [of sd ob p] by (auto simp: queue_at_def)

text \<open>The empty book.\<close>

lemma book_ok_new: "book_ok (NewOrderBookWithPrecision ticker precision)"
proof -
  have "heap_Init lt ([], m) = ([], m)" for lt m by (simp add: heap_Init_def)
  then have N: "NewOrderBookWithPrecision ticker precision =
      \<lparr>bBids = [], bAsks = [], bBidLevels = [], bAskLevels = [], bIndex = Map.empty,
       bTicker = ticker, bPrecision = WithDefaults precision, bLevels = (\<lambda>_. empty_level),
       bElems = (\<lambda>_. None), bNextLevel = 0, bNextElem = 0\<rparr>"
    by (simp add: NewOrderBookWithPrecision_def Let_def)
  have E: "side_levels sd (NewOrderBookWithPrecision ticker precision) = []"
    "side_heap sd (NewOrderBookWithPrecision ticker precision) = []" for sd
    by (cases sd; simp add: N)+
  have "side_struct sd (NewOrderBookWithPrecision ticker precision)" for sd
    by (simp add: side_struct_def E idx_ok_def heap_prop_def)
  then have "book_struct (NewOrderBookWithPrecision ticker precision)"
    by (rule book_structI) (use E in \<open>simp del: side_heap.simps\<close>)
  moreover have "book_contents (NewOrderBookWithPrecision ticker precision)"
    by (simp add: book_contents_def level_ok_def queue_at_def total_at_def prices_of_def E queue_sum_def)
      (simp add: N)
  ultimately show ?thesis by (simp add: book_ok_def)
qed

text \<open>
  The three changes of contents the operations make: a fresh order at the end of a queue, an
  order taken out of its queue, and an order changed in place.
\<close>

lemma queue_sum_cong:
  "(\<And>e. e \<in> set q \<Longrightarrow> bElems ob' e = bElems ob e) \<Longrightarrow> queue_sum ob' q = queue_sum ob q"
  by (simp add: queue_sum_def elem_order_def cong: map_cong)

lemma contents_append:
  assumes ob: "book_contents ob" and "order_at sd p order" "bIndex ob (oOrderID order) = None"
    and q: "\<And>s r. queue_at s ob' r =
      (if s = sd \<and> r = p then queue_at sd ob p @ [bNextElem ob] else queue_at s ob r)"
    and t: "\<And>s r. total_at s ob' r =
      (if s = sd \<and> r = p then wrap64 (total_at sd ob p + oAmount order) else total_at s ob r)"
    and p: "\<And>s r. r \<in> set (prices_of s ob') \<Longrightarrow> r \<in> set (prices_of s ob) \<or> s = sd \<and> r = p"
    and E: "bElems ob' = (bElems ob)(bNextElem ob := Some order)"
    and I: "bIndex ob' = (bIndex ob)(oOrderID order := Some (bNextElem ob))"
    and n: "bNextElem ob' = bNextElem ob + 1"
  shows "book_contents ob'"
  unfolding book_contents_def
proof (intro conjI allI impI)
  let ?n = "bNextElem ob"
  have old: "x \<in> set (queue_at s ob r) \<Longrightarrow> x < ?n" for s r x
    using book_contents_elem(1) [OF ob] by blast
  have eo: "elem_order ob' x = (if x = ?n then order else elem_order ob x)" for x
    by (simp add: elem_order_def E)
  have at: "elem_at ob' s r x" if "x \<in> set (queue_at s ob r)" for s r x
  proof -
    note X = book_contents_elem [OF ob that]
    have "oOrderID (elem_order ob x) \<noteq> oOrderID order" using X(4) assms(3) by auto
    then show ?thesis using X by (simp add: elem_at_def eo n E I)
  qed
  have new: "elem_at ob' sd p ?n" using assms(2) by (simp add: elem_at_def eo n E I)
  fix s r
  have L: "level_ok ob s r" by (rule book_contents_level [OF ob])
  have "queue_sum ob' (queue_at s ob r) = queue_sum ob (queue_at s ob r)"
    by (rule queue_sum_cong) (use old in \<open>auto simp: E\<close>)
  moreover have "queue_sum ob' (x @ [?n]) = queue_sum ob' x + oAmount order" for x
    by (simp add: queue_sum_def eo)
  ultimately have "wrap64 (queue_sum ob' (queue_at s ob' r)) = total_at s ob' r"
    using L by (cases "s = sd \<and> r = p") (auto simp: level_ok_def q t wrap_simps)
  moreover have "distinct (queue_at s ob' r)" using L old [of ?n s r] by (auto simp: level_ok_def q)
  ultimately show "level_ok ob' s r"
    using L at new p [of r s] unfolding level_ok_def q by (auto split: if_splits)
next
  fix orderID x assume "bIndex ob' orderID = Some x"
  then consider "orderID = oOrderID order" "x = bNextElem ob"
    | "orderID \<noteq> oOrderID order" "bIndex ob orderID = Some x"
    by (auto simp: I split: if_splits)
  then show "index_ok ob' orderID x"
  proof cases
    case 1
    then show ?thesis using assms(2) by (simp add: index_ok_def elem_order_def E order_at_def q)
  next
    case 2
    then have ix: "index_ok ob orderID x" using ob by (simp add: book_contents_def)
    then have "x \<noteq> bNextElem ob"
      using book_contents_elem(1) [OF ob] by (auto simp: index_ok_def)
    then show ?thesis using ix by (auto simp: index_ok_def elem_order_def E q)
  qed
qed

lemma contents_remove:
  assumes ob: "book_contents ob" and e: "e \<in> set (queue_at sd ob p)"
    and q: "\<And>s r. queue_at s ob' r =
      (if s = sd \<and> r = p then remove1 e (queue_at sd ob p) else queue_at s ob r)"
    and t: "\<And>s r. total_at s ob' r =
      (if s = sd \<and> r = p then wrap64 (total_at sd ob p - oAmount (elem_order ob e)) else total_at s ob r)"
    and p: "\<And>s r. r \<in> set (prices_of s ob') \<Longrightarrow> r \<in> set (prices_of s ob) \<and> queue_at s ob' r \<noteq> []"
    and E: "\<And>x. x \<noteq> e \<Longrightarrow> bElems ob' x = bElems ob x"
    and I: "bIndex ob' = (bIndex ob)(oOrderID (elem_order ob e) := None)"
    and n: "bNextElem ob' = bNextElem ob"
  shows "book_contents ob'"
  unfolding book_contents_def
proof (intro conjI allI impI)
  note ee = book_contents_elem [OF ob e]
  have dist: "distinct (queue_at sd ob p)" using book_contents_level [OF ob] by (simp add: level_ok_def)
  have ne: "x \<noteq> e" if "x \<in> set (queue_at s ob' r)" for s r x
    using that elem_place_unique [OF ob e, of s r] dist by (auto simp: q set_remove1_eq split: if_splits)
  have sub: "x \<in> set (queue_at s ob r)" if "x \<in> set (queue_at s ob' r)" for s r x
    using that by (auto simp: q dest: notin_set_remove1 split: if_splits intro: set_remove1_subset [THEN subsetD])
  have eo: "x \<noteq> e \<Longrightarrow> elem_order ob' x = elem_order ob x" for x by (simp add: elem_order_def E)
  have at: "elem_at ob' s r x" if "x \<in> set (queue_at s ob' r)" for s r x
  proof -
    note X = book_contents_elem [OF ob sub [OF that]]
    have "oOrderID (elem_order ob x) \<noteq> oOrderID (elem_order ob e)"
      using X(4) ee(4) ne [OF that] by auto
    then show ?thesis using X ne [OF that] by (simp add: elem_at_def eo n E I)
  qed
  fix s r
  have L: "level_ok ob s r" by (rule book_contents_level [OF ob])
  have "queue_sum ob' (queue_at s ob' r) = queue_sum ob (queue_at s ob' r)"
    by (rule queue_sum_cong) (use ne E in auto)
  moreover have "queue_sum ob (remove1 e (queue_at sd ob p)) =
      queue_sum ob (queue_at sd ob p) - oAmount (elem_order ob e)"
    using sum_list_remove1 [OF e] by (simp add: queue_sum_def)
  ultimately have "wrap64 (queue_sum ob' (queue_at s ob' r)) = total_at s ob' r"
    using L by (cases "s = sd \<and> r = p") (auto simp: level_ok_def q t wrap_simps)
  moreover have "distinct (queue_at s ob' r)" using L by (auto simp: level_ok_def q)
  ultimately show "level_ok ob' s r"
    using at p [of r s] unfolding level_ok_def by auto
next
  fix orderID x assume "bIndex ob' orderID = Some x"
  then have id: "orderID \<noteq> oOrderID (elem_order ob e)" and "bIndex ob orderID = Some x"
    by (auto simp: I split: if_splits)
  then have ix: "index_ok ob orderID x" using ob by (simp add: book_contents_def)
  then have "x \<noteq> e" using id by (auto simp: index_ok_def)
  then show "index_ok ob' orderID x"
    using ix by (auto simp: index_ok_def elem_order_def E q)
qed

lemma contents_update:
  assumes ob: "book_contents ob" and e: "e \<in> set (queue_at sd ob p)"
    and o': "order_at sd p order" "oOrderID order = oOrderID (elem_order ob e)"
    and q: "\<And>s r. queue_at s ob' r = queue_at s ob r"
    and t: "\<And>s r. total_at s ob' r =
      (if s = sd \<and> r = p
       then wrap64 (total_at sd ob p + (oAmount order - oAmount (elem_order ob e))) else total_at s ob r)"
    and p: "\<And>s r. r \<in> set (prices_of s ob') \<Longrightarrow> r \<in> set (prices_of s ob)"
    and E: "bElems ob' = (bElems ob)(e := Some order)"
    and I: "bIndex ob' = bIndex ob" and n: "bNextElem ob' = bNextElem ob"
  shows "book_contents ob'"
  unfolding book_contents_def
proof (intro conjI allI impI)
  note ee = book_contents_elem [OF ob e]
  have eo: "elem_order ob' x = (if x = e then order else elem_order ob x)" for x
    by (simp add: elem_order_def E)
  have at: "elem_at ob' s r x" if "x \<in> set (queue_at s ob r)" for s r x
  proof (cases "x = e")
    case True
    then have "s = sd" "r = p" using elem_place_unique [OF ob e] that by auto
    then show ?thesis using True o' ee by (simp add: elem_at_def eo n E I)
  next
    case False
    then show ?thesis using book_contents_elem [OF ob that] by (simp add: elem_at_def eo n E I)
  qed
  fix s r
  have L: "level_ok ob s r" by (rule book_contents_level [OF ob])
  have "wrap64 (queue_sum ob' (queue_at s ob r)) = total_at s ob' r"
  proof (cases "s = sd \<and> r = p")
    case True
    have d: "distinct (queue_at sd ob p)" using book_contents_level [OF ob] by (simp add: level_ok_def)
    have "queue_sum ob' (remove1 e (queue_at sd ob p)) = queue_sum ob (remove1 e (queue_at sd ob p))"
      by (rule queue_sum_cong) (use d in \<open>auto simp: E\<close>)
    then have "queue_sum ob' (queue_at sd ob p) =
        queue_sum ob (queue_at sd ob p) + (oAmount order - oAmount (elem_order ob e))"
      using sum_list_remove1 [OF e, of "\<lambda>x. oAmount (elem_order ob' x)"]
        sum_list_remove1 [OF e, of "\<lambda>x. oAmount (elem_order ob x)"]
      by (simp add: queue_sum_def eo)
    then show ?thesis using L True by (auto simp: level_ok_def t wrap_simps)
  next
    case False
    have "e \<notin> set (queue_at s ob r)" using elem_place_unique [OF ob e] False by blast
    then have "queue_sum ob' (queue_at s ob r) = queue_sum ob (queue_at s ob r)"
      by (intro queue_sum_cong) (auto simp: E)
    then show ?thesis using L False by (auto simp: level_ok_def t)
  qed
  then show "level_ok ob' s r"
    using L at p [of r s] unfolding level_ok_def by (auto simp: q)
next
  fix orderID x assume "bIndex ob' orderID = Some x"
  then have ix: "index_ok ob orderID x" using ob by (simp add: book_contents_def I)
  show "index_ok ob' orderID x"
  proof (cases "x = e")
    case True
    have "order_at sd p (elem_order ob e)" using book_contents_elem [OF ob e] by simp
    then show ?thesis using ix True o' e
      by (auto simp: index_ok_def elem_order_def E q order_at_def)
  next
    case False
    then show ?thesis using ix by (auto simp: index_ok_def elem_order_def E q)
  qed
qed

section \<open>Taking an element out of its level\<close>

definition drop_if_empty :: "book_side \<Rightarrow> lref \<Rightarrow> OrderBook \<Rightarrow> OrderBook" where
  "drop_if_empty sd l ob =
     (if Queue_Len (lQueue (bLevels ob l)) = 0 then dropPriceLevel ob sd l else ob)"

lemma shrink_level:
  assumes ob: "book_struct ob" and l: "map_of (side_levels sd ob) p = Some l"
    and f: "\<And>v. lPrice (f v) = lPrice v" "\<And>v. lIndex (f v) = lIndex v"
    and ob': "ob' = drop_if_empty sd l (upd_level l f ob)"
  shows "book_struct ob'" "same_rest ob ob'"
    "queue_at s ob' r = (if s = sd \<and> r = p then lQueue (f (bLevels ob l)) else queue_at s ob r)"
    "total_at s ob' r = (if s = sd \<and> r = p
       then (if lQueue (f (bLevels ob l)) = [] then 0 else lTotalAmount (f (bLevels ob l)))
       else total_at s ob r)"
    "prices_of s ob' = (if s = sd then filter (\<lambda>r. r \<noteq> p \<or> lQueue (f (bLevels ob l)) \<noteq> []) (prices_of sd ob)
                        else prices_of s ob)"
proof -
  let ?u = "upd_level l f ob"
  have u: "book_struct ?u" by (rule book_struct_upd_level [OF ob f])
  have lu: "map_of (side_levels sd ?u) p = Some l" using l by simp
  have rest: "same_rest ob ?u" by (simp add: same_rest_def)
  note Q = queue_at_upd_level [OF ob l, of s f r] and T = total_at_upd_level [OF ob l, of s f r]
  have "book_struct ob' \<and> same_rest ob ob' \<and>
    queue_at s ob' r = (if s = sd \<and> r = p then lQueue (f (bLevels ob l)) else queue_at s ob r) \<and>
    total_at s ob' r = (if s = sd \<and> r = p
       then (if lQueue (f (bLevels ob l)) = [] then 0 else lTotalAmount (f (bLevels ob l)))
       else total_at s ob r) \<and>
    prices_of s ob' = (if s = sd then filter (\<lambda>r. r \<noteq> p \<or> lQueue (f (bLevels ob l)) \<noteq> []) (prices_of sd ob)
                        else prices_of s ob)"
  proof (cases "lQueue (f (bLevels ob l)) = []")
    case True
    then have e: "lQueue (bLevels ?u l) = []" by simp
    note D = dropPriceLevel_correct [OF u lu e]
    have "ob' = dropPriceLevel ?u sd l" using True by (simp add: ob' drop_if_empty_def Queue_Len_def)
    then show ?thesis
      using D(1,2) D(3) [of s r] D(4) [of s r] D(5) [of s] Q T True rest by (auto simp: same_rest_def)
  next
    case False
    then have "ob' = ?u" by (simp add: ob' drop_if_empty_def Queue_Len_def)
    then show ?thesis using u rest Q T False by simp
  qed
  then show "book_struct ob'" "same_rest ob ob'"
    "queue_at s ob' r = (if s = sd \<and> r = p then lQueue (f (bLevels ob l)) else queue_at s ob r)"
    "total_at s ob' r = (if s = sd \<and> r = p
       then (if lQueue (f (bLevels ob l)) = [] then 0 else lTotalAmount (f (bLevels ob l)))
       else total_at s ob r)"
    "prices_of s ob' = (if s = sd then filter (\<lambda>r. r \<noteq> p \<or> lQueue (f (bLevels ob l)) \<noteq> []) (prices_of sd ob)
                        else prices_of s ob)" by blast+
qed

lemma Queue_Remove_remove1: "Queue_Remove q e = remove1 e q"
  by (simp add: Queue_Remove_def remove1_idem)

text \<open>
  Taking the element out with the whole of its order's amount keeps the book correct,
  whatever is written into the element afterwards.
\<close>

lemma detach_element:
  assumes ok: "book_ok ob" and e: "e \<in> set (queue_at sd ob p)"
    and l: "map_of (side_levels sd ob) p = Some l"
    and f: "\<And>v. f v = v\<lparr>lQueue := Queue_Remove (lQueue v) e,
      lTotalAmount := wrap64 (lTotalAmount v - oAmount (elem_order ob e))\<rparr>"
    and ob': "ob' = drop_if_empty sd l (upd_level l f
      (ob\<lparr>bElems := (bElems ob)(e := x), bIndex := (bIndex ob)(oOrderID (elem_order ob e) := None)\<rparr>))"
  shows "book_ok ob'" "bElems ob' = (bElems ob)(e := x)" "bTicker ob' = bTicker ob"
    "bPrecision ob' = bPrecision ob" "bIndex ob' = (bIndex ob)(oOrderID (elem_order ob e) := None)"
    "bNextElem ob' = bNextElem ob"
    "queue_at s ob' r = (if s = sd \<and> r = p then remove1 e (queue_at sd ob p) else queue_at s ob r)"
    "prices_of s ob' = (if s = sd then filter (\<lambda>r. r \<noteq> p \<or> queue_at sd ob' p \<noteq> []) (prices_of sd ob)
                        else prices_of s ob)"
proof -
  let ?b = "ob\<lparr>bElems := (bElems ob)(e := x), bIndex := (bIndex ob)(oOrderID (elem_order ob e) := None)\<rparr>"
  have S: "book_struct ob" and C: "book_contents ob" using ok by (simp_all add: book_ok_def)
  have b: "book_struct ?b" "map_of (side_levels sd ?b) p = Some l" using S l by simp_all
  have fl: "lPrice (f v) = lPrice v" "lIndex (f v) = lIndex v" for v by (simp_all add: f)
  note K = shrink_level [OF b fl ob']
  have lq: "lQueue (bLevels ob l) = queue_at sd ob p" "lTotalAmount (bLevels ob l) = total_at sd ob p"
    using l by (simp_all add: queue_at_def total_at_def)
  have q: "queue_at s ob' r = (if s = sd \<and> r = p then remove1 e (queue_at sd ob p) else queue_at s ob r)"
    for s r using K(3) [of s r] by (simp add: f lq Queue_Remove_remove1)
  have rest: "bElems ob' = (bElems ob)(e := x)" "bTicker ob' = bTicker ob"
    "bPrecision ob' = bPrecision ob" "bIndex ob' = (bIndex ob)(oOrderID (elem_order ob e) := None)"
    "bNextElem ob' = bNextElem ob"
    using K(2) by (simp_all add: same_rest_def)
  have p: "prices_of s ob' = (if s = sd then filter (\<lambda>r. r \<noteq> p \<or> queue_at sd ob' p \<noteq> []) (prices_of sd ob)
                        else prices_of s ob)" for s
    using K(5) [of s] by (simp add: q f lq Queue_Remove_remove1)
  have t: "total_at s ob' r = (if s = sd \<and> r = p
      then wrap64 (total_at sd ob p - oAmount (elem_order ob e)) else total_at s ob r)" for s r
  proof (cases "s = sd \<and> r = p \<and> remove1 e (queue_at sd ob p) = []")
    case True
    then have "queue_at sd ob p = [e]" using e by (cases "queue_at sd ob p") (auto split: if_splits)
    then have "total_at sd ob p = wrap64 (oAmount (elem_order ob e))"
      using book_contents_level [OF C, of sd p] by (simp add: level_ok_def queue_sum_def)
    then show ?thesis using True K(4) [of s r] by (simp add: f lq Queue_Remove_remove1 wrap_simps)
  next
    case False
    then show ?thesis using K(4) [of s r] by (auto simp: f lq Queue_Remove_remove1)
  qed
  have "book_contents ob'"
  proof (rule contents_remove [OF C e q t])
    show "r \<in> set (prices_of s ob) \<and> queue_at s ob' r \<noteq> []" if "r \<in> set (prices_of s ob')" for s r
      using that book_contents_level [OF C, of s r] q [of s r] unfolding p level_ok_def
      by (auto split: if_splits)
  qed (use rest in simp_all)
  then show "book_ok ob'" using K(1) by (simp add: book_ok_def)
  show "bElems ob' = (bElems ob)(e := x)" "bTicker ob' = bTicker ob"
    "bPrecision ob' = bPrecision ob" "bIndex ob' = (bIndex ob)(oOrderID (elem_order ob e) := None)"
    "bNextElem ob' = bNextElem ob" by (rule rest)+
  show "queue_at s ob' r = (if s = sd \<and> r = p then remove1 e (queue_at sd ob p) else queue_at s ob r)"
    by (rule q)
  show "prices_of s ob' = (if s = sd then filter (\<lambda>r. r \<noteq> p \<or> queue_at sd ob' p \<noteq> []) (prices_of sd ob)
                        else prices_of s ob)" by (rule p)
qed

end
