(* ===== verification/PriceTime.thy ===== *)
theory PriceTime
  imports BookInvariant
begin

text \<open>
  The abstract order book: for each side, the resting orders in price-time priority, best
  price first and, within a price, oldest first. \<open>side_view\<close> reads it off the concrete book
  (its level map, level queues and elements); \<open>priority_insert\<close>, filtering by order id and
  replacing in place are the abstract operations. The lemmas of this theory are about the
  view as a function of the prices and of the orders at each price.
\<close>

section \<open>Prices, best first\<close>

fun best_first :: "book_side \<Rightarrow> PriceTicks list \<Rightarrow> PriceTicks list" where
  "best_first BidSide ps = rev (sort ps)"
| "best_first AskSide ps = sort ps"

lemma set_best_first [simp]: "set (best_first sd ps) = set ps"
  by (cases sd) simp_all

lemma distinct_best_first [simp]: "distinct (best_first sd ps) = distinct ps"
  by (cases sd) simp_all

lemma best_first_filter: "best_first sd (filter P ps) = filter P (best_first sd ps)"
  by (cases sd) (simp_all add: filter_sort flip: rev_filter)

lemma best_first_sorted: "distinct ps \<Longrightarrow> sorted_wrt (side_Less sd) (best_first sd ps)"
proof (cases sd)
  case BidSide
  assume "distinct ps"
  then have "sorted_wrt (<) (sort ps)" by (simp add: strict_sorted_iff)
  then show ?thesis by (simp add: BidSide sorted_wrt_rev MaxPriceHeap_Less_def)
next
  case AskSide
  assume "distinct ps"
  then have "sorted_wrt (<) (sort ps)" by (simp add: strict_sorted_iff)
  moreover have "side_Less sd = (<)" by (simp add: AskSide fun_eq_iff MinPriceHeap_Less_def)
  ultimately show ?thesis by (simp add: AskSide)
qed

lemma best_first_split:
  assumes "distinct ps" "p \<in> set ps"
  obtains as bs where "best_first sd ps = as @ p # bs"
    "\<And>a. a \<in> set as \<Longrightarrow> side_Less sd a p" "\<And>b. b \<in> set bs \<Longrightarrow> side_Less sd p b"
proof -
  have "p \<in> set (best_first sd ps)" using assms(2) by simp
  then obtain as bs where eq: "best_first sd ps = as @ p # bs" by (meson split_list)
  have "sorted_wrt (side_Less sd) (as @ p # bs)" using best_first_sorted [OF assms(1)] eq by metis
  then show ?thesis using that [OF eq] by (auto simp: sorted_wrt_append)
qed

lemma best_first_Cons:
  assumes "distinct ps" "p \<in> set ps" "\<And>r. r \<in> set ps \<Longrightarrow> \<not> side_Less sd r p"
  obtains rs where "best_first sd ps = p # rs" "p \<notin> set rs"
proof -
  obtain as bs where eq: "best_first sd ps = as @ p # bs"
    and as: "\<And>a. a \<in> set as \<Longrightarrow> side_Less sd a p"
    using best_first_split [OF assms(1,2), of sd] by metis
  have "as = []"
  proof (rule ccontr)
    assume "as \<noteq> []"
    then have "hd as \<in> set as" by simp
    moreover have "set as \<subseteq> set ps" using eq set_best_first [of sd ps] by auto
    ultimately show False using as assms(3) by blast
  qed
  moreover have "distinct (as @ p # bs)" using assms(1) eq distinct_best_first by metis
  ultimately show ?thesis using that eq by auto
qed

section \<open>The orders at each price, in priority order\<close>

definition priority_list ::
  "book_side \<Rightarrow> PriceTicks list \<Rightarrow> (PriceTicks \<Rightarrow> BookOrder list) \<Rightarrow> BookOrder list" where
  "priority_list sd ps q = concat (map q (best_first sd ps))"

definition orders_at :: "OrderBook \<Rightarrow> book_side \<Rightarrow> PriceTicks \<Rightarrow> BookOrder list" where
  "orders_at ob sd p = map (elem_order ob) (queue_at sd ob p)"

lemma orders_at_fun: "orders_at ob sd = (\<lambda>p. map (elem_order ob) (queue_at sd ob p))"
  by (simp add: orders_at_def fun_eq_iff)

definition side_view :: "OrderBook \<Rightarrow> book_side \<Rightarrow> BookOrder list" where
  "side_view ob sd = priority_list sd (prices_of sd ob) (orders_at ob sd)"

text \<open>After every order whose price is at least as good, before every order of a worse price.\<close>

definition priority_insert :: "book_side \<Rightarrow> BookOrder \<Rightarrow> BookOrder list \<Rightarrow> BookOrder list" where
  "priority_insert sd order xs =
     takeWhile (\<lambda>x. \<not> side_Less sd (oPrice order) (oPrice x)) xs @ order #
     dropWhile (\<lambda>x. \<not> side_Less sd (oPrice order) (oPrice x)) xs"

lemma priority_list_cong:
  "(\<And>p. p \<in> set ps \<Longrightarrow> q p = q' p) \<Longrightarrow> priority_list sd ps q = priority_list sd ps q'"
  unfolding priority_list_def by (intro arg_cong [where f = concat] map_cong) simp_all

lemma priority_list_drop_empty:
  assumes "\<And>p. p \<in> set ps \<Longrightarrow> \<not> P p \<Longrightarrow> q p = []"
  shows "priority_list sd (filter P ps) q = priority_list sd ps q"
proof -
  have "concat (map q (filter P xs)) = concat (map q xs)" if "set xs \<subseteq> set ps" for xs
    using that assms by (induction xs) auto
  from this [of "best_first sd ps"] show ?thesis
    by (simp add: priority_list_def best_first_filter)
qed

lemma priority_list_add_empty:
  assumes "p \<notin> set ps" "q p = []"
  shows "priority_list sd (ps @ [p]) q = priority_list sd ps q"
proof -
  have "filter (\<lambda>r. r \<noteq> p) (ps @ [p]) = ps" using assms(1) by (auto simp: filter_id_conv)
  then show ?thesis
    using priority_list_drop_empty [of "ps @ [p]" "\<lambda>r. r \<noteq> p" q sd] assms(2) by simp
qed

lemma priority_list_map:
  "priority_list sd ps (\<lambda>p. map f (q p)) = map f (priority_list sd ps q)"
  by (simp add: priority_list_def map_concat o_def)

lemma priority_list_filter:
  "priority_list sd ps (\<lambda>p. filter P (q p)) = filter P (priority_list sd ps q)"
  by (simp add: priority_list_def filter_concat o_def)

lemma set_priority_list: "set (priority_list sd ps q) = (\<Union>p\<in>set ps. set (q p))"
  by (simp add: priority_list_def)

lemma side_Less_order: "\<not> side_Less sd a a" "side_Less sd a b \<Longrightarrow> \<not> side_Less sd b a"
  using heap_order.lt_irrefl [OF side_heap_order] heap_order.lt_asym [OF side_heap_order] by blast+

lemma priority_list_insert:
  assumes "distinct ps" "oPrice order \<in> set ps" "\<And>p x. p \<in> set ps \<Longrightarrow> x \<in> set (q p) \<Longrightarrow> oPrice x = p"
  shows "priority_list sd ps (q(oPrice order := q (oPrice order) @ [order])) =
    priority_insert sd order (priority_list sd ps q)"
proof -
  let ?p = "oPrice order"
  let ?P = "\<lambda>x. \<not> side_Less sd ?p (oPrice x)"
  obtain as bs where eq: "best_first sd ps = as @ ?p # bs"
    and as: "\<And>a. a \<in> set as \<Longrightarrow> side_Less sd a ?p" and bs: "\<And>b. b \<in> set bs \<Longrightarrow> side_Less sd ?p b"
    using best_first_split [OF assms(1,2), of sd] by metis
  have mem: "set as \<subseteq> set ps" "set bs \<subseteq> set ps"
    using eq set_best_first [of sd ps] by auto
  have notin: "?p \<notin> set as" "?p \<notin> set bs" using as bs side_Less_order by blast+
  define X where "X = concat (map q as) @ q ?p"
  define Y where "Y = concat (map q bs)"
  have X: "?P x" if x: "x \<in> set X" for x
  proof -
    obtain r where r: "x \<in> set (q r)" "r \<in> set as \<or> r = ?p" using x unfolding X_def by auto
    then have "oPrice x = r" using assms(2,3) mem(1) by blast
    then show ?thesis using r(2) as [of r] side_Less_order [of sd] by metis
  qed
  have Y: "\<not> ?P y" if y: "y \<in> set Y" for y
  proof -
    obtain r where r: "y \<in> set (q r)" "r \<in> set bs" using y by (auto simp: Y_def)
    then have "oPrice y = r" using assms(3) mem(2) by blast
    then show ?thesis using bs r(2) by simp
  qed
  have tw: "takeWhile ?P (X @ Y) = X" "dropWhile ?P (X @ Y) = Y"
  proof -
    have "takeWhile ?P Y = []" "dropWhile ?P Y = Y"
      using Y by (cases Y; simp)+
    then show "takeWhile ?P (X @ Y) = X" "dropWhile ?P (X @ Y) = Y"
      using X by (simp_all add: takeWhile_append2 dropWhile_append2)
  qed
  have "priority_list sd ps q = X @ Y" by (simp add: priority_list_def eq X_def Y_def)
  moreover have "priority_list sd ps (q(?p := q ?p @ [order])) = X @ order # Y"
    using notin by (auto simp: priority_list_def eq X_def Y_def)
  ultimately show ?thesis unfolding priority_insert_def using tw by simp
qed

lemma priority_list_best:
  assumes "distinct ps" "p \<in> set ps" "\<And>r. r \<in> set ps \<Longrightarrow> \<not> side_Less sd r p"
  obtains rest where "priority_list sd ps q = q p @ rest"
    "\<And>xs. priority_list sd ps (q(p := xs)) = xs @ rest"
proof -
  obtain rs where "best_first sd ps = p # rs" "p \<notin> set rs"
    using best_first_Cons [OF assms] by metis
  then show ?thesis
    using that [of "concat (map q rs)"] by (auto simp: priority_list_def map_fun_upd)
qed

lemma priority_list_price_order:
  assumes "distinct ps" "\<And>p x. p \<in> set ps \<Longrightarrow> x \<in> set (q p) \<Longrightarrow> oPrice x = p"
  shows "sorted_wrt (\<lambda>x y. \<not> side_Less sd (oPrice y) (oPrice x)) (priority_list sd ps q)"
proof -
  have "sorted_wrt (\<lambda>x y. \<not> side_Less sd (oPrice y) (oPrice x)) (concat (map q rs))"
    if "sorted_wrt (side_Less sd) rs" "set rs \<subseteq> set ps" for rs
    using that
  proof (induction rs)
    case (Cons r rs)
    have same: "oPrice x = r" if "x \<in> set (q r)" for x using that Cons.prems assms(2) by auto
    have "sorted_wrt (\<lambda>x y. \<not> side_Less sd (oPrice y) (oPrice x)) (q r)"
      using same by (auto simp: sorted_wrt_iff_nth_less side_Less_order)
    moreover have "\<not> side_Less sd (oPrice y) (oPrice x)"
      if x: "x \<in> set (q r)" and y: "y \<in> set (concat (map q rs))" for x y
    proof -
      obtain r' where "r' \<in> set rs" "y \<in> set (q r')" using y by auto
      then have "oPrice y = r'" "side_Less sd r r'" using Cons.prems assms(2) by auto
      then show ?thesis using same [OF x] side_Less_order by simp
    qed
    ultimately show ?case using Cons by (simp add: sorted_wrt_append)
  qed simp
  from this [OF best_first_sorted [OF assms(1)]] show ?thesis by (simp add: priority_list_def)
qed

section \<open>The view of a correct book\<close>

lemma book_ok_parts:
  assumes "book_ok ob"
  shows "book_struct ob" "book_contents ob" "distinct (prices_of sd ob)"
  using assms book_struct_side [of ob sd] by (auto simp: book_ok_def side_struct_def prices_of_def)

lemma orders_at_order:
  assumes "book_ok ob" "x \<in> set (orders_at ob sd p)"
  shows "order_at sd p x" "oPrice x = p"
  using assms book_contents_elem(3) [OF book_ok_parts(2) [OF assms(1)]]
  by (auto simp: orders_at_def order_at_def)

lemma side_view_iff:
  assumes "book_ok ob"
  shows "x \<in> set (side_view ob sd) \<longleftrightarrow> (\<exists>e p. e \<in> set (queue_at sd ob p) \<and> x = elem_order ob e)"
proof
  assume "x \<in> set (side_view ob sd)"
  then show "\<exists>e p. e \<in> set (queue_at sd ob p) \<and> x = elem_order ob e"
    by (auto simp: side_view_def set_priority_list orders_at_def)
next
  assume "\<exists>e p. e \<in> set (queue_at sd ob p) \<and> x = elem_order ob e"
  then obtain e p where e: "e \<in> set (queue_at sd ob p)" "x = elem_order ob e" by blast
  then have "queue_at sd ob p \<noteq> []" by auto
  then have "p \<in> set (prices_of sd ob)" by (rule queue_prices)
  then show "x \<in> set (side_view ob sd)"
    using e by (auto simp: side_view_def set_priority_list orders_at_def)
qed

lemma side_view_order:
  assumes "book_ok ob" "x \<in> set (side_view ob sd)"
  shows "order_at sd (oPrice x) x"
  using assms orders_at_order [OF assms(1)] by (auto simp: side_view_def set_priority_list)

definition side_elems :: "OrderBook \<Rightarrow> book_side \<Rightarrow> eref list" where
  "side_elems ob sd = concat (map (\<lambda>p. queue_at sd ob p) (best_first sd (prices_of sd ob)))"

lemma side_view_elems: "side_view ob sd = map (elem_order ob) (side_elems ob sd)"
  by (simp add: side_view_def priority_list_def side_elems_def orders_at_fun map_concat o_def)

lemma side_view_ids:
  assumes "book_ok ob"
  shows "distinct (map oOrderID (side_view ob sd))"
proof -
  note C = book_ok_parts(2) [OF assms]
  have "distinct (side_elems ob sd)"
    unfolding side_elems_def
  proof (rule distinct_concat_map)
    show "distinct (best_first sd (prices_of sd ob))" using book_ok_parts(3) [OF assms] by simp
    show "distinct (queue_at sd ob p)" for p
      using book_contents_level [OF C] by (simp add: level_ok_def)
    show "r = p" if "e \<in> set (queue_at sd ob p)" "e \<in> set (queue_at sd ob r)" for p r e
      using elem_place_unique(2) [OF C that] by simp
  qed
  moreover have "bIndex ob (oOrderID (elem_order ob e)) = Some e" if "e \<in> set (side_elems ob sd)" for e
    using that book_contents_elem(4) [OF C] by (auto simp: side_elems_def)
  then have "inj_on (oOrderID \<circ> elem_order ob) (set (side_elems ob sd))"
    by (intro inj_onI) (metis comp_apply option.inject)
  ultimately show ?thesis by (simp add: side_view_elems distinct_map)
qed

text \<open>The index finds exactly the resting orders.\<close>

definition abs_find :: "(book_side \<Rightarrow> BookOrder list) \<Rightarrow> string \<Rightarrow> BookOrder option" where
  "abs_find v orderID = find (\<lambda>x. oOrderID x = orderID) (v BidSide @ v AskSide)"

lemma index_lookup:
  assumes "book_ok ob" "bIndex ob orderID = Some e"
  obtains sd where "bElems ob e = Some (elem_order ob e)" "oOrderID (elem_order ob e) = orderID"
    "side (oPosition (elem_order ob e)) = Some sd" "e \<in> set (queue_at sd ob (oPrice (elem_order ob e)))"
    "order_at sd (oPrice (elem_order ob e)) (elem_order ob e)"
proof -
  have "index_ok ob orderID e" using assms book_ok_parts(2) [OF assms(1)] by (simp add: book_contents_def)
  then show ?thesis
    using that book_contents_elem(3) [OF book_ok_parts(2) [OF assms(1)]] unfolding index_ok_def by blast
qed

lemma view_id_index:
  assumes "book_ok ob" "x \<in> set (side_view ob sd)"
  shows "\<exists>e. bIndex ob (oOrderID x) = Some e \<and> x = elem_order ob e"
  using assms book_contents_elem(4) [OF book_ok_parts(2) [OF assms(1)]] by (auto simp: side_view_iff)

lemma abs_find_index:
  assumes "book_ok ob"
  shows "abs_find (side_view ob) orderID = map_option (elem_order ob) (bIndex ob orderID)"
proof (cases "bIndex ob orderID")
  case None
  have "oOrderID x \<noteq> orderID" if "x \<in> set (side_view ob sd)" for x sd
    using view_id_index [OF assms that] None by auto
  then have "find (\<lambda>x. oOrderID x = orderID) (side_view ob BidSide @ side_view ob AskSide) = None"
    by (auto simp: find_None_iff)
  then show ?thesis using None by (simp add: abs_find_def)
next
  case (Some e)
  obtain sd where E: "oOrderID (elem_order ob e) = orderID"
    "e \<in> set (queue_at sd ob (oPrice (elem_order ob e)))"
    using index_lookup [OF assms Some] by metis
  then have "elem_order ob e \<in> set (side_view ob sd)" using side_view_iff [OF assms] by blast
  then have "elem_order ob e \<in> set (side_view ob BidSide @ side_view ob AskSide)"
    by (cases sd) simp_all
  moreover have "x = elem_order ob e" if "x \<in> set (side_view ob BidSide @ side_view ob AskSide)"
    "oOrderID x = orderID" for x
    using that Some view_id_index [OF assms, of x BidSide] view_id_index [OF assms, of x AskSide] by auto
  ultimately have "find (\<lambda>x. oOrderID x = orderID) (side_view ob BidSide @ side_view ob AskSide) =
      Some (elem_order ob e)"
    using E(1) by (intro find_unique)
  then show ?thesis using Some by (simp add: abs_find_def)
qed

end
