(* ===== verification/BookRefinement.thy ===== *)
theory BookRefinement
  imports PriceTime
begin

text \<open>
  The operations of \<^verbatim>\<open>internal/engine/order.go\<close> keep the book correct and implement the
  abstract operations on the price-time priority view.
\<close>

type_synonym abs_book = "book_side \<Rightarrow> BookOrder list"

definition abs_add :: "abs_book \<Rightarrow> BookOrder \<Rightarrow> abs_book" where
  "abs_add v order =
     (case side (oPosition order) of None \<Rightarrow> v | Some sd \<Rightarrow> v(sd := priority_insert sd order (v sd)))"

definition abs_remove :: "abs_book \<Rightarrow> string \<Rightarrow> abs_book" where
  "abs_remove v orderID = (\<lambda>sd. filter (\<lambda>x. oOrderID x \<noteq> orderID) (v sd))"

definition abs_replace :: "abs_book \<Rightarrow> BookOrder \<Rightarrow> abs_book" where
  "abs_replace v order = (\<lambda>sd. map (\<lambda>x. if oOrderID x = oOrderID order then order else x) (v sd))"

text \<open>
  An amendment: a new price takes the order off the book for a rematch, a larger amount sends
  it to the back of its price, a smaller one keeps its place, no change is no result.
\<close>

definition abs_edit ::
  "abs_book \<Rightarrow> EditOrderRequest \<Rightarrow> Time \<Rightarrow> abs_book \<times> EditOrderResult option" where
  "abs_edit v req recordedAt =
     (case abs_find v (eOrderID req) of
        None \<Rightarrow> (v, None)
      | Some before \<Rightarrow>
          let amount = (case eAmount req of None \<Rightarrow> oAmount before | Some a \<Rightarrow> a);
              after = before\<lparr>oPrice := ePrice req, oAmount := amount, oTimestamp := recordedAt\<rparr>
          in if ePrice req \<noteq> oPrice before then
               (abs_remove v (eOrderID req),
                Some \<lparr>edBefore = before, edAfter = after, edRequiresRematch = True\<rparr>)
             else if amount > oAmount before then
               (abs_add (abs_remove v (eOrderID req)) after,
                Some \<lparr>edBefore = before, edAfter = after, edRequiresRematch = False\<rparr>)
             else if amount < oAmount before then
               (abs_replace v after,
                Some \<lparr>edBefore = before, edAfter = after, edRequiresRematch = False\<rparr>)
             else (v, None))"

section \<open>Adding an order\<close>

lemma AddOrder_steps:
  assumes ok: "book_ok ob" and sd: "side (oPosition order) = Some sd"
  shows "book_struct (AddOrder ob order)"
    "queue_at s (AddOrder ob order) r =
      (if s = sd \<and> r = oPrice order then queue_at sd ob r @ [bNextElem ob] else queue_at s ob r)"
    "total_at s (AddOrder ob order) r =
      (if s = sd \<and> r = oPrice order then wrap64 (total_at sd ob r + oAmount order) else total_at s ob r)"
    "prices_of s (AddOrder ob order) =
      (if s = sd \<and> oPrice order \<notin> set (prices_of sd ob) then prices_of sd ob @ [oPrice order]
       else prices_of s ob)"
    "bElems (AddOrder ob order) = (bElems ob)(bNextElem ob := Some order)"
    "bIndex (AddOrder ob order) = (bIndex ob)(oOrderID order := Some (bNextElem ob))"
    "bNextElem (AddOrder ob order) = bNextElem ob + 1"
    "bTicker (AddOrder ob order) = bTicker ob" "bPrecision (AddOrder ob order) = bPrecision ob"
proof -
  let ?p = "oPrice order"
  let ?n = "bNextElem ob"
  obtain l ob1 where E: "ensure_level sd ?p ob = (l, ob1)" by (cases "ensure_level sd ?p ob")
  note L = ensure_level_correct [OF book_ok_parts(1) [OF ok] E]
  define ob2 where "ob2 = upd_level l (\<lambda>v. v\<lparr>lTotalAmount := wrap64 (lTotalAmount v + oAmount order)\<rparr>) ob1"
  define ob3 where "ob3 = ob2\<lparr>bNextElem := ?n + 1, bElems := (bElems ob2)(?n := Some order)\<rparr>"
  define ob4 where "ob4 = upd_level l (\<lambda>v. v\<lparr>lQueue := Queue_Push (lQueue v) ?n\<rparr>) ob3"
  have n1: "bNextElem ob1 = ?n" "bElems ob2 = bElems ob1" "bIndex ob2 = bIndex ob1"
    using L(2) by (simp_all add: ob2_def same_rest_def)
  have A: "AddOrder ob order = ob4\<lparr>bIndex := (bIndex ob4)(oOrderID order := Some ?n)\<rparr>"
    by (simp add: AddOrder_def sd E Let_def ob4_def ob3_def flip: ob2_def) (simp add: n1)
  have s2: "book_struct ob2" "map_of (side_levels sd ob2) ?p = Some l"
    using L(1,3) by (simp_all add: ob2_def)
  have s3: "book_struct ob3" "map_of (side_levels sd ob3) ?p = Some l"
    using s2 by (simp_all add: ob3_def)
  have s4: "book_struct ob4" using s3(1) by (simp add: ob4_def)
  then show "book_struct (AddOrder ob order)" by (simp add: A)
  have lq: "lQueue (bLevels ob3 l) = queue_at sd ob ?p" "lTotalAmount (bLevels ob1 l) = total_at sd ob ?p"
    using L(3) L(4,5) [of sd ?p] by (simp_all add: ob3_def ob2_def queue_at_def total_at_def)
  have q3: "queue_at s ob3 r = queue_at s ob r" for s r
  proof -
    have "lQueue (bLevels ob1 l) = queue_at sd ob1 ?p" using L(3) by (simp add: queue_at_def)
    then show ?thesis
      unfolding ob3_def at_fields ob2_def queue_at_upd_level [OF L(1,3)] using L(4) by simp
  qed
  show "queue_at s (AddOrder ob order) r =
      (if s = sd \<and> r = ?p then queue_at sd ob r @ [?n] else queue_at s ob r)"
    unfolding A at_fields ob4_def queue_at_upd_level [OF s3] q3
    by (simp add: lq Queue_Push_def)
  have t3: "total_at s ob3 r = (if s = sd \<and> r = ?p then wrap64 (total_at sd ob r + oAmount order) else total_at s ob r)"
    for s r
    unfolding ob3_def at_fields ob2_def total_at_upd_level [OF L(1,3)] by (simp add: lq L(5))
  have tl: "total_at sd ob3 ?p = lTotalAmount (bLevels ob3 l)" using s3(2) by (simp add: total_at_def)
  show "total_at s (AddOrder ob order) r =
      (if s = sd \<and> r = ?p then wrap64 (total_at sd ob r + oAmount order) else total_at s ob r)"
    unfolding A at_fields ob4_def total_at_upd_level [OF s3] using t3 [of s r] t3 [of sd ?p] tl by auto
  show "prices_of s (AddOrder ob order) =
      (if s = sd \<and> ?p \<notin> set (prices_of sd ob) then prices_of sd ob @ [?p] else prices_of s ob)"
    using L(6) [of s] by (simp add: A ob4_def ob3_def ob2_def)
  show "bElems (AddOrder ob order) = (bElems ob)(?n := Some order)"
    "bIndex (AddOrder ob order) = (bIndex ob)(oOrderID order := Some ?n)"
    "bNextElem (AddOrder ob order) = ?n + 1"
    "bTicker (AddOrder ob order) = bTicker ob" "bPrecision (AddOrder ob order) = bPrecision ob"
    using L(2) by (simp_all add: A ob4_def ob3_def ob2_def same_rest_def)
qed

lemma AddOrder_ok:
  assumes "book_ok ob" "side (oPosition order) = Some sd" "order_at sd (oPrice order) order"
    "bIndex ob (oOrderID order) = None"
  shows "book_ok (AddOrder ob order)"
  unfolding book_ok_def
proof
  note A = AddOrder_steps [OF assms(1,2)]
  show "book_struct (AddOrder ob order)" by (rule A(1))
  show "book_contents (AddOrder ob order)"
    by (rule contents_append [OF book_ok_parts(2) [OF assms(1)] assms(3,4)])
      (use A in \<open>auto split: if_splits\<close>)
qed

lemma AddOrder_view:
  assumes "book_ok ob" "side (oPosition order) = Some sd"
  shows "side_view (AddOrder ob order) = abs_add (side_view ob) order"
proof
  fix s
  note A = AddOrder_steps [OF assms]
  have old: "elem_order (AddOrder ob order) e = elem_order ob e" if "e \<in> set (queue_at s ob r)" for e r
    using book_contents_elem(1) [OF book_ok_parts(2) [OF assms(1)] that] by (simp add: elem_order_def A(5))
  have new: "elem_order (AddOrder ob order) (bNextElem ob) = order" by (simp add: elem_order_def A(5))
  have O: "orders_at (AddOrder ob order) s r =
      (if s = sd \<and> r = oPrice order then orders_at ob sd r @ [order] else orders_at ob s r)" for r
    using old new by (simp add: orders_at_def A(2) cong: map_cong)
  show "side_view (AddOrder ob order) s = abs_add (side_view ob) order s"
  proof (cases "s = sd")
    case False
    then have "orders_at (AddOrder ob order) s = orders_at ob s" using O by (simp add: fun_eq_iff)
    then show ?thesis using False assms(2) A(4) [of s] by (simp add: side_view_def abs_add_def)
  next
    case True
    let ?ps = "prices_of sd (AddOrder ob order)"
    have fn: "orders_at (AddOrder ob order) sd =
        (orders_at ob sd)(oPrice order := orders_at ob sd (oPrice order) @ [order])"
      using O True by (simp add: fun_eq_iff)
    have d: "distinct ?ps" "oPrice order \<in> set ?ps"
      using A(4) [of sd] book_ok_parts(3) [OF assms(1), of sd] by auto
    have "side_view (AddOrder ob order) sd =
        priority_insert sd order (priority_list sd ?ps (orders_at ob sd))"
      unfolding side_view_def fn
      by (rule priority_list_insert [OF d]) (rule orders_at_order(2) [OF assms(1)])
    moreover have "priority_list sd ?ps (orders_at ob sd) = side_view ob sd"
    proof (cases "oPrice order \<in> set (prices_of sd ob)")
      case False
      then have "queue_at sd ob (oPrice order) = []" using queue_prices by blast
      then have "orders_at ob sd (oPrice order) = []" by (simp add: orders_at_def)
      then show ?thesis using False A(4) [of sd] by (simp add: side_view_def priority_list_add_empty)
    qed (simp add: side_view_def A(4))
    ultimately show ?thesis using True assms(2) by (simp add: abs_add_def)
  qed
qed

section \<open>Removing an order\<close>

lemma bElems_self: "ob\<lparr>bElems := (bElems ob)(e := bElems ob e)\<rparr> = ob"
  by (cases ob) simp

lemma removeElement_eq:
  assumes "book_ok ob" "e \<in> set (queue_at sd ob p)"
  shows "removeElement ob l sd e fallbackAmount = drop_if_empty sd l
    (upd_level l (\<lambda>v. v\<lparr>lQueue := Queue_Remove (lQueue v) e,
        lTotalAmount := wrap64 (lTotalAmount v - oAmount (elem_order ob e))\<rparr>)
      (ob\<lparr>bElems := (bElems ob)(e := bElems ob e),
          bIndex := (bIndex ob)(oOrderID (elem_order ob e) := None)\<rparr>))"
proof -
  note E = book_contents_elem [OF book_ok_parts(2) [OF assms(1)] assms(2)]
  have "oOrderID (elem_order ob e) \<noteq> []" using E(3) by (simp add: order_at_def)
  then show ?thesis
    unfolding bElems_self
    by (simp add: removeElement_def drop_if_empty_def E(2) Let_def upd_level_def)
qed

text \<open>What is left on each price after one element of a level is taken out.\<close>

lemma detach_view:
  assumes ok: "book_ok ob" and e: "e \<in> set (queue_at sd ob p)"
    and q: "\<And>s r. queue_at s ob' r =
      (if s = sd \<and> r = p then remove1 e (queue_at sd ob p) else queue_at s ob r)"
    and p: "\<And>s. prices_of s ob' = (if s = sd
      then filter (\<lambda>r. r \<noteq> p \<or> queue_at sd ob' p \<noteq> []) (prices_of sd ob) else prices_of s ob)"
    and E: "\<And>x. x \<noteq> e \<Longrightarrow> bElems ob' x = bElems ob x"
  shows "side_view ob' = abs_remove (side_view ob) (oOrderID (elem_order ob e))"
proof
  fix s
  let ?P = "\<lambda>x. oOrderID x \<noteq> oOrderID (elem_order ob e)"
  note C = book_ok_parts(2) [OF ok]
  have id: "?P (elem_order ob x) \<longleftrightarrow> x \<noteq> e" if "x \<in> set (queue_at t ob r)" for t r x
  proof
    show "?P (elem_order ob x) \<Longrightarrow> x \<noteq> e" by blast
    show "x \<noteq> e \<Longrightarrow> ?P (elem_order ob x)"
      using book_contents_elem(4) [OF C that] book_contents_elem(4) [OF C e]
      by (metis option.inject)
  qed
  have dist: "distinct (queue_at t ob r)" for t r
    using book_contents_level [OF C] by (simp add: level_ok_def)
  have q': "queue_at s ob' r = filter (\<lambda>x. x \<noteq> e) (queue_at s ob r)" for r
  proof (cases "s = sd \<and> r = p")
    case True
    have "remove1 e (queue_at sd ob p) = filter (\<lambda>x. x \<noteq> e) (queue_at sd ob p)"
      using dist [of sd p] by (simp add: distinct_remove1_removeAll removeAll_filter_not_eq eq_commute [of e])
    then show ?thesis using True by (simp add: q)
  next
    case False
    then have "e \<notin> set (queue_at s ob r)" using elem_place_unique [OF C e] by blast
    then have "filter (\<lambda>x. x \<noteq> e) (queue_at s ob r) = queue_at s ob r" by (auto simp: filter_id_conv)
    then show ?thesis using q [of s r] False by simp
  qed
  have eo: "x \<noteq> e \<Longrightarrow> elem_order ob' x = elem_order ob x" for x
    using E [of x] by (simp add: elem_order_def)
  have O: "orders_at ob' s = (\<lambda>r. filter ?P (orders_at ob s r))"
  proof
    fix r
    have "map (elem_order ob') (filter (\<lambda>x. x \<noteq> e) xs) = filter ?P (map (elem_order ob) xs)"
      if "set xs \<subseteq> set (queue_at s ob r)" for xs
      using that
    proof (induction xs)
      case (Cons x xs)
      then show ?case using id [of x s r] eo [of x] by (cases "x = e") simp_all
    qed simp
    then show "orders_at ob' s r = filter ?P (orders_at ob s r)"
      by (simp add: orders_at_def q')
  qed
  have drop: "priority_list s (prices_of s ob') (orders_at ob' s) = priority_list s (prices_of s ob) (orders_at ob' s)"
  proof (cases "s = sd")
    case True
    show ?thesis
      unfolding True p if_P [OF refl]
      by (rule priority_list_drop_empty) (simp add: orders_at_def)
  qed (simp add: p)
  show "side_view ob' s = abs_remove (side_view ob) (oOrderID (elem_order ob e)) s"
    unfolding side_view_def drop unfolding O abs_remove_def by (simp add: priority_list_filter)
qed

lemma removeElement_correct:
  assumes ok: "book_ok ob" and e: "e \<in> set (queue_at sd ob p)"
    and l: "map_of (side_levels sd ob) p = Some l"
  shows "book_ok (removeElement ob l sd e fallbackAmount)"
    "side_view (removeElement ob l sd e fallbackAmount) =
      abs_remove (side_view ob) (oOrderID (elem_order ob e))"
    "bElems (removeElement ob l sd e fallbackAmount) = bElems ob"
    "bIndex (removeElement ob l sd e fallbackAmount) =
      (bIndex ob)(oOrderID (elem_order ob e) := None)"
    "bNextElem (removeElement ob l sd e fallbackAmount) = bNextElem ob"
    "bTicker (removeElement ob l sd e fallbackAmount) = bTicker ob"
    "bPrecision (removeElement ob l sd e fallbackAmount) = bPrecision ob"
    "x \<in> set (queue_at s (removeElement ob l sd e fallbackAmount) r) \<Longrightarrow> x \<noteq> e"
proof -
  note D = detach_element [OF ok e l refl removeElement_eq [OF ok e]]
  show "book_ok (removeElement ob l sd e fallbackAmount)" by (rule D(1))
  show "bElems (removeElement ob l sd e fallbackAmount) = bElems ob" using D(2) by simp
  show "bIndex (removeElement ob l sd e fallbackAmount) = (bIndex ob)(oOrderID (elem_order ob e) := None)"
    by (rule D(5))
  show "bNextElem (removeElement ob l sd e fallbackAmount) = bNextElem ob" by (rule D(6))
  show "bTicker (removeElement ob l sd e fallbackAmount) = bTicker ob" by (rule D(3))
  show "bPrecision (removeElement ob l sd e fallbackAmount) = bPrecision ob" by (rule D(4))
  show "side_view (removeElement ob l sd e fallbackAmount) =
      abs_remove (side_view ob) (oOrderID (elem_order ob e))"
    by (rule detach_view [OF ok e D(7) D(8)]) (simp add: D(2))
  show "x \<noteq> e" if "x \<in> set (queue_at s (removeElement ob l sd e fallbackAmount) r)"
  proof
    assume "x = e"
    have "elem_order (removeElement ob l sd e fallbackAmount) e = elem_order ob e"
      using D(2) by (simp add: elem_order_def)
    then show False
      using book_contents_elem(4) [OF book_ok_parts(2) [OF D(1)] that] \<open>x = e\<close> D(5) by simp
  qed
qed

lemma indexed_level:
  assumes ok: "book_ok ob" and i: "bIndex ob orderID = Some e"
  obtains sd l where "bElems ob e = Some (elem_order ob e)" "oOrderID (elem_order ob e) = orderID"
    "e \<in> set (queue_at sd ob (oPrice (elem_order ob e)))"
    "map_of (side_levels sd ob) (oPrice (elem_order ob e)) = Some l"
    "level ob (oPosition (elem_order ob e)) (oPrice (elem_order ob e)) = Some (l, sd)"
    "order_at sd (oPrice (elem_order ob e)) (elem_order ob e)"
proof -
  obtain sd where I: "bElems ob e = Some (elem_order ob e)" "oOrderID (elem_order ob e) = orderID"
    "side (oPosition (elem_order ob e)) = Some sd" "e \<in> set (queue_at sd ob (oPrice (elem_order ob e)))"
    "order_at sd (oPrice (elem_order ob e)) (elem_order ob e)"
    using index_lookup [OF ok i] by metis
  have "map_of (side_levels sd ob) (oPrice (elem_order ob e)) \<noteq> None"
    using I(4) by (intro notI) (simp add: queue_at_def)
  then obtain l where "map_of (side_levels sd ob) (oPrice (elem_order ob e)) = Some l" by blast
  then show ?thesis using that I by (simp add: level_def)
qed

lemma abs_remove_absent: "abs_find v orderID = None \<Longrightarrow> abs_remove v orderID = v"
proof
  fix sd assume "abs_find v orderID = None"
  then show "abs_remove v orderID sd = v sd"
    by (cases sd) (auto simp: abs_find_def abs_remove_def find_None_iff filter_id_conv)
qed

lemma RemoveOrder_refines:
  assumes "book_ok ob"
  shows "book_ok (fst (RemoveOrder ob orderID))"
    "side_view (fst (RemoveOrder ob orderID)) = abs_remove (side_view ob) orderID"
    "snd (RemoveOrder ob orderID) = abs_find (side_view ob) orderID"
    "bTicker (fst (RemoveOrder ob orderID)) = bTicker ob"
    "bPrecision (fst (RemoveOrder ob orderID)) = bPrecision ob"
    "bIndex (fst (RemoveOrder ob orderID)) = (bIndex ob)(orderID := None)"
proof -
  have "book_ok (fst (RemoveOrder ob orderID)) \<and>
    side_view (fst (RemoveOrder ob orderID)) = abs_remove (side_view ob) orderID \<and>
    snd (RemoveOrder ob orderID) = abs_find (side_view ob) orderID \<and>
    bTicker (fst (RemoveOrder ob orderID)) = bTicker ob \<and>
    bPrecision (fst (RemoveOrder ob orderID)) = bPrecision ob \<and>
    bIndex (fst (RemoveOrder ob orderID)) = (bIndex ob)(orderID := None)"
  proof (cases "bIndex ob orderID")
    case None
    then have "abs_find (side_view ob) orderID = None" by (simp add: abs_find_index [OF assms])
    then show ?thesis using None assms by (auto simp: RemoveOrder_def abs_remove_absent fun_eq_iff)
  next
    case (Some e)
    obtain sd l where I: "bElems ob e = Some (elem_order ob e)" "oOrderID (elem_order ob e) = orderID"
      "e \<in> set (queue_at sd ob (oPrice (elem_order ob e)))"
      "map_of (side_levels sd ob) (oPrice (elem_order ob e)) = Some l"
      "level ob (oPosition (elem_order ob e)) (oPrice (elem_order ob e)) = Some (l, sd)"
      using indexed_level [OF assms Some] by metis
    have "RemoveOrder ob orderID =
        (removeElement ob l sd e (oAmount (elem_order ob e)), Some (elem_order ob e))"
      by (simp add: RemoveOrder_def Some I(1,5))
    then show ?thesis
      using removeElement_correct [OF assms I(3,4)] Some I(2) by (simp add: abs_find_index [OF assms])
  qed
  then show "book_ok (fst (RemoveOrder ob orderID))"
    "side_view (fst (RemoveOrder ob orderID)) = abs_remove (side_view ob) orderID"
    "snd (RemoveOrder ob orderID) = abs_find (side_view ob) orderID"
    "bTicker (fst (RemoveOrder ob orderID)) = bTicker ob"
    "bPrecision (fst (RemoveOrder ob orderID)) = bPrecision ob"
    "bIndex (fst (RemoveOrder ob orderID)) = (bIndex ob)(orderID := None)" by blast+
qed

section \<open>Editing an order\<close>

text \<open>Writing an element no level holds.\<close>

lemma write_detached:
  assumes ok: "book_ok ob" and e: "\<And>s r. e \<notin> set (queue_at s ob r)"
  shows "book_ok (ob\<lparr>bElems := (bElems ob)(e := x)\<rparr>)"
    "side_view (ob\<lparr>bElems := (bElems ob)(e := x)\<rparr>) = side_view ob"
proof -
  let ?b = "ob\<lparr>bElems := (bElems ob)(e := x)\<rparr>"
  note C = book_ok_parts(2) [OF ok]
  have eo: "elem_order ?b y = elem_order ob y" if "y \<in> set (queue_at s ob r)" for s r y
    using that e by (auto simp: elem_order_def)
  have "level_ok ?b s r" for s r
  proof -
    have L: "level_ok ob s r" by (rule book_contents_level [OF C])
    have "elem_at ?b s r y" if "y \<in> set (queue_at s ob r)" for y
      using book_contents_elem [OF C that] eo [OF that] that e [of s r]
      by (simp add: elem_at_def) blast
    moreover have "queue_sum ?b (queue_at s ob r) = queue_sum ob (queue_at s ob r)"
      by (rule queue_sum_cong) (use e [of s r] in auto)
    ultimately show ?thesis using L by (simp add: level_ok_def)
  qed
  moreover have "index_ok ?b i y" if i: "bIndex ?b i = Some y" for i y
  proof -
    have "bIndex ob i = Some y" using i by simp
    then have I: "index_ok ob i y" using C by (simp add: book_contents_def)
    then have y: "y \<noteq> e" using e by (auto simp: index_ok_def)
    then have "elem_order ?b y = elem_order ob y" by (simp add: elem_order_def)
    then show ?thesis using I y by (simp add: index_ok_def)
  qed
  ultimately show "book_ok ?b"
    using book_ok_parts(1) [OF ok] by (simp add: book_ok_def book_contents_def)
  have "orders_at ?b s = orders_at ob s" for s
    using eo by (simp add: orders_at_fun fun_eq_iff)
  then show "side_view ?b = side_view ob" by (intro ext) (simp add: side_view_def)
qed

text \<open>Changing an order in place, with its level's total.\<close>

lemma update_in_place:
  assumes ok: "book_ok ob" and e: "e \<in> set (queue_at sd ob p)"
    and l: "map_of (side_levels sd ob) p = Some l"
    and order: "order_at sd p order" "oOrderID order = oOrderID (elem_order ob e)"
    and ob': "ob' = upd_level l
      (\<lambda>v. v\<lparr>lTotalAmount := wrap64 (lTotalAmount v + (oAmount order - oAmount (elem_order ob e)))\<rparr>)
      (ob\<lparr>bElems := (bElems ob)(e := Some order)\<rparr>)"
  shows "book_ok ob'" "side_view ob' = abs_replace (side_view ob) order"
    "bElems ob' = (bElems ob)(e := Some order)" "bIndex ob' = bIndex ob"
    "bTicker ob' = bTicker ob" "bPrecision ob' = bPrecision ob"
proof -
  let ?b = "ob\<lparr>bElems := (bElems ob)(e := Some order)\<rparr>"
  note S = book_ok_parts(1) [OF ok] and C = book_ok_parts(2) [OF ok]
  have b: "book_struct ?b" "map_of (side_levels sd ?b) p = Some l" using S l by simp_all
  have lq: "lQueue (bLevels ob l) = queue_at sd ob p" "lTotalAmount (bLevels ob l) = total_at sd ob p"
    using l by (simp_all add: queue_at_def total_at_def)
  have q: "queue_at s ob' r = queue_at s ob r" for s r
    unfolding ob' queue_at_upd_level [OF b] by (simp add: lq)
  have t: "total_at s ob' r = (if s = sd \<and> r = p
      then wrap64 (total_at sd ob p + (oAmount order - oAmount (elem_order ob e))) else total_at s ob r)" for s r
    unfolding ob' total_at_upd_level [OF b] by (simp add: lq)
  show E: "bElems ob' = (bElems ob)(e := Some order)" and I: "bIndex ob' = bIndex ob"
    and "bTicker ob' = bTicker ob" "bPrecision ob' = bPrecision ob" by (simp_all add: ob')
  have "book_contents ob'"
    by (rule contents_update [OF C e order q t _ E I]) (simp_all add: ob')
  moreover have "book_struct ob'" unfolding ob' using b(1) by simp
  ultimately show "book_ok ob'" by (simp add: book_ok_def)
  have id: "(if oOrderID (elem_order ob x) = oOrderID order then order else elem_order ob x) = elem_order ob' x"
    if "x \<in> set (queue_at s ob r)" for s r x
  proof -
    have "oOrderID (elem_order ob x) = oOrderID order \<longleftrightarrow> x = e"
      using book_contents_elem(4) [OF C that] book_contents_elem(4) [OF C e] order(2)
      by (metis option.inject)
    then show ?thesis by (simp add: elem_order_def E)
  qed
  have "orders_at ob' s r = map (\<lambda>x. if oOrderID x = oOrderID order then order else x) (orders_at ob s r)"
    for s r using id [of _ s r] by (simp add: orders_at_def q o_def)
  then have "orders_at ob' s = (\<lambda>r. map (\<lambda>x. if oOrderID x = oOrderID order then order else x) (orders_at ob s r))"
    for s by (rule ext)
  moreover have "prices_of s ob' = prices_of s ob" for s by (simp add: ob')
  ultimately show "side_view ob' = abs_replace (side_view ob) order"
    by (intro ext) (simp add: side_view_def abs_replace_def priority_list_map)
qed

text \<open>
  The amount asked for, when there is one, is a positive \<open>int64\<close>: what the journal's
  validation accepts.
\<close>

definition edit_amount_ok :: "EditOrderRequest \<Rightarrow> bool" where
  "edit_amount_ok req \<longleftrightarrow> (case eAmount req of None \<Rightarrow> True | Some a \<Rightarrow> 0 < a \<and> int64 a)"

lemma EditOrderAt_found:
  assumes ok: "book_ok ob" and i: "bIndex ob (eOrderID req) = Some e" and a: "edit_amount_ok req"
  shows "book_ok (fst (EditOrderAt ob req t)) \<and>
    (side_view (fst (EditOrderAt ob req t)), snd (EditOrderAt ob req t)) = abs_edit (side_view ob) req t \<and>
    bTicker (fst (EditOrderAt ob req t)) = bTicker ob \<and>
    bPrecision (fst (EditOrderAt ob req t)) = bPrecision ob"
proof -
  define x where "x = elem_order ob e"
  obtain sd l where I: "bElems ob e = Some x" "oOrderID x = eOrderID req"
    "e \<in> set (queue_at sd ob (oPrice x))" "map_of (side_levels sd ob) (oPrice x) = Some l"
    "level ob (oPosition x) (oPrice x) = Some (l, sd)" "order_at sd (oPrice x) x"
    using indexed_level [OF ok i] unfolding x_def by metis
  have find: "abs_find (side_view ob) (eOrderID req) = Some x"
    using i by (simp add: abs_find_index [OF ok] x_def)
  have xi: "int64 (oAmount x)" "0 < oAmount x" "side (oPosition x) = Some sd"
    using I(6) by (simp_all add: order_at_def)
  define amount :: int where "amount = (case eAmount req of None \<Rightarrow> oAmount x | Some a \<Rightarrow> a)"
  define after where "after = x\<lparr>oPrice := ePrice req, oAmount := amount, oTimestamp := t\<rparr>"
  have am: "0 < amount" "int64 amount"
    using a xi by (auto simp: amount_def edit_amount_ok_def split: option.splits)
  have delta: "wrap64 (amount - oAmount x) = amount - oAmount x"
    using am xi by (intro int64_sub_pos) simp_all
  let ?r = "removeElement ob l sd e (oAmount x)"
  note R = removeElement_correct [OF ok I(3,4), where fallbackAmount = "oAmount x"]
  have idx: "oOrderID (elem_order ob e) = eOrderID req" using I(2) by (simp add: x_def)
  note W = write_detached [OF R(1), of e "Some after"]
  have We: "\<And>s r. e \<notin> set (queue_at s ?r r)" using R(8) by blast
  define w where "w = ?r\<lparr>bElems := (bElems ?r)(e := Some after)\<rparr>"
  have w: "book_ok w" "side_view w = abs_remove (side_view ob) (eOrderID req)"
    "bTicker w = bTicker ob" "bPrecision w = bPrecision ob" "bIndex w (eOrderID req) = None"
    unfolding w_def using W [OF We] R(2,4,6,7) idx by simp_all
  consider (price) "ePrice req \<noteq> oPrice x"
    | (up) "ePrice req = oPrice x" "amount > oAmount x"
    | (down) "ePrice req = oPrice x" "amount < oAmount x"
    | (same) "ePrice req = oPrice x" "amount = oAmount x"
    by linarith
  then show ?thesis
  proof cases
    case price
    have "EditOrderAt ob req t =
        (w, Some \<lparr>edBefore = x, edAfter = after, edRequiresRematch = True\<rparr>)"
      using price i I(1,5)
      by (cases "eAmount req") (simp_all add: EditOrderAt_def Let_def w_def after_def amount_def)
    then show ?thesis
      using w price find by (simp add: abs_edit_def Let_def after_def amount_def)
  next
    case up
    then have some: "eAmount req = Some amount" by (auto simp: amount_def split: option.splits)
    have af: "after = x\<lparr>oAmount := amount, oTimestamp := t\<rparr>" using up by (simp add: after_def)
    have "EditOrderAt ob req t =
        (AddOrder w after, Some \<lparr>edBefore = x, edAfter = after, edRequiresRematch = False\<rparr>)"
      using up i I(1,5) some delta by (simp add: EditOrderAt_def Let_def w_def af)
    moreover have ord: "side (oPosition after) = Some sd" "order_at sd (oPrice after) after"
      using I(6) am by (simp_all add: af order_at_def)
    moreover have "bIndex w (oOrderID after) = None" using w(5) I(2) by (simp add: af)
    ultimately show ?thesis
      using AddOrder_ok [OF w(1) ord] AddOrder_view [OF w(1) ord(1)] AddOrder_steps(8,9) [OF w(1) ord(1)]
        w up find by (simp add: abs_edit_def Let_def after_def flip: amount_def)
  next
    case down
    then have some: "eAmount req = Some amount" by (auto simp: amount_def split: option.splits)
    have af: "after = x\<lparr>oAmount := amount, oTimestamp := t\<rparr>" using down by (simp add: after_def)
    define u where "u = upd_level l (\<lambda>v. v\<lparr>lTotalAmount := wrap64 (lTotalAmount v +
        (oAmount after - oAmount (elem_order ob e)))\<rparr>) (ob\<lparr>bElems := (bElems ob)(e := Some after)\<rparr>)"
    have "EditOrderAt ob req t =
        (u, Some \<lparr>edBefore = x, edAfter = after, edRequiresRematch = False\<rparr>)"
      using down i I(1,5) some delta by (simp add: EditOrderAt_def Let_def u_def af flip: x_def)
    moreover have ord: "order_at sd (oPrice x) after" "oOrderID after = oOrderID (elem_order ob e)"
      using I(6) am by (simp_all add: af order_at_def x_def)
    ultimately show ?thesis
      using update_in_place [OF ok I(3,4) ord u_def] down find
      by (simp add: abs_edit_def Let_def after_def flip: amount_def)
  next
    case same
    have "EditOrderAt ob req t = (ob, None)"
      using same i I(1,5) by (cases "eAmount req") (simp_all add: EditOrderAt_def Let_def amount_def)
    then show ?thesis
      using same find ok by (simp add: abs_edit_def Let_def flip: amount_def)
  qed
qed

lemma EditOrderAt_refines:
  assumes "book_ok ob" "edit_amount_ok req"
  shows "book_ok (fst (EditOrderAt ob req t))"
    "(side_view (fst (EditOrderAt ob req t)), snd (EditOrderAt ob req t)) = abs_edit (side_view ob) req t"
    "bTicker (fst (EditOrderAt ob req t)) = bTicker ob"
    "bPrecision (fst (EditOrderAt ob req t)) = bPrecision ob"
proof -
  have "book_ok (fst (EditOrderAt ob req t)) \<and>
    (side_view (fst (EditOrderAt ob req t)), snd (EditOrderAt ob req t)) = abs_edit (side_view ob) req t \<and>
    bTicker (fst (EditOrderAt ob req t)) = bTicker ob \<and>
    bPrecision (fst (EditOrderAt ob req t)) = bPrecision ob"
  proof (cases "bIndex ob (eOrderID req)")
    case None
    then show ?thesis
      using assms(1) by (simp add: EditOrderAt_def abs_edit_def abs_find_index [OF assms(1)])
  next
    case (Some e)
    then show ?thesis using EditOrderAt_found [OF assms(1) _ assms(2)] by blast
  qed
  then show "book_ok (fst (EditOrderAt ob req t))"
    "(side_view (fst (EditOrderAt ob req t)), snd (EditOrderAt ob req t)) = abs_edit (side_view ob) req t"
    "bTicker (fst (EditOrderAt ob req t)) = bTicker ob"
    "bPrecision (fst (EditOrderAt ob req t)) = bPrecision ob" by blast+
qed

end
