(* ===== verification/MatchingCorrect.thy ===== *)
theory MatchingCorrect
  imports Matching BookRefinement
begin

text \<open>
  \<open>Match\<close> implements matching on the abstract book: the incoming order walks the opposite
  side's resting orders in price-time priority. \<open>abs_match\<close> is that walk, structurally
  recursive on the list of orders; the properties of executions are proved about it and hold
  of the code by the refinement.
\<close>

definition trade_log ::
  "digest \<Rightarrow> string \<Rightarrow> Precision \<Rightarrow> BookOrder \<Rightarrow> BookOrder \<Rightarrow> QuantityLots \<Rightarrow> QuoteAtoms \<Rightarrow> nat \<Rightarrow> MatchLog" where
  "trade_log H ticker prec taker maker amount quote sequence =
     \<lparr>mExecutionID = GenerateExecutionID H ticker (oOrderID taker) (oTimestamp taker) sequence,
      mTicker = ticker, mPrice = oPrice maker, mAmount = amount, mQuoteAmount = quote,
      mMarketConfigVersion = ConfigVersion prec, mMakerOrderID = oOrderID maker,
      mTakerOrderID = oOrderID taker, mMakerUserID = oUserID maker, mTakerUserID = oUserID taker,
      mMakerSide = oPosition maker, mTakerSide = oPosition taker, mMatchedAt = oTimestamp taker\<rparr>"

record walk =
  wResting :: "BookOrder list"
  wIncoming :: BookOrder
  wLogs :: "MatchLog list"
  wTransitions :: "MakerFillTransition list"
  wErr :: "numeric_error option"

fun abs_match ::
  "digest \<Rightarrow> string \<Rightarrow> Precision \<Rightarrow> BookOrder \<Rightarrow> nat \<Rightarrow> BookOrder list \<Rightarrow> walk" where
  "abs_match H ticker prec inc n [] =
     \<lparr>wResting = [], wIncoming = inc, wLogs = [], wTransitions = [], wErr = None\<rparr>"
| "abs_match H ticker prec inc n (m # ms) =
     (if oAmount inc \<le> 0 \<or> \<not> canMatchAtPrice inc (oPrice m) then
        \<lparr>wResting = m # ms, wIncoming = inc, wLogs = [], wTransitions = [], wErr = None\<rparr>
      else
        let t = min (oAmount inc) (oAmount m) in
        case QuoteAmount prec (oPrice m) t of
          Inl err \<Rightarrow> \<lparr>wResting = m # ms, wIncoming = inc, wLogs = [], wTransitions = [], wErr = Some err\<rparr>
        | Inr quote \<Rightarrow>
            let log = trade_log H ticker prec inc m t quote n;
                tr = \<lparr>tOrder = m, tPreviousAmount = oAmount m, tFilledAmount = t,
                      tRemainingAmount = oAmount m - t\<rparr>;
                inc' = inc\<lparr>oAmount := oAmount inc - t\<rparr>
            in if oAmount m > t then
                 \<lparr>wResting = m\<lparr>oAmount := oAmount m - t\<rparr> # ms, wIncoming = inc', wLogs = [log],
                  wTransitions = [tr], wErr = None\<rparr>
               else
                 let w = abs_match H ticker prec inc' (n + 1) ms
                 in w\<lparr>wLogs := log # wLogs w, wTransitions := tr # wTransitions w\<rparr>)"

section \<open>One execution\<close>

text \<open>The heap's root is the level of the best price, and its front the first order of the view.\<close>

lemma best_level:
  assumes ok: "book_ok book" and peek: "PriceHeap_Peek (side_heap sd book) = Some best"
  obtains p e es rest where "map_of (side_levels sd book) p = Some best" "lPrice (bLevels book best) = p"
    "lQueue (bLevels book best) = e # es" "queue_at sd book p = e # es"
    "side_view book sd = elem_order book e # map (elem_order book) es @ rest"
    "bElems book e = Some (elem_order book e)"
proof -
  note S = side_struct_parts [OF book_struct_side [OF book_ok_parts(1) [OF ok], of sd]]
  note C = book_ok_parts(2) [OF ok]
  let ?p = "lPrice (bLevels book best)"
  have b: "side_heap sd book \<noteq> []" "best = side_heap sd book ! 0"
    using peek by (auto simp: PriceHeap_Peek_def split: if_splits)
  then have "best \<in> set (side_heap sd book)" by simp
  then obtain q where "(q, best) \<in> set (side_levels sd book)" using S(4) by force
  moreover then have "q = ?p" using S(5) by blast
  ultimately have mo: "map_of (side_levels sd book) ?p = Some best"
    using S(3) by (simp add: map_of_is_SomeI)
  then have pin: "?p \<in> set (prices_of sd book)" using map_of_prices_of [of sd book ?p] by auto
  have best: "\<not> side_Less sd r ?p" if r: "r \<in> set (prices_of sd book)" for r
  proof -
    obtain l where l: "(r, l) \<in> set (side_levels sd book)" using r by (auto simp: prices_of_def)
    then have "l \<in> set (side_heap sd book)" using S(4) by force
    then obtain k where "k < length (side_heap sd book)" "side_heap sd book ! k = l"
      by (auto simp: in_set_conv_nth)
    then show ?thesis
      using heap_order.heap_root_best [OF side_heap_order S(2)] S(5) [OF l] b(2)
      by (auto simp: prices_def)
  qed
  obtain rest where view: "priority_list sd (prices_of sd book) (orders_at book sd) = orders_at book sd ?p @ rest"
    using priority_list_best [OF book_ok_parts(3) [OF ok] pin best, of "orders_at book sd"] by metis
  have q: "queue_at sd book ?p = lQueue (bLevels book best)" by (simp add: queue_at_def mo)
  have "queue_at sd book ?p \<noteq> []"
    using book_contents_level [OF C, of sd ?p] pin by (simp add: level_ok_def)
  then obtain e es where es: "queue_at sd book ?p = e # es" by (cases "queue_at sd book ?p") auto
  then have "bElems book e = Some (elem_order book e)" using book_contents_elem(2) [OF C, of e sd ?p] by simp
  then show ?thesis
    using that [OF mo refl, of e es rest] es q view by (simp add: side_view_def orders_at_def)
qed

lemma no_level:
  assumes "book_ok book" "PriceHeap_Peek (side_heap sd book) = None"
  shows "side_view book sd = []"
proof -
  have "side_heap sd book = []"
    using assms(2) by (auto simp: PriceHeap_Peek_def split: if_splits)
  then have "side_levels sd book = []"
    using book_struct_side [OF book_ok_parts(1) [OF assms(1)], of sd] by (simp add: side_struct_def)
  then show ?thesis by (cases sd) (simp_all add: side_view_def prices_of_def priority_list_def)
qed

text \<open>The loop's exit conditions, on the view.\<close>

lemma match_candidate_view:
  assumes "book_ok book"
  shows "(case match_candidate book sd inc of
      None \<Rightarrow> (case side_view book sd of [] \<Rightarrow> True
               | m # ms \<Rightarrow> oAmount inc \<le> 0 \<or> \<not> canMatchAtPrice inc (oPrice m))
    | Some (best, e, target) \<Rightarrow>
        0 < oAmount inc \<and> canMatchAtPrice inc (oPrice target) \<and>
        oPrice target = lPrice (bLevels book best) \<and> target = elem_order book e \<and>
        map_of (side_levels sd book) (oPrice target) = Some best \<and>
        e \<in> set (queue_at sd book (oPrice target)) \<and>
        (\<exists>ms. side_view book sd = target # ms))"
proof (cases "PriceHeap_Peek (side_heap sd book)")
  case None
  then show ?thesis using no_level [OF assms None] by (simp add: match_candidate_def)
next
  case (Some best)
  obtain p e es rest where B: "map_of (side_levels sd book) p = Some best" "lPrice (bLevels book best) = p"
    "lQueue (bLevels book best) = e # es" "queue_at sd book p = e # es"
    "side_view book sd = elem_order book e # map (elem_order book) es @ rest"
    "bElems book e = Some (elem_order book e)"
    using best_level [OF assms Some] by metis
  have "oPrice (elem_order book e) = p"
    using book_contents_elem(3) [OF book_ok_parts(2) [OF assms], of e sd p] B(4) by (simp add: order_at_def)
  then show ?thesis
    using B Some by (simp add: match_candidate_def Queue_Front_def)
qed

lemma head_id_unique:
  assumes ok: "book_ok book" and view: "side_view book sd = m # ms"
  shows "abs_remove (side_view book) (oOrderID m) = (side_view book)(sd := ms)"
    "oOrderID m' = oOrderID m \<Longrightarrow> abs_replace (side_view book) m' = (side_view book)(sd := m' # ms)"
proof -
  have m: "m \<in> set (side_view book sd)" using view by simp
  have other: "oOrderID x \<noteq> oOrderID m" if "s \<noteq> sd" "x \<in> set (side_view book s)" for s x
  proof
    assume "oOrderID x = oOrderID m"
    then have "x = m" using view_id_index [OF ok m] view_id_index [OF ok that(2)] by auto
    then show False
      using side_view_order [OF ok m] side_view_order [OF ok that(2)] that(1) by (simp add: order_at_def)
  qed
  have same: "oOrderID x \<noteq> oOrderID m" if "x \<in> set ms" for x
    using side_view_ids [OF ok, of sd] that unfolding view by (auto simp: image_iff)
  show "abs_remove (side_view book) (oOrderID m) = (side_view book)(sd := ms)"
  proof
    fix s
    show "abs_remove (side_view book) (oOrderID m) s = ((side_view book)(sd := ms)) s"
      using other [of s] same by (cases "s = sd") (auto simp: abs_remove_def view filter_id_conv)
  qed
  show "abs_replace (side_view book) m' = (side_view book)(sd := m' # ms)" if "oOrderID m' = oOrderID m"
  proof
    fix s
    show "abs_replace (side_view book) m' s = ((side_view book)(sd := m' # ms)) s"
      using other [of s] same that by (cases "s = sd") (auto simp: abs_replace_def view intro: map_idI)
  qed
qed

lemma field_order:
  "ob\<lparr>bIndex := I, bLevels := m\<rparr> = ob\<lparr>bLevels := m, bIndex := I\<rparr>"
  "v\<lparr>lQueue := q, lTotalAmount := a\<rparr> = v\<lparr>lTotalAmount := a, lQueue := q\<rparr>"
  by (cases ob; cases v; simp)+

lemma fill_maker_all:
  assumes ok: "book_ok book" and e: "e \<in> set (queue_at sd book p)"
    and l: "map_of (side_levels sd book) p = Some best" and view: "side_view book sd = elem_order book e # ms"
  defines "m \<equiv> elem_order book e"
  defines "book' \<equiv> fill_maker book sd best e m (oAmount m)"
  shows "book_ok book'" "side_view book' = (side_view book)(sd := ms)"
    "bTicker book' = bTicker book" "bPrecision book' = bPrecision book"
proof -
  have F: "book' = drop_if_empty sd best
      (upd_level best (\<lambda>v. v\<lparr>lQueue := Queue_Remove (lQueue v) e,
          lTotalAmount := wrap64 (lTotalAmount v - oAmount (elem_order book e))\<rparr>)
        (book\<lparr>bElems := (bElems book)(e := Some (m\<lparr>oAmount := 0\<rparr>)),
          bIndex := (bIndex book)(oOrderID (elem_order book e) := None)\<rparr>))"
    by (simp add: book'_def fill_maker_def Let_def drop_if_empty_def upd_level_def m_def field_order)
  note D = detach_element [OF ok e l refl F]
  show "book_ok book'" "bTicker book' = bTicker book" "bPrecision book' = bPrecision book"
    by (rule D)+
  have "side_view book' = abs_remove (side_view book) (oOrderID (elem_order book e))"
    by (rule detach_view [OF ok e D(7) D(8)]) (simp add: D(2))
  then show "side_view book' = (side_view book)(sd := ms)"
    using head_id_unique(1) [OF ok view] by simp
qed

lemma fill_maker_part:
  fixes t :: int
  assumes ok: "book_ok book" and e: "e \<in> set (queue_at sd book p)"
    and l: "map_of (side_levels sd book) p = Some best" and view: "side_view book sd = elem_order book e # ms"
  defines "m \<equiv> elem_order book e"
  defines "book' \<equiv> fill_maker book sd best e m t"
  assumes t: "0 < t" "t < oAmount m"
  shows "book_ok book'" "side_view book' = (side_view book)(sd := m\<lparr>oAmount := oAmount m - t\<rparr> # ms)"
    "bTicker book' = bTicker book" "bPrecision book' = bPrecision book"
proof -
  let ?m = "m\<lparr>oAmount := oAmount m - t\<rparr>"
  have m: "order_at sd p m" using book_contents_elem(3) [OF book_ok_parts(2) [OF ok] e] by (simp add: m_def)
  then have i: "int64 (oAmount m)" "0 < oAmount m" by (simp_all add: order_at_def)
  have w: "wrap64 (oAmount m - t) = oAmount m - t"
    using i t by (intro wrap64_id) (simp add: int64_def min_int64_def)
  have ne: "lQueue (bLevels book best) \<noteq> []" using e l by (auto simp: queue_at_def)
  have "int64 (oAmount m - t)" using i t by (simp add: int64_def min_int64_def)
  then have ord: "order_at sd p ?m" "oOrderID ?m = oOrderID (elem_order book e)"
    using m t by (simp_all add: order_at_def m_def)
  have F: "book' = upd_level best
      (\<lambda>v. v\<lparr>lTotalAmount := wrap64 (lTotalAmount v + (oAmount ?m - oAmount (elem_order book e)))\<rparr>)
      (book\<lparr>bElems := (bElems book)(e := Some ?m)\<rparr>)"
    using w t ne by (simp add: book'_def fill_maker_def Let_def Queue_Len_def m_def)
  note U = update_in_place [OF ok e l ord F]
  show "book_ok book'" "bTicker book' = bTicker book" "bPrecision book' = bPrecision book"
    by (rule U)+
  show "side_view book' = (side_view book)(sd := ?m # ms)"
    using U(2) head_id_unique(2) [OF ok view, of ?m] by (simp add: m_def)
qed

section \<open>The loop\<close>

text \<open>The state the loop reaches is the one the walk over the view describes.\<close>

definition walked :: "book_side \<Rightarrow> match_state \<Rightarrow> walk \<Rightarrow> match_state \<times> numeric_error option \<Rightarrow> bool" where
  "walked sd st w r \<longleftrightarrow>
     book_ok (msBook (fst r)) \<and>
     side_view (msBook (fst r)) = (side_view (msBook st))(sd := wResting w) \<and>
     bTicker (msBook (fst r)) = bTicker (msBook st) \<and>
     bPrecision (msBook (fst r)) = bPrecision (msBook st) \<and>
     msIncoming (fst r) = wIncoming w \<and> msLogs (fst r) = msLogs st @ wLogs w \<and>
     msTransitions (fst r) = msTransitions st @ wTransitions w \<and> snd r = wErr w"

lemma match_log_trade:
  assumes "0 < oAmount (msIncoming st)" "oPrice m = lPrice (bLevels (msBook st) best)"
  shows "match_log H st best m =
    (case QuoteAmount (bPrecision (msBook st)) (oPrice m) (min (oAmount (msIncoming st)) (oAmount m)) of
       Inl err \<Rightarrow> Inl err
     | Inr quote \<Rightarrow> Inr (trade_log H (bTicker (msBook st)) (bPrecision (msBook st)) (msIncoming st) m
         (min (oAmount (msIncoming st)) (oAmount m)) quote (length (msLogs st))))"
proof -
  have "minQuantity a b = min a b" for a b by (simp add: minQuantity_def)
  then show ?thesis
    using assms(2) by (simp add: match_log_def newMatchLog_def trade_log_def split: sum.splits)
qed

lemma match_loop_walk:
  assumes "book_ok (msBook st)" "int64 (oAmount (msIncoming st))"
  shows "walked sd st
    (abs_match H (bTicker (msBook st)) (bPrecision (msBook st)) (msIncoming st) (length (msLogs st))
       (side_view (msBook st) sd)) (match_loop H sd st)"
  using assms
proof (induction "side_view (msBook st) sd" arbitrary: st)
  case Nil
  then have "match_candidate (msBook st) sd (msIncoming st) = None"
    using match_candidate_view [OF Nil.prems(1), where sd = sd and inc = "msIncoming st"] by (auto split: option.splits)
  then show ?case
    using Nil.prems by (simp add: match_loop.simps walked_def flip: Nil.hyps) (simp add: Nil.hyps)
next
  case (Cons m ms)
  let ?inc = "msIncoming st" and ?book = "msBook st"
  note V = match_candidate_view [OF Cons.prems(1), where sd = sd and inc = ?inc]
  show ?case
  proof (cases "match_candidate ?book sd ?inc")
    case None
    then have "oAmount ?inc \<le> 0 \<or> \<not> canMatchAtPrice ?inc (oPrice m)"
      using V by (simp flip: Cons.hyps(2))
    then show ?thesis
      using None Cons.prems by (simp add: match_loop.simps walked_def flip: Cons.hyps(2)) (simp add: Cons.hyps(2))
  next
    case (Some c)
    obtain best e target where c: "c = (best, e, target)" by (cases c)
    then have P: "0 < oAmount ?inc" "canMatchAtPrice ?inc (oPrice m)" "target = m" "m = elem_order ?book e"
      "oPrice m = lPrice (bLevels ?book best)" "map_of (side_levels sd ?book) (oPrice m) = Some best"
      "e \<in> set (queue_at sd ?book (oPrice m))"
      using V Some by (auto simp flip: Cons.hyps(2))
    have view: "side_view ?book sd = elem_order ?book e # ms" using Cons.hyps(2) P(4) by simp
    have m: "0 < oAmount m" "int64 (oAmount m)"
      using book_contents_elem(3) [OF book_ok_parts(2) [OF Cons.prems(1)] P(7)] P(4)
      by (simp_all add: order_at_def)
    let ?t = "min (oAmount ?inc) (oAmount m)"
    show ?thesis
    proof (cases "QuoteAmount (bPrecision ?book) (oPrice m) ?t")
      case (Inl err)
      then have "match_log H st best m = Inl err" using match_log_trade [OF P(1,5), of H] by (simp add: Inl)
      then show ?thesis
        using Some c P(1-3) Inl Cons.prems
        by (simp add: match_loop.simps walked_def flip: Cons.hyps(2)) (simp add: Cons.hyps(2))
    next
      case (Inr quote)
      define log where "log = trade_log H (bTicker ?book) (bPrecision ?book) ?inc m ?t quote (length (msLogs st))"
      have L: "match_log H st best m = Inr log" using match_log_trade [OF P(1,5), of H] by (simp add: Inr log_def)
      let ?st = "match_fill sd st best e m log"
      have step: "match_loop H sd st = match_loop H sd ?st"
        using Some c P(3) L by (simp add: match_loop.simps [of H sd st])
      have mq: "minQuantity a b = min a b" for a b by (simp add: minQuantity_def)
      have winc: "wrap64 (oAmount ?inc - ?t) = oAmount ?inc - ?t"
        "wrap64 (oAmount m - ?t) = oAmount m - ?t"
        using m P(1) Cons.prems(2) by (auto intro!: int64_sub_pos simp: min_def)
      have st: "msBook ?st = fill_maker ?book sd best e m ?t"
        "msIncoming ?st = ?inc\<lparr>oAmount := oAmount ?inc - ?t\<rparr>" "msLogs ?st = msLogs st @ [log]"
        "msTransitions ?st = msTransitions st @ [\<lparr>tOrder = m, tPreviousAmount = oAmount m,
            tFilledAmount = ?t, tRemainingAmount = oAmount m - ?t\<rparr>]"
        by (simp_all add: match_fill_def Let_def mq winc transition_def)
      have "int64 (oAmount ?inc - ?t)" using int64_wrap64 [of "oAmount ?inc - ?t"] unfolding winc(1) .
      then have i64: "int64 (oAmount (msIncoming ?st))" unfolding st(2) by simp
      show ?thesis
      proof (cases "oAmount m > ?t")
        case True
        then have t: "0 < ?t" "?t < oAmount m" "?t = oAmount ?inc" using P(1) m(1) by auto
        note F = fill_maker_part [OF Cons.prems(1) P(7,6) view, where t = ?t, folded P(4), OF t(1,2), folded st(1)]
        have "oAmount (msIncoming ?st) = 0" using t st(2) by simp
        then have "match_candidate (msBook ?st) sd (msIncoming ?st) = None"
          by (simp add: match_candidate_def split: option.splits)
        then have "match_loop H sd st = (?st, None)"
          unfolding step by (simp add: match_loop.simps [of H sd ?st])
        moreover have "abs_match H (bTicker ?book) (bPrecision ?book) ?inc (length (msLogs st)) (m # ms) =
            \<lparr>wResting = m\<lparr>oAmount := oAmount m - ?t\<rparr> # ms, wIncoming = msIncoming ?st, wLogs = [log],
             wTransitions = [\<lparr>tOrder = m, tPreviousAmount = oAmount m, tFilledAmount = ?t,
               tRemainingAmount = oAmount m - ?t\<rparr>], wErr = None\<rparr>"
          using P(1,2) Inr True st(2) by (simp add: Let_def log_def)
        ultimately show ?thesis
          unfolding Cons.hyps(2) [symmetric] walked_def using F st(3,4) by simp
      next
        case False
        then have t: "?t = oAmount m" using P(1) m(1) by auto
        have st1: "msBook ?st = fill_maker ?book sd best e m (oAmount m)" unfolding st(1) t ..
        note F = fill_maker_all [OF Cons.prems(1) P(7,6) view, folded P(4), folded st1]
        have "walked sd ?st
            (abs_match H (bTicker (msBook ?st)) (bPrecision (msBook ?st)) (msIncoming ?st)
               (length (msLogs ?st)) (side_view (msBook ?st) sd)) (match_loop H sd ?st)"
          by (rule Cons.hyps(1) [OF _ F(1) i64]) (simp add: F(2))
        moreover have "abs_match H (bTicker ?book) (bPrecision ?book) ?inc (length (msLogs st)) (m # ms) =
            (let w = abs_match H (bTicker ?book) (bPrecision ?book) (msIncoming ?st)
                   (length (msLogs st) + 1) ms
             in w\<lparr>wLogs := log # wLogs w, wTransitions := \<lparr>tOrder = m, tPreviousAmount = oAmount m,
               tFilledAmount = ?t, tRemainingAmount = oAmount m - ?t\<rparr> # wTransitions w\<rparr>)"
          using P(1,2) Inr False st(2) by (simp add: Let_def log_def)
        moreover have "side_view (msBook ?st) sd = ms" by (simp add: F(2))
        ultimately show ?thesis
          unfolding Cons.hyps(2) [symmetric] step walked_def using F(2-4) st(3,4) by (simp add: Let_def)
      qed
    qed
  qed
qed

section \<open>\<open>Match\<close>\<close>

definition opposite :: "Position \<Rightarrow> book_side option" where
  "opposite position =
     (if position = Bid then Some AskSide else if position = Ask then Some BidSide else None)"

definition walk_result :: "walk \<Rightarrow> MatchResult" where
  "walk_result w =
     \<lparr>rResidual = (if wErr w = None \<and> oAmount (wIncoming w) \<le> 0 then None else Some (wIncoming w)),
      rLogs = wLogs w, rMakerTransitions = wTransitions w, rErr = wErr w\<rparr>"

lemma Match_walk:
  fixes H :: digest
  assumes "book_ok book" "int64 (oAmount incoming)" "opposite (oPosition incoming) = Some sd"
  defines "w \<equiv> abs_match H (bTicker book) (bPrecision book) incoming 0 (side_view book sd)"
  obtains book' where "Match H book incoming = (walk_result w, book', wIncoming w)" "book_ok book'"
    "side_view book' = (side_view book)(sd := wResting w)"
    "bTicker book' = bTicker book" "bPrecision book' = bPrecision book"
proof -
  let ?st = "\<lparr>msBook = book, msIncoming = incoming, msLogs = [], msTransitions = []\<rparr>"
  obtain st err where L: "match_loop H sd ?st = (st, err)" by (cases "match_loop H sd ?st")
  have W: "walked sd ?st w (st, err)"
    using match_loop_walk [of ?st sd H] assms(1,2) L unfolding w_def by simp
  have "sd = (if oPosition incoming = Bid then AskSide else BidSide)"
    "oPosition incoming = Bid \<or> oPosition incoming = Ask"
    using assms(3) by (auto simp: opposite_def split: if_splits)
  then have "Match H book incoming = (walk_result w, msBook st, wIncoming w)"
    using L W by (auto simp: Match_def Let_def walk_result_def walked_def split: if_splits)
  then show ?thesis using that W by (simp add: walked_def)
qed

lemma Match_result:
  assumes "book_ok book" "int64 (oAmount incoming)" "opposite (oPosition incoming) = Some sd"
    "Match H book incoming = (res, book', incoming')"
  shows "res = walk_result (abs_match H (bTicker book) (bPrecision book) incoming 0 (side_view book sd))"
    "incoming' = wIncoming (abs_match H (bTicker book) (bPrecision book) incoming 0 (side_view book sd))"
    "book_ok book'" "bTicker book' = bTicker book" "bPrecision book' = bPrecision book"
    "side_view book' = (side_view book)
      (sd := wResting (abs_match H (bTicker book) (bPrecision book) incoming 0 (side_view book sd)))"
  using Match_walk [OF assms(1-3), of H] unfolding assms(4) by (metis prod.inject)+

section \<open>What a walk does\<close>

lemma canMatch_amount [simp]: "canMatchAtPrice (inc\<lparr>oAmount := a\<rparr>) p = canMatchAtPrice inc p"
  by (simp add: canMatchAtPrice_def)

text \<open>The incoming order changes in its amount only.\<close>

lemma abs_match_incoming:
  "\<exists>a. wIncoming (abs_match H ticker prec inc n xs) = inc\<lparr>oAmount := a\<rparr>"
proof (induction xs arbitrary: inc n)
  case Nil
  show ?case by simp (metis BookOrder.surjective BookOrder.update_convs(7))
next
  case (Cons m ms)
  have self: "\<exists>a. inc = inc\<lparr>oAmount := a\<rparr>" by (metis BookOrder.surjective BookOrder.update_convs(7))
  obtain a where "wIncoming (abs_match H ticker prec (inc\<lparr>oAmount := oAmount inc - min (oAmount inc) (oAmount m)\<rparr>) (n + 1) ms)
      = inc\<lparr>oAmount := a\<rparr>"
    using Cons.IH [of "inc\<lparr>oAmount := oAmount inc - min (oAmount inc) (oAmount m)\<rparr>" "n + 1"] by auto
  then show ?case using self by (auto simp: Let_def split: sum.splits)
qed

text \<open>Quantity is conserved, on both sides.\<close>

definition total_amount :: "BookOrder list \<Rightarrow> int" where
  "total_amount os = (\<Sum>x\<leftarrow>os. oAmount x)"

lemma abs_match_conserves:
  shows "oAmount inc = oAmount (wIncoming (abs_match H ticker prec inc n xs)) +
      (\<Sum>l\<leftarrow>wLogs (abs_match H ticker prec inc n xs). mAmount l) \<and>
    total_amount xs = total_amount (wResting (abs_match H ticker prec inc n xs)) +
      (\<Sum>l\<leftarrow>wLogs (abs_match H ticker prec inc n xs). mAmount l)"
proof (induction xs arbitrary: inc n)
  case (Cons m ms)
  show ?case
    using Cons.IH [of "inc\<lparr>oAmount := oAmount inc - min (oAmount inc) (oAmount m)\<rparr>" "n + 1"]
    by (auto simp: Let_def total_amount_def trade_log_def min_def split: sum.splits)
qed (simp add: total_amount_def)

lemma abs_match_nonneg:
  "0 \<le> oAmount inc \<Longrightarrow> 0 \<le> oAmount (wIncoming (abs_match H ticker prec inc n xs))"
proof (induction xs arbitrary: inc n)
  case (Cons m ms)
  show ?case
    using Cons.IH [of "inc\<lparr>oAmount := oAmount inc - min (oAmount inc) (oAmount m)\<rparr>" "n + 1"] Cons.prems
    by (auto simp: Let_def split: sum.splits)
qed simp

text \<open>
  The \<open>k\<close>-th execution is with the \<open>k\<close>-th resting order, at its price, within the incoming
  order's limit, for a positive amount no larger than the maker's.
\<close>

definition fair_trade :: "Precision \<Rightarrow> BookOrder \<Rightarrow> BookOrder \<Rightarrow> MatchLog \<Rightarrow> bool" where
  "fair_trade prec inc m l \<longleftrightarrow>
     mMakerOrderID l = oOrderID m \<and> mTakerOrderID l = oOrderID inc \<and> mPrice l = oPrice m \<and>
     canMatchAtPrice inc (mPrice l) \<and> 0 < mAmount l \<and> mAmount l \<le> oAmount m \<and>
     mMatchedAt l = oTimestamp inc \<and> QuoteAmount prec (mPrice l) (mAmount l) = Inr (mQuoteAmount l)"

lemma abs_match_trades:
  assumes "\<And>x. x \<in> set xs \<Longrightarrow> 0 < oAmount x"
  shows "list_all2 (fair_trade prec inc)
      (take (length (wLogs (abs_match H ticker prec inc n xs))) xs) (wLogs (abs_match H ticker prec inc n xs))"
  using assms
proof (induction xs arbitrary: inc n)
  case (Cons m ms)
  have fair: "fair_trade prec (inc\<lparr>oAmount := a\<rparr>) = fair_trade prec inc" for a
    by (simp add: fair_trade_def fun_eq_iff)
  show ?case
    using Cons.IH [of "inc\<lparr>oAmount := oAmount inc - min (oAmount inc) (oAmount m)\<rparr>" "n + 1"]
      Cons.prems [of m] Cons.prems
    by (auto simp: Let_def fair trade_log_def fair_trade_def [of _ _ m] split: sum.splits)
qed simp

lemma abs_match_ids:
  "map mExecutionID (wLogs (abs_match H ticker prec inc n xs)) =
   map (GenerateExecutionID H ticker (oOrderID inc) (oTimestamp inc))
     [n..<n + length (wLogs (abs_match H ticker prec inc n xs))]"
proof (induction xs arbitrary: inc n)
  case (Cons m ms)
  have cons: "map f [k..<Suc (k + j)] = f k # map f [Suc k..<Suc (k + j)]" for f :: "nat \<Rightarrow> string" and k j
    by (simp add: upt_conv_Cons del: upt_Suc)
  have one: "map f [k..<Suc k] = [f k]" for f :: "nat \<Rightarrow> string" and k by simp
  show ?case
    using Cons.IH [of "inc\<lparr>oAmount := oAmount inc - min (oAmount inc) (oAmount m)\<rparr>" "n + 1"]
    by (auto simp: Let_def trade_log_def cons one simp del: upt_Suc split: sum.splits)
qed simp

text \<open>Each maker transition is the maker's side of its execution.\<close>

lemma abs_match_transitions:
  assumes "\<And>x. x \<in> set xs \<Longrightarrow> 0 < oAmount x"
  shows "list_all2 (\<lambda>l t. tFilledAmount t = mAmount l \<and> oOrderID (tOrder t) = mMakerOrderID l \<and>
      tPreviousAmount t = oAmount (tOrder t) \<and> 0 \<le> tRemainingAmount t \<and>
      tRemainingAmount t = tPreviousAmount t - tFilledAmount t)
    (wLogs (abs_match H ticker prec inc n xs)) (wTransitions (abs_match H ticker prec inc n xs))"
  using assms
proof (induction xs arbitrary: inc n)
  case (Cons m ms)
  show ?case
    using Cons.IH [of "inc\<lparr>oAmount := oAmount inc - min (oAmount inc) (oAmount m)\<rparr>" "n + 1"] Cons.prems
    by (auto simp: Let_def trade_log_def split: sum.splits)
qed simp

text \<open>Why it stops.\<close>

definition walk_stops :: "Precision \<Rightarrow> BookOrder \<Rightarrow> walk \<Rightarrow> bool" where
  "walk_stops prec inc w \<longleftrightarrow>
     (case wErr w of
        None \<Rightarrow> oAmount (wIncoming w) \<le> 0 \<or>
          (case wResting w of [] \<Rightarrow> True | m # _ \<Rightarrow> \<not> canMatchAtPrice inc (oPrice m))
      | Some err \<Rightarrow>
          (case wResting w of [] \<Rightarrow> False
           | m # _ \<Rightarrow> 0 < oAmount (wIncoming w) \<and> canMatchAtPrice inc (oPrice m) \<and>
               QuoteAmount prec (oPrice m) (min (oAmount (wIncoming w)) (oAmount m)) = Inl err))"

lemma walk_stops_simps [simp]:
  "walk_stops prec (inc\<lparr>oAmount := a\<rparr>) w = walk_stops prec inc w"
  "walk_stops prec inc (w\<lparr>wLogs := ls, wTransitions := ts\<rparr>) = walk_stops prec inc w"
  by (auto simp: walk_stops_def split: option.splits list.splits)

lemma abs_match_stops: "walk_stops prec inc (abs_match H ticker prec inc n xs)"
proof (induction xs arbitrary: inc n)
  case (Cons m ms)
  let ?t = "min (oAmount inc) (oAmount m)"
  note IH = Cons.IH [of "inc\<lparr>oAmount := oAmount inc - ?t\<rparr>" "n + 1", simplified]
  show ?case
  proof (cases "oAmount inc \<le> 0 \<or> \<not> canMatchAtPrice inc (oPrice m)")
    case True
    then show ?thesis by (auto simp: walk_stops_def)
  next
    case False
    show ?thesis
    proof (cases "QuoteAmount prec (oPrice m) ?t")
      case (Inl err)
      then show ?thesis using False by (simp add: walk_stops_def Let_def)
    next
      case (Inr quote)
      show ?thesis
      proof (cases "oAmount m > ?t")
        case True
        then have "oAmount inc < oAmount m" "?t = oAmount inc" by linarith+
        then show ?thesis using False Inr by (simp add: walk_stops_def Let_def)
      next
        case small: False
        then show ?thesis using False Inr IH by (simp add: Let_def)
      qed
    qed
  qed
qed (simp add: walk_stops_def)

section \<open>Termination\<close>

text \<open>
  On any book whatever, the loop makes no more executions than there are orders resting on
  the opposite side, and one more when the last one is only partly filled.
\<close>

lemma match_loop_logs:
  "length (msLogs (fst (match_loop H sd st))) \<le> length (msLogs st) + match_measure sd st"
proof (induction H sd st rule: match_loop.induct)
  case (1 H sd st)
  show ?case
  proof (cases "match_candidate (msBook st) sd (msIncoming st)")
    case None
    then show ?thesis by (simp add: match_loop.simps)
  next
    case (Some c)
    obtain best elem target where c: "c = (best, elem, target)" by (cases c)
    show ?thesis
    proof (cases "match_log H st best target")
      case (Inl err)
      then show ?thesis using Some c by (simp add: match_loop.simps)
    next
      case (Inr log)
      let ?st = "match_fill sd st best elem target log"
      have "match_loop H sd st = match_loop H sd ?st"
        using Some c Inr by (simp add: match_loop.simps [of H sd st])
      moreover have "match_measure sd ?st < match_measure sd st"
        by (rule match_fill_measure) (use Some c in simp)
      moreover have "length (msLogs ?st) = length (msLogs st) + 1"
        by (simp add: match_fill_def Let_def)
      ultimately show ?thesis
        using 1 [OF Some c [symmetric] refl Inr] by simp
    qed
  qed
qed

lemma Match_logs_bound:
  "length (rLogs (fst (Match H book incoming)))
    \<le> max (resting_count BidSide book) (resting_count AskSide book) + 1"
proof -
  let ?st = "\<lparr>msBook = book, msIncoming = incoming, msLogs = [], msTransitions = []\<rparr>"
  have "length (msLogs (fst (match_loop H sd ?st))) \<le> resting_count sd book + 1" for sd
    using match_loop_logs [of H sd ?st] by (simp add: match_measure_def split: if_splits)
  from this [of BidSide] this [of AskSide] show ?thesis
    by (auto simp: Match_def Let_def split: prod.splits if_splits)
qed

section \<open>Prices that no longer cross\<close>

lemma side_view_sorted:
  assumes "book_ok ob"
  shows "sorted_wrt (\<lambda>x y. \<not> side_Less sd (oPrice y) (oPrice x)) (side_view ob sd)"
  unfolding side_view_def
  by (rule priority_list_price_order [OF book_ok_parts(3) [OF assms]])
    (rule orders_at_order(2) [OF assms])

lemma canMatch_better:
  assumes "opposite (oPosition inc) = Some sd" "\<not> side_Less sd p q" "canMatchAtPrice inc p"
  shows "canMatchAtPrice inc q"
  using assms
  by (auto simp: opposite_def canMatchAtPrice_def MinPriceHeap_Less_def MaxPriceHeap_Less_def split: if_splits)

lemma no_cross_all:
  assumes "book_ok ob" "opposite (oPosition inc) = Some sd"
    "case side_view ob sd of [] \<Rightarrow> True | m # _ \<Rightarrow> \<not> canMatchAtPrice inc (oPrice m)"
    "x \<in> set (side_view ob sd)"
  shows "\<not> canMatchAtPrice inc (oPrice x)"
proof (cases "side_view ob sd")
  case (Cons m ms)
  have "x = m \<or> \<not> side_Less sd (oPrice x) (oPrice m)"
    using side_view_sorted [OF assms(1), of sd] assms(4) by (auto simp: Cons)
  then show ?thesis using canMatch_better [OF assms(2), of "oPrice x" "oPrice m"] assms(3) by (auto simp: Cons)
qed (use assms in simp)

text \<open>What an error-free matching leaves does not cross its residual.\<close>

lemma Match_no_cross:
  assumes "book_ok book" "int64 (oAmount incoming)" "opposite (oPosition incoming) = Some sd"
    "Match H book incoming = (res, book', incoming')" "rErr res = None" "rResidual res = Some residual"
    "x \<in> set (side_view book' sd)"
  shows "\<not> canMatchAtPrice residual (oPrice x)"
proof -
  define w where "w = abs_match H (bTicker book) (bPrecision book) incoming 0 (side_view book sd)"
  have W: "res = walk_result w" "book_ok book'" "side_view book' sd = wResting w"
    unfolding w_def using Match_result [OF assms(1-4)] by simp_all
  obtain a where inc: "wIncoming w = incoming\<lparr>oAmount := a\<rparr>"
    using abs_match_incoming unfolding w_def by blast
  have r: "residual = wIncoming w" "wErr w = None" "0 < oAmount (wIncoming w)"
    using assms(5,6) W(1) by (auto simp: walk_result_def split: if_splits)
  have "walk_stops (bPrecision book) incoming w" unfolding w_def by (rule abs_match_stops)
  then have "case side_view book' sd of [] \<Rightarrow> True | m # _ \<Rightarrow> \<not> canMatchAtPrice residual (oPrice m)"
    using r inc W(3) by (auto simp: walk_stops_def split: list.splits)
  moreover have "opposite (oPosition residual) = Some sd" using assms(3) r(1) inc by simp
  ultimately show ?thesis using no_cross_all [OF W(2)] assms(7) by blast
qed

text \<open>What a matching does to the incoming order and to the book, without the walk.\<close>

lemma Match_outcome:
  assumes "book_ok book" "int64 (oAmount incoming)" "opposite (oPosition incoming) = Some sd"
    "0 < oAmount incoming" "Match H book incoming = (res, book', incoming')"
  shows "incoming' = incoming\<lparr>oAmount := oAmount incoming'\<rparr>" "0 \<le> oAmount incoming'"
    "oAmount incoming' \<le> oAmount incoming" "int64 (oAmount incoming')"
    "rResidual res = (if rErr res = None \<and> oAmount incoming' \<le> 0 then None else Some incoming')"
    "length (rMakerTransitions res) \<le> length (rLogs res)"
    "oAmount incoming' = oAmount incoming \<longleftrightarrow> rLogs res = []"
proof -
  define w where "w = abs_match H (bTicker book) (bPrecision book) incoming 0 (side_view book sd)"
  have W: "res = walk_result w" "incoming' = wIncoming w"
    unfolding w_def using Match_result [OF assms(1-3,5)] by simp_all
  have pos: "\<And>x. x \<in> set (side_view book sd) \<Longrightarrow> 0 < oAmount x"
    using side_view_order [OF assms(1)] by (simp add: order_at_def)
  have t: "list_all2 (fair_trade (bPrecision book) incoming)
      (take (length (wLogs w)) (side_view book sd)) (wLogs w)"
    unfolding w_def using abs_match_trades [OF pos] by blast
  have sum: "oAmount incoming = oAmount (wIncoming w) + (\<Sum>l\<leftarrow>wLogs w. mAmount l)"
    unfolding w_def using abs_match_conserves by blast
  have each: "0 < mAmount l" if "l \<in> set (wLogs w)" for l
    using t that unfolding list_all2_conv_all_nth in_set_conv_nth by (auto simp: fair_trade_def)
  have ge: "0 \<le> (\<Sum>l\<leftarrow>ls. mAmount l)" "ls \<noteq> [] \<Longrightarrow> 0 < (\<Sum>l\<leftarrow>ls. mAmount l)"
    if "\<forall>l \<in> set ls. 0 < mAmount l" for ls
    using that by (induction ls) (auto simp: add_pos_nonneg less_imp_le intro: sum_list_nonneg)
  obtain a where "wIncoming w = incoming\<lparr>oAmount := a\<rparr>"
    using abs_match_incoming unfolding w_def by blast
  then show "incoming' = incoming\<lparr>oAmount := oAmount incoming'\<rparr>" using W(2) by simp
  show nn: "0 \<le> oAmount incoming'"
    unfolding W(2) w_def using assms(4) by (intro abs_match_nonneg) simp
  show le: "oAmount incoming' \<le> oAmount incoming" using sum ge(1) [of "wLogs w"] each W(2) by simp
  show "int64 (oAmount incoming')" using nn le assms(2) by (simp add: int64_def min_int64_def)
  show "rResidual res = (if rErr res = None \<and> oAmount incoming' \<le> 0 then None else Some incoming')"
    using W by (simp add: walk_result_def)
  show "length (rMakerTransitions res) \<le> length (rLogs res)"
    using list_all2_lengthD [OF abs_match_transitions [OF pos]] W(1) by (simp add: walk_result_def w_def)
  show "oAmount incoming' = oAmount incoming \<longleftrightarrow> rLogs res = []"
    using sum ge(2) [of "wLogs w"] each W by (cases "wLogs w = []") (auto simp: walk_result_def)
qed

end
