(* ===== verification/BookSnapshot.thy ===== *)
theory BookSnapshot
  imports BookRefinement
begin

text \<open>
  \<open>Snapshot\<close>: the levels it reports are a function of the abstract view, so they depend
  neither on Go's map iteration order nor on how the heap happens to be laid out. A level's
  amount and the running total are sums in \<open>int64\<close>, which wrap around.
\<close>

definition level_of :: "BookOrder list \<Rightarrow> PriceTicks \<Rightarrow> OrderBookLevel" where
  "level_of os p =
     \<lparr>slPrice = p, slAmount = wrap64 (\<Sum>x\<leftarrow>filter (\<lambda>x. oPrice x = p) os. oAmount x),
      slCumulativeAmount = 0\<rparr>"

definition abs_levels :: "BookOrder list \<Rightarrow> int \<Rightarrow> OrderBookLevel list" where
  "abs_levels os depth =
     (let levels = map (level_of os) (remdups_adj (map oPrice os))
      in cumulate 0 (if depth > 0 then take (nat depth) levels else levels))"

lemma best_first_sort_key:
  "distinct ps \<Longrightarrow> sort_key (\<lambda>p. case sd of BidSide \<Rightarrow> - p | AskSide \<Rightarrow> p) ps = best_first sd ps"
proof -
  assume d: "distinct ps"
  have "sorted (map (\<lambda>p. case sd of BidSide \<Rightarrow> - p | AskSide \<Rightarrow> p) (best_first sd ps))"
  proof (cases sd)
    case BidSide
    have "sorted (map uminus (rev xs))" if "sorted xs" for xs :: "int list"
      using that by (induction xs) (auto simp: sorted_append)
    then show ?thesis by (simp add: BidSide)
  qed simp
  moreover have "mset ps = mset (best_first sd ps)" by (cases sd) simp_all
  moreover have "inj_on (\<lambda>p. case sd of BidSide \<Rightarrow> - p | AskSide \<Rightarrow> p) (set ps)"
    by (cases sd) (auto intro: inj_onI)
  ultimately show ?thesis using sort_key_inj_key_eq by blast
qed

lemma remdups_adj_blocks:
  assumes "distinct ps" "\<And>p. p \<in> set ps \<Longrightarrow> q p \<noteq> [] \<and> (\<forall>x \<in> set (q p). f x = p)"
  shows "remdups_adj (map f (concat (map q ps))) = ps"
  using assms
proof (induction ps)
  case (Cons p ps)
  have IH: "remdups_adj (map f (concat (map q ps))) = ps" using Cons by simp
  have block: "remdups_adj (map f xs @ ys) = p # remdups_adj ys"
    if "xs \<noteq> []" "\<forall>x \<in> set xs. f x = p" "ys = [] \<or> hd ys \<noteq> p" for xs ys
    using that
  proof (induction xs)
    case (Cons x xs)
    then show ?case by (cases xs; cases ys) auto
  qed simp
  have "map f (concat (map q ps)) = [] \<or> hd (map f (concat (map q ps))) \<noteq> p"
  proof (cases ps)
    case (Cons r rs)
    then have "r \<noteq> p" "q r \<noteq> []" "\<forall>x \<in> set (q r). f x = r" using Cons.prems by auto
    then show ?thesis using Cons by (cases "q r") auto
  qed simp
  then show ?case using block [of "q p" "map f (concat (map q ps))"] IH Cons.prems by simp
qed simp

lemma filter_blocks:
  assumes "distinct ps" "\<And>p x. p \<in> set ps \<Longrightarrow> x \<in> set (q p) \<Longrightarrow> f x = p" "p \<in> set ps"
  shows "filter (\<lambda>x. f x = p) (concat (map q ps)) = q p"
  using assms
proof (induction ps)
  case (Cons r ps)
  have r: "filter (\<lambda>x. f x = p) (q r) = (if r = p then q r else [])"
    using Cons.prems(2) [of r] by (auto simp: filter_id_conv filter_empty_conv)
  show ?case
  proof (cases "r = p")
    case True
    have "filter (\<lambda>x. f x = p) (concat (map q ps)) = []"
      using Cons.prems True by (auto simp: filter_empty_conv)
    then show ?thesis using True r by simp
  qed (use Cons r in auto)
qed simp

lemma view_prices:
  assumes "book_ok ob"
  shows "remdups_adj (map oPrice (side_view ob sd)) = best_first sd (prices_of sd ob)"
    "p \<in> set (prices_of sd ob) \<Longrightarrow> filter (\<lambda>x. oPrice x = p) (side_view ob sd) = orders_at ob sd p"
proof -
  have d: "distinct (best_first sd (prices_of sd ob))" using book_ok_parts(3) [OF assms] by simp
  show "remdups_adj (map oPrice (side_view ob sd)) = best_first sd (prices_of sd ob)"
    unfolding side_view_def priority_list_def
  proof (rule remdups_adj_blocks [OF d])
    fix p assume "p \<in> set (best_first sd (prices_of sd ob))"
    then have "queue_at sd ob p \<noteq> []"
      using book_contents_level [OF book_ok_parts(2) [OF assms], of sd p] by (simp add: level_ok_def)
    then show "orders_at ob sd p \<noteq> [] \<and> (\<forall>x \<in> set (orders_at ob sd p). oPrice x = p)"
      using orders_at_order(2) [OF assms] by (simp add: orders_at_def)
  qed
  show "filter (\<lambda>x. oPrice x = p) (side_view ob sd) = orders_at ob sd p" if "p \<in> set (prices_of sd ob)"
    unfolding side_view_def priority_list_def
    by (rule filter_blocks [OF d]) (use that orders_at_order(2) [OF assms] in auto)
qed

lemma snapshotLevels_view:
  assumes "book_ok ob"
  shows "snapshotLevels (bLevels ob) (side_levels sd ob) depth (sd = BidSide) =
    abs_levels (side_view ob sd) depth"
proof -
  note S = side_struct_parts [OF book_struct_side [OF book_ok_parts(1) [OF assms], of sd]]
  let ?lev = "level_of (side_view ob sd)"
  have lev: "\<lparr>slPrice = lPrice (bLevels ob l), slAmount = lTotalAmount (bLevels ob l),
      slCumulativeAmount = 0\<rparr> = ?lev p" if m: "(p, l) \<in> set (side_levels sd ob)" for p l
  proof -
    have mo: "map_of (side_levels sd ob) p = Some l" using S(3) m by (simp add: map_of_is_SomeI)
    then have "p \<in> set (prices_of sd ob)" using map_of_prices_of [of sd ob p] by auto
    then have f: "filter (\<lambda>x. oPrice x = p) (side_view ob sd) = orders_at ob sd p"
      by (rule view_prices(2) [OF assms])
    have "lTotalAmount (bLevels ob l) = wrap64 (queue_sum ob (queue_at sd ob p))"
      using book_contents_level [OF book_ok_parts(2) [OF assms], of sd p] mo
      by (simp add: level_ok_def total_at_def)
    then show ?thesis using S(5) [OF m] f by (simp add: level_of_def queue_sum_def orders_at_def o_def)
  qed
  have "map (\<lambda>(_, lvl). \<lparr>slPrice = lPrice (bLevels ob lvl), slAmount = lTotalAmount (bLevels ob lvl),
      slCumulativeAmount = 0\<rparr>) (side_levels sd ob) = map ?lev (prices_of sd ob)"
    unfolding prices_of_def map_map by (rule map_cong [OF refl]) (use lev in auto)
  moreover have "sort_key (\<lambda>v. if sd = BidSide then - slPrice v else slPrice v) (map ?lev (prices_of sd ob)) =
      map ?lev (best_first sd (prices_of sd ob))"
    unfolding sort_key_map best_first_sort_key [OF book_ok_parts(3) [OF assms], symmetric]
    by (cases sd) (simp_all add: level_of_def)
  moreover have "length (best_first sd (prices_of sd ob)) = length (prices_of sd ob)"
    by (cases sd) simp_all
  ultimately show ?thesis
    by (simp add: snapshotLevels_def abs_levels_def Let_def view_prices(1) [OF assms])
qed

text \<open>The running totals are the sums of the amounts so far.\<close>

lemma cumulate_nth:
  assumes "i < length vs"
  shows "cumulate c vs ! i = (vs ! i)\<lparr>slCumulativeAmount := wrap64 (c + (\<Sum>v\<leftarrow>take (i + 1) vs. slAmount v))\<rparr>"
  using assms
proof (induction vs arbitrary: c i)
  case (Cons v vs)
  show ?case
  proof (cases i)
    case (Suc j)
    then show ?thesis using Cons by (simp add: Let_def wrap_simps add.assoc)
  qed (simp add: Let_def)
qed simp

lemma length_cumulate [simp]: "length (cumulate c vs) = length vs"
  by (induction vs arbitrary: c) (simp_all add: Let_def)

lemma cumulate_prices: "map slPrice (cumulate c vs) = map slPrice vs"
  by (induction vs arbitrary: c) (simp_all add: Let_def)

lemma abs_levels_prices:
  "map slPrice (abs_levels os depth) =
    (if depth > 0 then take (nat depth) (remdups_adj (map oPrice os)) else remdups_adj (map oPrice os))"
proof -
  have "slPrice \<circ> level_of os = id" by (simp add: fun_eq_iff level_of_def)
  then show ?thesis by (simp add: abs_levels_def Let_def cumulate_prices take_map)
qed

end
