(* ===== verification/BookProperties.thy ===== *)
theory BookProperties
  imports MatchingCorrect BookSnapshot
begin

text \<open>
  The properties of the order book and of matching, with a small book on which each is
  applied: two asks at 101 and 102 and a bid at 99.
\<close>

definition sample_order :: "string \<Rightarrow> Position \<Rightarrow> int \<Rightarrow> int \<Rightarrow> BookOrder" where
  "sample_order orderID position price amount =
     \<lparr>oTicker = ''BTC-USD'', oOrderID = orderID, oUserID = ''u'', oOrderType = Limit,
      oPosition = position, oPrice = price, oAmount = amount, oTimestamp = 7, oStatus = Pending,
      oNonce = 1\<rparr>"

definition sample_book :: OrderBook where
  "sample_book =
     AddOrder (AddOrder (AddOrder (NewOrderBook ''BTC-USD'')
       (sample_order ''a1'' Ask 101 5)) (sample_order ''a2'' Ask 102 5)) (sample_order ''b1'' Bid 99 4)"

lemma NewOrderBook_view: "side_view (NewOrderBook ticker) = (\<lambda>sd. [])"
proof
  show "side_view (NewOrderBook ticker) sd = []" for sd
    by (cases sd) (simp_all add: side_view_def prices_of_def priority_list_def NewOrderBook_def
        NewOrderBookWithPrecision_def heap_Init_def Let_def)
qed

lemma sample_book_ok: "book_ok sample_book"
  and sample_book_index: "bIndex sample_book = [''a1'' \<mapsto> 0, ''a2'' \<mapsto> 1, ''b1'' \<mapsto> 2]"
  and sample_book_view: "side_view sample_book =
    (\<lambda>sd. case sd of AskSide \<Rightarrow> [sample_order ''a1'' Ask 101 5, sample_order ''a2'' Ask 102 5]
      | BidSide \<Rightarrow> [sample_order ''b1'' Bid 99 4])"
  and sample_book_market: "bTicker sample_book = ''BTC-USD''" "bPrecision sample_book = DefaultPrecision"
proof -
  let ?a1 = "sample_order ''a1'' Ask 101 5" and ?a2 = "sample_order ''a2'' Ask 102 5"
    and ?b1 = "sample_order ''b1'' Bid 99 4"
  let ?o0 = "NewOrderBook ''BTC-USD''"
  have ord: "side (oPosition ?a1) = Some AskSide" "order_at AskSide (oPrice ?a1) ?a1"
    "side (oPosition ?a2) = Some AskSide" "order_at AskSide (oPrice ?a2) ?a2"
    "side (oPosition ?b1) = Some BidSide" "order_at BidSide (oPrice ?b1) ?b1"
    by (simp_all add: sample_order_def side_def order_at_def int64_def min_int64_def max_int64_def)
  have ids: "oOrderID ?a1 = ''a1''" "oOrderID ?a2 = ''a2''" "oOrderID ?b1 = ''b1''"
    by (simp_all add: sample_order_def)
  have 0: "book_ok ?o0" by (simp add: NewOrderBook_def book_ok_new)
  have I0: "bIndex ?o0 = Map.empty" "bNextElem ?o0 = 0"
    by (simp_all add: NewOrderBook_def NewOrderBookWithPrecision_def heap_Init_def Let_def)
  let ?o1 = "AddOrder ?o0 ?a1"
  have 1: "book_ok ?o1" by (rule AddOrder_ok [OF 0 ord(1,2)]) (simp add: I0)
  have I1: "bIndex ?o1 = [''a1'' \<mapsto> 0]" "bNextElem ?o1 = 1"
    using AddOrder_steps(6,7) [OF 0 ord(1)] by (simp_all add: I0 ids)
  let ?o2 = "AddOrder ?o1 ?a2"
  have 2: "book_ok ?o2" by (rule AddOrder_ok [OF 1 ord(3,4)]) (simp add: I1 ids)
  have I2: "bIndex ?o2 = [''a1'' \<mapsto> 0, ''a2'' \<mapsto> 1]" "bNextElem ?o2 = 2"
    using AddOrder_steps(6,7) [OF 1 ord(3)] by (simp_all add: I1 ids)
  show "book_ok sample_book"
    unfolding sample_book_def by (rule AddOrder_ok [OF 2 ord(5,6)]) (simp add: I2 ids)
  show "bIndex sample_book = [''a1'' \<mapsto> 0, ''a2'' \<mapsto> 1, ''b1'' \<mapsto> 2]"
    using AddOrder_steps(6) [OF 2 ord(5)] by (simp add: sample_book_def I2 ids)
  have V: "side_view sample_book = abs_add (abs_add (abs_add (\<lambda>sd. []) ?a1) ?a2) ?b1"
    using AddOrder_view [OF 0 ord(1)] AddOrder_view [OF 1 ord(3)] AddOrder_view [OF 2 ord(5)]
    by (simp add: sample_book_def NewOrderBook_view)
  show "side_view sample_book =
    (\<lambda>sd. case sd of AskSide \<Rightarrow> [?a1, ?a2] | BidSide \<Rightarrow> [?b1])"
    unfolding V by (rule ext) (simp add: abs_add_def ord(1,3,5) priority_insert_def side_def
        sample_order_def MinPriceHeap_Less_def split: book_side.split)
  have "WithDefaults DefaultPrecision = DefaultPrecision"
    by (simp add: WithDefaults_def DefaultPrecision_def)
  then show "bTicker sample_book = ''BTC-USD''" "bPrecision sample_book = DefaultPrecision"
    using AddOrder_steps(8,9) [OF 0 ord(1)] AddOrder_steps(8,9) [OF 1 ord(3)] AddOrder_steps(8,9) [OF 2 ord(5)]
    by (simp_all add: sample_book_def NewOrderBook_def NewOrderBookWithPrecision_def heap_Init_def Let_def)
qed

section \<open>The order book\<close>

lemma abs_find_fresh:
  "book_ok ob \<Longrightarrow> abs_find (side_view ob) orderID = None \<longleftrightarrow> bIndex ob orderID = None"
  by (simp add: abs_find_index)

text \<open>
  C7. \<open>AddOrder\<close> on a correct book, of an order of a known side with a positive \<open>int64\<close> amount, an
  identity and no resting order of the same identity, which the index would lose: the book stays
  correct, and the side's price-time priority list gets the order after every order of a price at
  least as good and before every worse one, while the other side does not change.
\<close>

theorem add_order_correct:
  assumes "book_ok ob" "side (oPosition order) = Some sd" "0 < oAmount order" "int64 (oAmount order)"
    "oOrderID order \<noteq> []" "abs_find (side_view ob) (oOrderID order) = None"
  shows "book_ok (AddOrder ob order) \<and>
    side_view (AddOrder ob order) = (side_view ob)(sd := priority_insert sd order (side_view ob sd))"
proof
  have o: "order_at sd (oPrice order) order" using assms by (simp add: order_at_def)
  have i: "bIndex ob (oOrderID order) = None" using assms abs_find_fresh by blast
  show "book_ok (AddOrder ob order)" by (rule AddOrder_ok [OF assms(1,2) o i])
  show "side_view (AddOrder ob order) = (side_view ob)(sd := priority_insert sd order (side_view ob sd))"
    using AddOrder_view [OF assms(1,2)] assms(2) by (simp add: abs_add_def)
qed

lemma sample_find: "abs_find (side_view sample_book) orderID =
    (if orderID = ''b1'' then Some (sample_order ''b1'' Bid 99 4)
     else if orderID = ''a1'' then Some (sample_order ''a1'' Ask 101 5)
     else if orderID = ''a2'' then Some (sample_order ''a2'' Ask 102 5) else None)"
  by (auto simp: abs_find_def sample_book_view sample_order_def)

lemma add_order_correct_witness:
  "book_ok (AddOrder sample_book (sample_order ''b2'' Bid 100 3)) \<and>
   side_view (AddOrder sample_book (sample_order ''b2'' Bid 100 3)) BidSide =
     [sample_order ''b2'' Bid 100 3, sample_order ''b1'' Bid 99 4]"
proof -
  let ?o = "sample_order ''b2'' Bid 100 3"
  have h: "side (oPosition ?o) = Some BidSide" "0 < oAmount ?o" "int64 (oAmount ?o)" "oOrderID ?o \<noteq> []"
    "abs_find (side_view sample_book) (oOrderID ?o) = None"
    by (simp_all add: sample_find) (simp_all add: sample_order_def side_def int64_def min_int64_def max_int64_def)
  show ?thesis
    using add_order_correct [OF sample_book_ok h]
    by (simp add: sample_book_view priority_insert_def sample_order_def MaxPriceHeap_Less_def)
qed

text \<open>
  C9. \<open>RemoveOrder\<close> on a correct book returns the resting order of that identity, if there is
  one, and takes exactly it off its side; every other order keeps its place and the book stays
  correct. For an unknown identity nothing changes.
\<close>

theorem cancel_order_correct:
  assumes "book_ok ob"
  shows "book_ok (fst (RemoveOrder ob orderID)) \<and>
    snd (RemoveOrder ob orderID) = abs_find (side_view ob) orderID \<and>
    side_view (fst (RemoveOrder ob orderID)) sd =
      filter (\<lambda>x. oOrderID x \<noteq> orderID) (side_view ob sd)"
  using RemoveOrder_refines [OF assms, of orderID] by (simp_all add: abs_remove_def)

lemma cancel_order_correct_witness:
  "snd (RemoveOrder sample_book ''a1'') = Some (sample_order ''a1'' Ask 101 5) \<and>
   side_view (fst (RemoveOrder sample_book ''a1'')) AskSide = [sample_order ''a2'' Ask 102 5]"
  using cancel_order_correct [OF sample_book_ok, of "''a1''"]
  by (simp add: sample_find) (simp add: sample_book_view sample_order_def)

text \<open>
  C10. \<open>EditOrderAt\<close> on a correct book, for a request whose amount, if given, is a positive
  \<open>int64\<close>, is the amendment of the abstract book: a new price detaches the order for a
  rematch, a larger amount sends it to the back of its price, a smaller one keeps its place,
  and a request that changes nothing or names no resting order has no result and no effect.
\<close>

theorem edit_order_correct:
  assumes "book_ok ob" "edit_amount_ok req"
  shows "book_ok (fst (EditOrderAt ob req t)) \<and>
    (side_view (fst (EditOrderAt ob req t)), snd (EditOrderAt ob req t)) =
      abs_edit (side_view ob) req t"
  using EditOrderAt_refines [OF assms] by simp_all

lemma edit_order_correct_witness:
  "let req = \<lparr>eCommandID = ''c'', eTicker = ''BTC-USD'', eOrderID = ''a1'', ePrice = 101, eAmount = Some 9\<rparr>;
       ob = fst (EditOrderAt sample_book req 8)
   in book_ok ob \<and> side_view ob AskSide =
     [(sample_order ''a1'' Ask 101 5)\<lparr>oAmount := 9, oTimestamp := 8\<rparr>, sample_order ''a2'' Ask 102 5]"
proof -
  let ?req = "\<lparr>eCommandID = ''c'', eTicker = ''BTC-USD'', eOrderID = ''a1'', ePrice = 101, eAmount = Some 9\<rparr>"
  have a: "edit_amount_ok ?req" by (simp add: edit_amount_ok_def int64_def min_int64_def max_int64_def)
  have e: "fst (abs_edit (side_view sample_book) ?req 8) AskSide =
      [(sample_order ''a1'' Ask 101 5)\<lparr>oAmount := 9, oTimestamp := 8\<rparr>, sample_order ''a2'' Ask 102 5]"
    by (simp add: abs_edit_def sample_find Let_def)
      (simp add: sample_book_view sample_order_def abs_add_def abs_remove_def side_def
        priority_insert_def MinPriceHeap_Less_def)
  show ?thesis
    using edit_order_correct [OF sample_book_ok a, of 8] e by (simp add: Let_def) (metis fst_conv)
qed

text \<open>
  C17. \<open>Snapshot\<close> of a correct book reports the aggregated levels of the abstract view: they do
  not depend on Go's map iteration order or on the layout of the heaps. Bids come in falling
  and asks in rising order of price, at most \<open>depth\<close> of them when \<open>depth\<close> is positive.
\<close>

theorem snapshot_of_view:
  assumes "book_ok ob"
  shows "Snapshot ob depth =
      \<lparr>snTicker = bTicker ob, snBids = abs_levels (side_view ob BidSide) depth,
       snAsks = abs_levels (side_view ob AskSide) depth\<rparr> \<and>
    sorted_wrt (>) (map slPrice (snBids (Snapshot ob depth))) \<and>
    sorted_wrt (<) (map slPrice (snAsks (Snapshot ob depth))) \<and>
    (0 < depth \<longrightarrow> int (length (snBids (Snapshot ob depth))) \<le> depth)"
proof -
  have S: "Snapshot ob depth =
      \<lparr>snTicker = bTicker ob, snBids = abs_levels (side_view ob BidSide) depth,
       snAsks = abs_levels (side_view ob AskSide) depth\<rparr>"
    using snapshotLevels_view [OF assms, of BidSide depth] snapshotLevels_view [OF assms, of AskSide depth]
    by (simp add: Snapshot_def)
  have sorted: "sorted_wrt (side_Less sd) (map slPrice (abs_levels (side_view ob sd) depth))" for sd
    unfolding abs_levels_prices view_prices(1) [OF assms]
    using best_first_sorted [OF book_ok_parts(3) [OF assms]] by (simp add: sorted_wrt_take)
  have eq: "side_Less BidSide = (>)" "side_Less AskSide = (<)"
    by (simp_all add: fun_eq_iff MaxPriceHeap_Less_def MinPriceHeap_Less_def)
  have len: "0 < depth \<Longrightarrow> int (length (abs_levels (side_view ob BidSide) depth)) \<le> depth"
    by (simp add: abs_levels_def Let_def)
  show ?thesis
    using sorted [of BidSide] sorted [of AskSide] len unfolding eq S by simp
qed

lemma snapshot_of_view_witness:
  "snAsks (Snapshot sample_book 0) =
     [\<lparr>slPrice = 101, slAmount = 5, slCumulativeAmount = 5\<rparr>,
      \<lparr>slPrice = 102, slAmount = 5, slCumulativeAmount = 10\<rparr>]"
  using snapshot_of_view [OF sample_book_ok, of 0]
  by (simp add: abs_levels_def level_of_def sample_book_view sample_order_def Let_def wrap64_def)

section \<open>Matching\<close>

text \<open>
  C8. \<open>Match\<close> on a correct book implements the walk of the incoming order over the opposite
  side's orders in price-time priority: its logs, its maker transitions, its residual and its
  error are the walk's, the opposite side is what the walk leaves, the order's own side does
  not change and the book stays correct.
\<close>

theorem match_refines_walk:
  assumes "book_ok book" "int64 (oAmount incoming)" "opposite (oPosition incoming) = Some sd"
  shows "\<exists>book' w. w = abs_match H (bTicker book) (bPrecision book) incoming 0 (side_view book sd) \<and>
    Match H book incoming = (walk_result w, book', wIncoming w) \<and> book_ok book' \<and>
    side_view book' = (side_view book)(sd := wResting w)"
  using Match_walk [OF assms, of H] by metis

definition sample_taker :: BookOrder where
  "sample_taker = sample_order ''t1'' Bid 101 7"

lemma sample_taker_ok:
  "int64 (oAmount sample_taker)" "opposite (oPosition sample_taker) = Some AskSide" "0 \<le> oAmount sample_taker"
  by (simp_all add: sample_taker_def sample_order_def opposite_def int64_def min_int64_def max_int64_def)

lemma sample_quote: "QuoteAmount DefaultPrecision 101 5 = Inr 0"
  by code_simp

lemma sample_walk: "abs_match (\<lambda>s. s) (bTicker sample_book) (bPrecision sample_book) sample_taker 0
    (side_view sample_book AskSide) =
  \<lparr>wResting = [sample_order ''a2'' Ask 102 5], wIncoming = sample_taker\<lparr>oAmount := 2\<rparr>,
   wLogs = [trade_log (\<lambda>s. s) ''BTC-USD'' DefaultPrecision sample_taker (sample_order ''a1'' Ask 101 5) 5 0 0],
   wTransitions = [\<lparr>tOrder = sample_order ''a1'' Ask 101 5, tPreviousAmount = 5, tFilledAmount = 5,
     tRemainingAmount = 0\<rparr>], wErr = None\<rparr>"
  by (simp add: sample_book_view sample_book_market sample_taker_def sample_order_def canMatchAtPrice_def
      sample_quote Let_def)

lemma match_refines_walk_witness:
  "fst (Match (\<lambda>s. s) sample_book sample_taker) =
     \<lparr>rResidual = Some (sample_taker\<lparr>oAmount := 2\<rparr>),
      rLogs = [trade_log (\<lambda>s. s) ''BTC-USD'' DefaultPrecision sample_taker
        (sample_order ''a1'' Ask 101 5) 5 0 0],
      rMakerTransitions = [\<lparr>tOrder = sample_order ''a1'' Ask 101 5, tPreviousAmount = 5,
        tFilledAmount = 5, tRemainingAmount = 0\<rparr>], rErr = None\<rparr>"
  using match_refines_walk [OF sample_book_ok sample_taker_ok(1,2), of "\<lambda>s. s"]
  unfolding sample_walk by (auto simp: walk_result_def)

text \<open>
  C13. Quantity is conserved: what the incoming order loses is what the executions trade, and
  so is what the opposite side loses; the other side keeps every order. Nothing goes negative.
\<close>

theorem match_conserves_quantity:
  assumes "book_ok book" "int64 (oAmount incoming)" "opposite (oPosition incoming) = Some sd"
    "0 \<le> oAmount incoming" "Match H book incoming = (res, book', incoming')"
  shows "oAmount incoming = oAmount incoming' + (\<Sum>l\<leftarrow>rLogs res. mAmount l) \<and>
    total_amount (side_view book sd) = total_amount (side_view book' sd) + (\<Sum>l\<leftarrow>rLogs res. mAmount l) \<and>
    0 \<le> oAmount incoming' \<and> (\<forall>sd'. sd' \<noteq> sd \<longrightarrow> side_view book' sd' = side_view book sd')"
proof -
  define w where "w = abs_match H (bTicker book) (bPrecision book) incoming 0 (side_view book sd)"
  have W: "res = walk_result w" "incoming' = wIncoming w" "side_view book' = (side_view book)(sd := wResting w)"
    unfolding w_def using Match_result [OF assms(1-3,5)] by simp_all
  then show ?thesis
    using abs_match_conserves [of incoming H "bTicker book" "bPrecision book" 0 "side_view book sd", folded w_def]
      abs_match_nonneg [OF assms(4), of H "bTicker book" "bPrecision book" 0 "side_view book sd", folded w_def]
    by (simp add: walk_result_def)
qed

lemma match_conserves_quantity_witness:
  "\<exists>res book' incoming'. Match (\<lambda>s. s) sample_book sample_taker = (res, book', incoming') \<and>
     7 = oAmount incoming' + (\<Sum>l\<leftarrow>rLogs res. mAmount l) \<and>
     10 = total_amount (side_view book' AskSide) + (\<Sum>l\<leftarrow>rLogs res. mAmount l)"
proof -
  obtain res book' incoming' where M: "Match (\<lambda>s. s) sample_book sample_taker = (res, book', incoming')"
    by (cases "Match (\<lambda>s. s) sample_book sample_taker")
  have "oAmount sample_taker = 7" "total_amount (side_view sample_book AskSide) = 10"
    by (simp_all add: sample_taker_def sample_order_def total_amount_def sample_book_view)
  then show ?thesis
    using match_conserves_quantity [OF sample_book_ok sample_taker_ok M] M by auto
qed

text \<open>
  C12. Price-time priority and the limit are respected: the \<open>k\<close>-th execution is with the
  \<open>k\<close>-th resting order of the opposite side, at that order's price, which the incoming
  order's limit allows, for a positive amount of at most what was resting, with the quote
  amount of the market's precision and the execution identity of sequence number \<open>k\<close>.
\<close>

theorem match_trades_fair:
  assumes "book_ok book" "int64 (oAmount incoming)" "opposite (oPosition incoming) = Some sd"
    "Match H book incoming = (res, book', incoming')"
  shows "list_all2 (fair_trade (bPrecision book) incoming)
      (take (length (rLogs res)) (side_view book sd)) (rLogs res) \<and>
    map mExecutionID (rLogs res) =
      map (GenerateExecutionID H (bTicker book) (oOrderID incoming) (oTimestamp incoming))
        [0..<length (rLogs res)]"
proof -
  have "rLogs res = wLogs (abs_match H (bTicker book) (bPrecision book) incoming 0 (side_view book sd))"
    unfolding Match_result(1) [OF assms] by (simp add: walk_result_def)
  moreover have "0 < oAmount x" if "x \<in> set (side_view book sd)" for x
    using side_view_order [OF assms(1) that] by (simp add: order_at_def)
  ultimately show ?thesis
    using abs_match_trades [of "side_view book sd" "bPrecision book" incoming]
      abs_match_ids [of H "bTicker book" "bPrecision book" incoming 0 "side_view book sd"] by simp
qed

lemma match_trades_fair_witness:
  "\<exists>res book' incoming'. Match (\<lambda>s. s) sample_book sample_taker = (res, book', incoming') \<and>
     list_all2 (fair_trade DefaultPrecision sample_taker)
       (take (length (rLogs res)) (side_view sample_book AskSide)) (rLogs res)"
proof -
  obtain res book' incoming' where M: "Match (\<lambda>s. s) sample_book sample_taker = (res, book', incoming')"
    by (cases "Match (\<lambda>s. s) sample_book sample_taker")
  then show ?thesis
    using match_trades_fair [OF sample_book_ok sample_taker_ok(1,2) M] by (auto simp: sample_book_market)
qed

text \<open>
  C14. Matching goes as far as it can: when it ends without an error and leaves a residual, no
  order still resting on the opposite side is at a price the residual could trade at. For a
  market order the opposite side is then empty.
\<close>

theorem match_leaves_no_cross:
  assumes "book_ok book" "int64 (oAmount incoming)" "opposite (oPosition incoming) = Some sd"
    "Match H book incoming = (res, book', incoming')" "rErr res = None" "rResidual res = Some residual"
  shows "(\<forall>x \<in> set (side_view book' sd). \<not> canMatchAtPrice residual (oPrice x)) \<and>
    (oOrderType incoming = Market \<longrightarrow> side_view book' sd = [])"
proof -
  have nc: "\<not> canMatchAtPrice residual (oPrice x)" if "x \<in> set (side_view book' sd)" for x
    using Match_no_cross [OF assms that] .
  obtain a where "incoming' = incoming\<lparr>oAmount := a\<rparr>"
    using Match_result(2) [OF assms(1-4)] abs_match_incoming by metis
  moreover have "residual = incoming'"
    using assms(5,6) Match_result(1,2) [OF assms(1-4)] by (auto simp: walk_result_def split: if_splits)
  ultimately have "canMatchAtPrice residual p" if "oOrderType incoming = Market" for p
    using that by (simp add: canMatchAtPrice_def)
  then show ?thesis using nc by (metis list.set_intros(1) neq_Nil_conv)
qed

lemma match_leaves_no_cross_witness:
  "\<exists>book'. snd (Match (\<lambda>s. s) sample_book sample_taker) = (book', sample_taker\<lparr>oAmount := 2\<rparr>) \<and>
     side_view book' AskSide = [sample_order ''a2'' Ask 102 5] \<and>
     \<not> canMatchAtPrice (sample_taker\<lparr>oAmount := 2\<rparr>) 102"
proof -
  obtain res book' inc where M: "Match (\<lambda>s. s) sample_book sample_taker = (res, book', inc)"
    by (cases "Match (\<lambda>s. s) sample_book sample_taker")
  note R = Match_result [OF sample_book_ok sample_taker_ok(1,2) M, unfolded sample_walk]
  have inc: "inc = sample_taker\<lparr>oAmount := 2\<rparr>" unfolding R(2) by simp
  have V: "side_view book' AskSide = [sample_order ''a2'' Ask 102 5]" unfolding R(6) by simp
  have res: "rErr res = None" "rResidual res = Some (sample_taker\<lparr>oAmount := 2\<rparr>)"
    unfolding R(1) by (simp_all add: walk_result_def)
  have "\<forall>x \<in> set (side_view book' AskSide). \<not> canMatchAtPrice (sample_taker\<lparr>oAmount := 2\<rparr>) (oPrice x)"
    using match_leaves_no_cross [OF sample_book_ok sample_taker_ok(1,2) M res] by (rule conjunct1)
  then have "\<not> canMatchAtPrice (sample_taker\<lparr>oAmount := 2\<rparr>) 102"
    unfolding V by (simp add: sample_order_def)
  then show ?thesis using V inc unfolding M by simp
qed

text \<open>
  C15. Matching stops with an error exactly at the first execution whose quote amount does not
  fit its type. The error is reported with the residual, the executions before it stand in
  the book, and the offending resting order is still at the head of its side.
\<close>

theorem match_quote_overflow:
  assumes "book_ok book" "int64 (oAmount incoming)" "opposite (oPosition incoming) = Some sd"
    "Match H book incoming = (res, book', incoming')" "rErr res = Some err"
  shows "rResidual res = Some incoming' \<and> 0 < oAmount incoming' \<and>
    (\<exists>m ms. side_view book' sd = m # ms \<and> canMatchAtPrice incoming (oPrice m) \<and>
       QuoteAmount (bPrecision book) (oPrice m) (min (oAmount incoming') (oAmount m)) = Inl err)"
proof -
  define w where "w = abs_match H (bTicker book) (bPrecision book) incoming 0 (side_view book sd)"
  have W: "res = walk_result w" "incoming' = wIncoming w" "side_view book' sd = wResting w"
    unfolding w_def using Match_result [OF assms(1-4)] by simp_all
  have "walk_stops (bPrecision book) incoming w" unfolding w_def by (rule abs_match_stops)
  moreover have "wErr w = Some err" using W(1) assms(5) by (simp add: walk_result_def)
  moreover obtain a where "wIncoming w = incoming\<lparr>oAmount := a\<rparr>"
    using abs_match_incoming unfolding w_def by blast
  ultimately show ?thesis
    unfolding W(1-3) by (cases "wResting w") (simp_all add: walk_stops_def walk_result_def)
qed

definition huge_book :: OrderBook where
  "huge_book = AddOrder (NewOrderBook ''BTC-USD'') (sample_order ''a1'' Ask max_int64 max_int64)"

lemma huge_book_ok: "book_ok huge_book"
  and huge_view: "side_view huge_book AskSide = [sample_order ''a1'' Ask max_int64 max_int64]"
  and huge_market: "bTicker huge_book = ''BTC-USD''" "bPrecision huge_book = DefaultPrecision"
proof -
  let ?o = "sample_order ''a1'' Ask max_int64 max_int64" and ?b = "NewOrderBook ''BTC-USD''"
  have b: "book_ok ?b" by (simp add: NewOrderBook_def book_ok_new)
  have o: "side (oPosition ?o) = Some AskSide" "order_at AskSide (oPrice ?o) ?o"
    by (simp_all add: sample_order_def side_def order_at_def int64_def min_int64_def max_int64_def)
  have "bIndex ?b = Map.empty"
    by (simp add: NewOrderBook_def NewOrderBookWithPrecision_def heap_Init_def Let_def)
  then show "book_ok huge_book" unfolding huge_book_def by (intro AddOrder_ok [OF b o]) simp
  show "side_view huge_book AskSide = [?o]"
    using AddOrder_view [OF b o(1)]
    by (simp add: huge_book_def NewOrderBook_view abs_add_def o(1) priority_insert_def)
  have "WithDefaults DefaultPrecision = DefaultPrecision"
    by (simp add: WithDefaults_def DefaultPrecision_def)
  then show "bTicker huge_book = ''BTC-USD''" "bPrecision huge_book = DefaultPrecision"
    using AddOrder_steps(8,9) [OF b o(1)]
    by (simp_all add: huge_book_def NewOrderBook_def NewOrderBookWithPrecision_def heap_Init_def Let_def)
qed

definition huge_taker :: BookOrder where
  "huge_taker = sample_order ''t1'' Bid max_int64 max_int64"

lemma huge_quote: "\<exists>err. QuoteAmount DefaultPrecision max_int64 max_int64 = Inl err"
proof -
  have "\<not> isl (QuoteAmount DefaultPrecision max_int64 max_int64) \<Longrightarrow> False" by code_simp
  then show ?thesis by (cases "QuoteAmount DefaultPrecision max_int64 max_int64") auto
qed

lemma match_quote_overflow_witness:
  "\<exists>err. rErr (fst (Match (\<lambda>s. s) huge_book huge_taker)) = Some err \<and>
     rResidual (fst (Match (\<lambda>s. s) huge_book huge_taker)) = Some huge_taker"
proof -
  obtain err where q: "QuoteAmount DefaultPrecision max_int64 max_int64 = Inl err"
    using huge_quote by blast
  have t: "int64 (oAmount huge_taker)" "opposite (oPosition huge_taker) = Some AskSide"
    by (simp_all add: huge_taker_def sample_order_def opposite_def int64_def min_int64_def max_int64_def)
  obtain book' where M: "Match (\<lambda>s. s) huge_book huge_taker =
      (walk_result (abs_match (\<lambda>s. s) (bTicker huge_book) (bPrecision huge_book) huge_taker 0
        (side_view huge_book AskSide)), book', wIncoming (abs_match (\<lambda>s. s) (bTicker huge_book)
        (bPrecision huge_book) huge_taker 0 (side_view huge_book AskSide)))"
    using Match_walk [OF huge_book_ok t, of "\<lambda>s. s"] by auto
  have w: "abs_match (\<lambda>s. s) (bTicker huge_book) (bPrecision huge_book) huge_taker 0
      (side_view huge_book AskSide) =
      \<lparr>wResting = [sample_order ''a1'' Ask max_int64 max_int64], wIncoming = huge_taker, wLogs = [],
       wTransitions = [], wErr = Some err\<rparr>"
    unfolding huge_view huge_market
    using q by (simp add: huge_taker_def sample_order_def canMatchAtPrice_def Let_def)
      (simp add: max_int64_def)
  then have e: "rErr (walk_result (abs_match (\<lambda>s. s) (bTicker huge_book) (bPrecision huge_book) huge_taker 0
      (side_view huge_book AskSide))) = Some err" by (simp add: walk_result_def)
  show ?thesis
    using match_quote_overflow [OF huge_book_ok t M e] e unfolding M w by (simp add: walk_result_def)
qed

text \<open>
  C16. The matching loop ends on every book, correct or not: it makes at most one execution more
  than there are orders in the queues of the opposite side's levels.
\<close>

theorem match_bounded:
  "length (rLogs (fst (Match H book incoming)))
    \<le> max (resting_count BidSide book) (resting_count AskSide book) + 1"
  by (rule Match_logs_bound)

section \<open>Two orders of one identity\<close>

lemma heap_Push_empty: "heap_Push lt ([], m) l = ([l], m(l := (m l)\<lparr>lIndex := 0\<rparr>))"
  by (simp add: heap_Push_def PriceHeap_Push_def heap_up.simps set_index_def Let_def)

lemma AddOrder_first:
  assumes "oPosition x = Bid \<or> oPosition x = Ask" "int64 (oAmount x)"
  obtains sd where "side (oPosition x) = Some sd" "side_levels sd (AddOrder (NewOrderBook t) x) = [(oPrice x, 0)]"
    "bLevels (AddOrder (NewOrderBook t) x) 0 =
      \<lparr>lPrice = oPrice x, lQueue = [0], lIndex = 0, lTotalAmount = oAmount x\<rparr>"
    "bElems (AddOrder (NewOrderBook t) x) = (\<lambda>_. None)(0 := Some x)"
    "bIndex (AddOrder (NewOrderBook t) x) = [oOrderID x \<mapsto> 0]"
    "bNextElem (AddOrder (NewOrderBook t) x) = 1"
  using assms
  by (auto simp: side_def AddOrder_def NewOrderBook_def NewOrderBookWithPrecision_def Let_def
      ensure_level_def heap_Init_def heap_Push_empty Queue_Push_def upd_level_def wrap64_id split: if_splits)

lemma AddOrder_behind:
  assumes "side (oPosition y) = Some sd" "side_levels sd ob = [(oPrice y, 0)]" "bNextElem ob = 1"
  shows "side_levels sd (AddOrder ob y) = [(oPrice y, 0)]"
    "bLevels (AddOrder ob y) 0 = (bLevels ob 0)\<lparr>lQueue := lQueue (bLevels ob 0) @ [1],
      lTotalAmount := wrap64 (lTotalAmount (bLevels ob 0) + oAmount y)\<rparr>"
    "bElems (AddOrder ob y) = (bElems ob)(1 := Some y)"
    "bIndex (AddOrder ob y) = (bIndex ob)(oOrderID y \<mapsto> 1)"
  using assms by (simp_all add: AddOrder_def ensure_level_def Let_def Queue_Push_def)

text \<open>
  C11. An order's identity leaves out its amount, its command and its time, so a second create of
  the same user, side, price and nonce (zero when a client sends none) is another order under the
  same identity. With both on the book, the identity's cancellation takes the second off and every
  later one finds nothing: the first stays in its level's queue and can no longer be canceled.
\<close>

theorem duplicate_identity_orphans_order:
  assumes "\<And>s. H s \<noteq> []" "cPosition p = Bid \<or> cPosition p = Ask" "int64 (cAmount p)"
  shows "let first = CreateOrderAt H p t;
      second = CreateOrderAt H (p\<lparr>cCommandID := k, cAmount := amount\<rparr>) t';
      (book, canceled) = RemoveOrder (AddOrder (AddOrder (NewOrderBook (cTicker p)) first) second) (oOrderID first)
    in canceled = Some second \<and> RemoveOrder book (oOrderID first) = (book, None) \<and>
      (case level book (cPosition p) (cPrice p) of
         None \<Rightarrow> False
       | Some (l, _) \<Rightarrow> map (bElems book) (lQueue (bLevels book l)) = [Some first] \<and>
           lTotalAmount (bLevels book l) = cAmount p)"
proof -
  let ?x = "CreateOrderAt H p t" and ?y = "CreateOrderAt H (p\<lparr>cCommandID := k, cAmount := amount\<rparr>) t'"
  have fields: "oPosition ?x = cPosition p" "oAmount ?x = cAmount p" "oPrice ?x = cPrice p"
    "oPosition ?y = cPosition p" "oPrice ?y = cPrice p" "oAmount ?y = amount" "oOrderID ?y = oOrderID ?x"
    "oOrderID ?x \<noteq> []"
    using assms(1) by (simp_all add: CreateOrderAt_def GenerateOrderID_def)
  obtain sd where sd: "side (cPosition p) = Some sd"
    and X: "side_levels sd (AddOrder (NewOrderBook (cTicker p)) ?x) = [(cPrice p, 0)]"
      "bLevels (AddOrder (NewOrderBook (cTicker p)) ?x) 0 =
        \<lparr>lPrice = cPrice p, lQueue = [0], lIndex = 0, lTotalAmount = cAmount p\<rparr>"
      "bElems (AddOrder (NewOrderBook (cTicker p)) ?x) = (\<lambda>_. None)(0 := Some ?x)"
      "bIndex (AddOrder (NewOrderBook (cTicker p)) ?x) = [oOrderID ?x \<mapsto> 0]"
      "bNextElem (AddOrder (NewOrderBook (cTicker p)) ?x) = 1"
    using AddOrder_first [of ?x "cTicker p"] assms(2,3) unfolding fields by blast
  note Y = AddOrder_behind [of ?y sd "AddOrder (NewOrderBook (cTicker p)) ?x", unfolded fields, OF sd X(1,5)]
  define ob where "ob = AddOrder (AddOrder (NewOrderBook (cTicker p)) ?x) ?y"
  note Y = Y [folded ob_def, unfolded X]
  have total: "wrap64 (wrap64 (cAmount p + amount) - amount) = cAmount p"
    using assms(3) by (simp add: wrap_simps)
  show ?thesis
    using Y sd fields total
    by (simp add: ob_def [symmetric] RemoveOrder_def level_def removeElement_def Let_def Queue_Remove_def Queue_Len_def)
qed

definition repeated_create :: CreateOrderRequest where
  "repeated_create = \<lparr>cCommandID = ''k1'', cTicker = ''BTC-USD'', cUserID = ''u'', cOrderType = Limit,
     cPosition = Bid, cPrice = 100, cAmount = 5, cNonce = 0\<rparr>"

lemma duplicate_identity_orphans_order_witness:
  "case RemoveOrder (AddOrder (AddOrder (NewOrderBook ''BTC-USD'')
       (CreateOrderAt (\<lambda>_. ''d'') repeated_create 1))
       (CreateOrderAt (\<lambda>_. ''d'') (repeated_create\<lparr>cCommandID := ''k2'', cAmount := 7\<rparr>) 2)) ''d'' of
     (book, canceled) \<Rightarrow> map_option oAmount canceled = Some 7 \<and> RemoveOrder book ''d'' = (book, None)"
proof -
  have "oOrderID (CreateOrderAt (\<lambda>_. ''d'') p t) = ''d''" for p t
    by (simp add: CreateOrderAt_def GenerateOrderID_def)
  moreover have "cPosition repeated_create = Bid \<or> cPosition repeated_create = Ask" "int64 (cAmount repeated_create)"
    "cTicker repeated_create = ''BTC-USD''"
    by (simp_all add: repeated_create_def int64_def min_int64_def max_int64_def)
  moreover have "oAmount (CreateOrderAt (\<lambda>_. ''d'') (repeated_create\<lparr>cCommandID := ''k2'', cAmount := 7\<rparr>) 2) = 7"
    by (simp add: CreateOrderAt_def)
  ultimately show ?thesis
    using duplicate_identity_orphans_order [where H = "\<lambda>_. ''d''" and p = repeated_create and k = "''k2''" and
      amount = 7 and t = 1 and t' = 2]
    by (auto simp: Let_def split: prod.splits)
qed

end
