(* ===== verification/Errors.thy ===== *)
theory Errors
  imports Models
begin

text \<open>
  The errors of the program above the numeric package. A sentinel error of the source that is
  wrapped with a message is a constructor with the message; \<open>Wrapped\<close> is \<open>fmt.Errorf\<close> with a
  \<open>%w\<close> around another error, and \<open>error_root\<close> is what \<open>errors.Is\<close> sees through it. A halted
  engine wraps its sentinel only: the cause is printed, not wrapped.
\<close>

datatype error =
    NumericError numeric_error
  | ErrInvalidCommand string
  | ErrCommandConflict string
  | ErrJournalUnavailable
  | ErrInvalidEvent string
  | ErrOrderEventConflict string
  | ErrEventStoreUnavailable
  | ErrInvalidMatchLog string
  | ErrMatchLogConflict string
  | ErrMatchStoreUnavailable
  | ErrInvalidTicker
  | ErrMarketUnavailable
  | ErrInvalidReplaySequence nat string
  | ErrEngineHalted error
  | ErrHaltedSentinel
  | ErrEmptyTicker
  | ErrUnknownTicker string
  | ErrTickerExists string
  | ErrRouterClosed
  | ErrNoRows
  | DatabaseError string
  | ContextError string
  | DecodeError string
  | PlainError string
  | Wrapped string error

fun error_root :: "error \<Rightarrow> error" where
  "error_root (Wrapped msg e) = error_root e"
| "error_root e = e"

end
