(* ===== verification/Json.thy ===== *)
theory Json
  imports Errors
begin

text \<open>
  What the program uses of \<^verbatim>\<open>encoding/json\<close>, on JSON values: the text of a document is
  \<open>encoding/json\<close>'s and the database's own concern, and a \<open>[]byte\<close> payload is the value it
  spells. A number is its literal. Marshalling a string replaces every byte that is not part
  of valid UTF-8 by the replacement character, as Go does; unmarshalling an object assigns
  its members in order, matching a field by name or, failing that, by name up to case, and
  \<open>null\<close> leaves a field as it is.
\<close>

datatype json =
    JNull
  | JBool bool
  | JNum string
  | JStr string
  | JArr "json list"
  | JObj "(string \<times> json) list"

section \<open>UTF-8\<close>

definition byte_in :: "int \<Rightarrow> int \<Rightarrow> char \<Rightarrow> bool" where
  "byte_in lo hi c \<longleftrightarrow> lo \<le> of_char c \<and> of_char c \<le> hi"

definition continuation :: "string \<Rightarrow> nat \<Rightarrow> bool" where
  "continuation s n \<longleftrightarrow> n \<le> length s \<and> list_all (byte_in 128 191) (take n s)"

text \<open>The length of the rune a string starts with, \<open>0\<close> when it starts with an invalid byte.\<close>

definition rune_len :: "string \<Rightarrow> nat" where
  "rune_len s =
     (case s of
        [] \<Rightarrow> 0
      | c # cs \<Rightarrow>
          if byte_in 0 127 c then 1
          else if byte_in 194 223 c then (if continuation cs 1 then 2 else 0)
          else if byte_in 224 239 c then
            (if continuation cs 2 \<and>
                (byte_in 224 224 c \<longrightarrow> byte_in 160 191 (hd cs)) \<and>
                (byte_in 237 237 c \<longrightarrow> byte_in 128 159 (hd cs)) then 3 else 0)
          else if byte_in 240 244 c then
            (if continuation cs 3 \<and>
                (byte_in 240 240 c \<longrightarrow> byte_in 144 191 (hd cs)) \<and>
                (byte_in 244 244 c \<longrightarrow> byte_in 128 143 (hd cs)) then 4 else 0)
          else 0)"

definition replacement_char :: string where
  "replacement_char = [CHR 0xEF, CHR 0xBF, CHR 0xBD]"

lemma drop_rune_less: "0 < n \<Longrightarrow> length (drop n (c # cs)) < Suc (length cs)"
  by (cases n) simp_all

function to_valid_utf8 :: "string \<Rightarrow> string" where
  "to_valid_utf8 [] = []"
| "to_valid_utf8 (c # cs) =
     (let n = rune_len (c # cs)
      in if n = 0 then replacement_char @ to_valid_utf8 cs
         else take n (c # cs) @ to_valid_utf8 (drop n (c # cs)))"
  by pat_completeness auto
termination
  by (relation "measure length") (auto intro: drop_rune_less simp del: length_drop)

function valid_utf8 :: "string \<Rightarrow> bool" where
  "valid_utf8 [] = True"
| "valid_utf8 (c # cs) =
     (let n = rune_len (c # cs) in if n = 0 then False else valid_utf8 (drop n (c # cs)))"
  by pat_completeness auto
termination
  by (relation "measure length") (auto intro: drop_rune_less simp del: length_drop)

declare to_valid_utf8.simps(2) [simp del] valid_utf8.simps(2) [simp del]

lemma to_valid_utf8_id: "valid_utf8 s \<Longrightarrow> to_valid_utf8 s = s"
proof (induction s rule: valid_utf8.induct)
  case (2 c cs)
  then show ?case
    by (auto simp: to_valid_utf8.simps(2) valid_utf8.simps(2) Let_def split: if_splits)
qed simp

section \<open>Marshalling and unmarshalling fields\<close>

definition marshal_string :: "string \<Rightarrow> json" where
  "marshal_string s = JStr (to_valid_utf8 s)"

definition marshal_int :: "int \<Rightarrow> json" where
  "marshal_int n = JNum (FormatInt n)"

text \<open>
  Case folding of a member name, for the ASCII names of the fields: besides the ASCII letters,
  the Kelvin sign folds to \<open>k\<close> and the long s to \<open>s\<close>.
\<close>

definition fold_char :: "char \<Rightarrow> char" where
  "fold_char c = (if byte_in 65 90 c then char_of ((of_char c :: int) + 32) else c)"

function fold_name :: "string \<Rightarrow> string" where
  "fold_name [] = []"
| "fold_name (c # cs) =
     (if prefix [CHR 0xE2, CHR 0x84, CHR 0xAA] (c # cs) then CHR ''k'' # fold_name (drop 2 cs)
      else if prefix [CHR 0xC5, CHR 0xBF] (c # cs) then CHR ''s'' # fold_name (drop 1 cs)
      else fold_char c # fold_name cs)"
  by pat_completeness auto
termination
  by (relation "measure length") auto

text \<open>
  A field is described by its name and by how it takes a value: \<open>None\<close> when the value has the
  wrong type or is out of range.
\<close>

type_synonym 'a field = "string \<times> (json \<Rightarrow> 'a \<Rightarrow> 'a option)"

definition find_field :: "'a field list \<Rightarrow> string \<Rightarrow> (json \<Rightarrow> 'a \<Rightarrow> 'a option) option" where
  "find_field fs name =
     (case map_of fs name of
        Some upd \<Rightarrow> Some upd
      | None \<Rightarrow> map_option snd (find (\<lambda>(f, _). fold_name f = fold_name name) fs))"

fun unmarshal_members ::
  "bool \<Rightarrow> 'a field list \<Rightarrow> (string \<times> json) list \<Rightarrow> 'a \<Rightarrow> 'a option" where
  "unmarshal_members strict fs [] x = Some x"
| "unmarshal_members strict fs ((name, v) # ms) x =
     (case find_field fs name of
        None \<Rightarrow> if strict then None else unmarshal_members strict fs ms x
      | Some upd \<Rightarrow>
          (case upd v x of None \<Rightarrow> None | Some x' \<Rightarrow> unmarshal_members strict fs ms x'))"

text \<open>\<open>strict\<close> is \<open>DisallowUnknownFields\<close>.\<close>

definition unmarshal_object :: "bool \<Rightarrow> 'a field list \<Rightarrow> json \<Rightarrow> 'a \<Rightarrow> 'a option" where
  "unmarshal_object strict fs v x =
     (case v of JNull \<Rightarrow> Some x | JObj ms \<Rightarrow> unmarshal_members strict fs ms x | _ \<Rightarrow> None)"

definition string_field :: "(string \<Rightarrow> 'a \<Rightarrow> 'a) \<Rightarrow> json \<Rightarrow> 'a \<Rightarrow> 'a option" where
  "string_field upd v x =
     (case v of JNull \<Rightarrow> Some x | JStr s \<Rightarrow> Some (upd s x) | _ \<Rightarrow> None)"

definition string_ptr_field :: "(string option \<Rightarrow> 'a \<Rightarrow> 'a) \<Rightarrow> json \<Rightarrow> 'a \<Rightarrow> 'a option" where
  "string_ptr_field upd v x =
     (case v of JNull \<Rightarrow> Some (upd None x) | JStr s \<Rightarrow> Some (upd (Some s) x) | _ \<Rightarrow> None)"

definition int64_literal :: "json \<Rightarrow> int option" where
  "int64_literal v = (case v of JNum l \<Rightarrow> ParseInt l | _ \<Rightarrow> None)"

definition int_field :: "(int \<Rightarrow> 'a \<Rightarrow> 'a) \<Rightarrow> json \<Rightarrow> 'a \<Rightarrow> 'a option" where
  "int_field upd v x =
     (if v = JNull then Some x
      else case int64_literal v of None \<Rightarrow> None | Some n \<Rightarrow> Some (upd n x))"

definition int_ptr_field :: "(int option \<Rightarrow> 'a \<Rightarrow> 'a) \<Rightarrow> json \<Rightarrow> 'a \<Rightarrow> 'a option" where
  "int_ptr_field upd v x =
     (if v = JNull then Some (upd None x)
      else case int64_literal v of None \<Rightarrow> None | Some n \<Rightarrow> Some (upd (Some n) x))"

definition max_uint64 :: int where
  "max_uint64 = 18446744073709551615"

definition uint64_literal :: "json \<Rightarrow> int option" where
  "uint64_literal v =
     (case v of
        JNum l \<Rightarrow>
          if l \<noteq> [] \<and> list_all digit_char l \<and> dec_val l \<le> max_uint64 then Some (dec_val l) else None
      | _ \<Rightarrow> None)"

definition uint_field :: "(int \<Rightarrow> 'a \<Rightarrow> 'a) \<Rightarrow> json \<Rightarrow> 'a \<Rightarrow> 'a option" where
  "uint_field upd v x =
     (if v = JNull then Some x
      else case uint64_literal v of None \<Rightarrow> None | Some n \<Rightarrow> Some (upd n x))"

text \<open>A marshalled number is read back.\<close>

lemma ParseInt_FormatInt: "int64 n \<Longrightarrow> ParseInt (FormatInt n) = Some n"
  by (cases "n < 0") (simp_all add: FormatInt_def ParseInt_digits ParseInt_neg_digits
      digits10_digits digits10_ne dec_val_digits10)

lemma int64_marshal: "int64 n \<Longrightarrow> int64_literal (marshal_int n) = Some n"
  by (simp add: int64_literal_def marshal_int_def ParseInt_FormatInt)

lemma uint64_marshal: "0 \<le> n \<Longrightarrow> n \<le> max_uint64 \<Longrightarrow> uint64_literal (marshal_int n) = Some n"
  by (simp add: uint64_literal_def marshal_int_def FormatInt_def digits10_digits digits10_ne dec_val_digits10)

lemma marshal_int_neq [simp]: "marshal_int n \<noteq> JNull"
  by (simp add: marshal_int_def)

end
