(* ===== verification/Journal.thy ===== *)
theory Journal
  imports Json
begin

text \<open>
  The command journal of \<^verbatim>\<open>internal/journal/journal.go\<close>: a command is a create, amend or cancel
  request with the identity and order the journal gives it. The three payloads are pointers,
  so options. \<open>EncodePayload\<close> and \<open>DecodeWithVersion\<close> are the database's view of a command.
\<close>

type_synonym CommandType = string

definition CreateCommand :: CommandType where "CreateCommand = ''CREATE''"
definition AmendCommand :: CommandType where "AmendCommand = ''AMEND''"
definition CancelCommand :: CommandType where "CancelCommand = ''CANCEL''"

lemma command_types_distinct [simp]:
  "CreateCommand \<noteq> AmendCommand" "AmendCommand \<noteq> CreateCommand"
  "CreateCommand \<noteq> CancelCommand" "CancelCommand \<noteq> CreateCommand"
  "AmendCommand \<noteq> CancelCommand" "CancelCommand \<noteq> AmendCommand"
  by (simp_all add: CreateCommand_def AmendCommand_def CancelCommand_def)

record Command =
  jCommandID :: string
  jTicker :: string
  jSequence :: int
  jType :: CommandType
  jRecordedAt :: Time
  jMarketConfigVersion :: int
  jCreate :: "CreateOrderRequest option"
  jAmend :: "EditOrderRequest option"
  jCancel :: "CancelOrderRequest option"

record AppendResult =
  apCommand :: Command
  apInserted :: bool

section \<open>Validation\<close>

definition valid_create_payload :: "CreateOrderRequest \<Rightarrow> bool" where
  "valid_create_payload c \<longleftrightarrow>
     (let validPrice =
            (if cOrderType c = Limit then cPrice c > 0
             else if cOrderType c = Market then cPrice c = 0 else False)
      in \<not> (TrimSpace (cUserID c) = [] \<or>
            (cOrderType c \<noteq> Limit \<and> cOrderType c \<noteq> Market) \<or>
            (cPosition c \<noteq> Bid \<and> cPosition c \<noteq> Ask) \<or>
            \<not> validPrice \<or> cAmount c \<le> 0))"

definition valid_amend_payload :: "EditOrderRequest \<Rightarrow> bool" where
  "valid_amend_payload a \<longleftrightarrow>
     \<not> (TrimSpace (eOrderID a) = [] \<or> ePrice a \<le> 0 \<or>
        (case eAmount a of None \<Rightarrow> False | Some q \<Rightarrow> q \<le> 0))"

text \<open>The payload checks of each command type; the result is the payload's identity and ticker.\<close>

definition payload_identity :: "Command \<Rightarrow> error + string \<times> string" where
  "payload_identity c =
     (if jType c = CreateCommand then
        (case jCreate c of
           None \<Rightarrow> Inl (ErrInvalidCommand ''create payload is required'')
         | Some p \<Rightarrow>
             if jAmend c \<noteq> None \<or> jCancel c \<noteq> None
             then Inl (ErrInvalidCommand ''create payload is required'')
             else if \<not> valid_create_payload p then Inl (ErrInvalidCommand ''invalid create payload'')
             else Inr (cCommandID p, cTicker p))
      else if jType c = AmendCommand then
        (case jAmend c of
           None \<Rightarrow> Inl (ErrInvalidCommand ''amend payload is required'')
         | Some p \<Rightarrow>
             if jCreate c \<noteq> None \<or> jCancel c \<noteq> None
             then Inl (ErrInvalidCommand ''amend payload is required'')
             else if \<not> valid_amend_payload p then Inl (ErrInvalidCommand ''invalid amend payload'')
             else Inr (eCommandID p, eTicker p))
      else if jType c = CancelCommand then
        (case jCancel c of
           None \<Rightarrow> Inl (ErrInvalidCommand ''cancel payload is required'')
         | Some p \<Rightarrow>
             if jCreate c \<noteq> None \<or> jAmend c \<noteq> None
             then Inl (ErrInvalidCommand ''cancel payload is required'')
             else if TrimSpace (xOrderID p) = [] then Inl (ErrInvalidCommand ''invalid cancel payload'')
             else Inr (xCommandID p, xTicker p))
      else Inl (ErrInvalidCommand ''unsupported type''))"

definition ValidateCommand :: "Command \<Rightarrow> error option" where
  "ValidateCommand c =
     (if jCommandID c = [] then Some (ErrInvalidCommand ''command id is required'')
      else if jTicker c = [] then Some (ErrInvalidCommand ''ticker is required'')
      else if jMarketConfigVersion c < 0
      then Some (ErrInvalidCommand ''market config version cannot be negative'')
      else (case payload_identity c of
              Inl err \<Rightarrow> Some err
            | Inr (commandID, ticker) \<Rightarrow>
                if commandID \<noteq> jCommandID c
                then Some (ErrInvalidCommand ''payload command id mismatch'')
                else if ticker \<noteq> jTicker c then Some (ErrInvalidCommand ''payload ticker mismatch'')
                else None))"

section \<open>Identity of payloads\<close>

definition effectiveConfigVersion :: "Command \<Rightarrow> int" where
  "effectiveConfigVersion c =
     (if jMarketConfigVersion c = 0 then DefaultConfigVersion else jMarketConfigVersion c)"

text \<open>\<open>reflect.DeepEqual\<close> of two pointers to structs is equality of the options.\<close>

definition SamePayload :: "Command \<Rightarrow> Command \<Rightarrow> bool" where
  "SamePayload l r \<longleftrightarrow>
     jCommandID l = jCommandID r \<and> jTicker l = jTicker r \<and> jType l = jType r \<and>
     effectiveConfigVersion l = effectiveConfigVersion r \<and>
     jCreate l = jCreate r \<and> jAmend l = jAmend r \<and> jCancel l = jCancel r"

section \<open>Encoding\<close>

definition marshal_create :: "CreateOrderRequest \<Rightarrow> json" where
  "marshal_create c =
     JObj [(''command_id'', marshal_string (cCommandID c)), (''ticker'', marshal_string (cTicker c)),
           (''user_id'', marshal_string (cUserID c)), (''order_type'', marshal_string (cOrderType c)),
           (''position'', marshal_string (cPosition c)), (''price'', marshal_int (cPrice c)),
           (''amount'', marshal_int (cAmount c)), (''nonce'', marshal_int (cNonce c))]"

definition marshal_amend :: "EditOrderRequest \<Rightarrow> json" where
  "marshal_amend a =
     JObj [(''command_id'', marshal_string (eCommandID a)), (''ticker'', marshal_string (eTicker a)),
           (''order_id'', marshal_string (eOrderID a)), (''price'', marshal_int (ePrice a)),
           (''amount'', (case eAmount a of None \<Rightarrow> JNull | Some q \<Rightarrow> marshal_int q))]"

definition marshal_cancel :: "CancelOrderRequest \<Rightarrow> json" where
  "marshal_cancel x =
     JObj [(''command_id'', marshal_string (xCommandID x)), (''ticker'', marshal_string (xTicker x)),
           (''order_id'', marshal_string (xOrderID x))]"

text \<open>A nil payload is never marshalled: validation comes first.\<close>

definition EncodePayload :: "Command \<Rightarrow> error + json" where
  "EncodePayload c =
     (case ValidateCommand c of
        Some err \<Rightarrow> Inl err
      | None \<Rightarrow>
          if jType c = CreateCommand then Inr (case jCreate c of None \<Rightarrow> JNull | Some p \<Rightarrow> marshal_create p)
          else if jType c = AmendCommand then Inr (case jAmend c of None \<Rightarrow> JNull | Some p \<Rightarrow> marshal_amend p)
          else if jType c = CancelCommand
          then Inr (case jCancel c of None \<Rightarrow> JNull | Some p \<Rightarrow> marshal_cancel p)
          else Inl (ErrInvalidCommand ''unsupported type''))"

section \<open>Decoding\<close>

definition create_fields :: "CreateOrderRequest field list" where
  "create_fields =
     [(''command_id'', string_field (\<lambda>s c. c\<lparr>cCommandID := s\<rparr>)),
      (''ticker'', string_field (\<lambda>s c. c\<lparr>cTicker := s\<rparr>)),
      (''user_id'', string_field (\<lambda>s c. c\<lparr>cUserID := s\<rparr>)),
      (''order_type'', string_field (\<lambda>s c. c\<lparr>cOrderType := s\<rparr>)),
      (''position'', string_field (\<lambda>s c. c\<lparr>cPosition := s\<rparr>)),
      (''price'', int_field (\<lambda>n c. c\<lparr>cPrice := n\<rparr>)),
      (''amount'', int_field (\<lambda>n c. c\<lparr>cAmount := n\<rparr>)),
      (''nonce'', uint_field (\<lambda>n c. c\<lparr>cNonce := n\<rparr>))]"

definition amend_fields :: "EditOrderRequest field list" where
  "amend_fields =
     [(''command_id'', string_field (\<lambda>s a. a\<lparr>eCommandID := s\<rparr>)),
      (''ticker'', string_field (\<lambda>s a. a\<lparr>eTicker := s\<rparr>)),
      (''order_id'', string_field (\<lambda>s a. a\<lparr>eOrderID := s\<rparr>)),
      (''price'', int_field (\<lambda>n a. a\<lparr>ePrice := n\<rparr>)),
      (''amount'', int_ptr_field (\<lambda>q a. a\<lparr>eAmount := q\<rparr>))]"

definition cancel_fields :: "CancelOrderRequest field list" where
  "cancel_fields =
     [(''command_id'', string_field (\<lambda>s x. x\<lparr>xCommandID := s\<rparr>)),
      (''ticker'', string_field (\<lambda>s x. x\<lparr>xTicker := s\<rparr>)),
      (''order_id'', string_field (\<lambda>s x. x\<lparr>xOrderID := s\<rparr>))]"

definition zero_create :: CreateOrderRequest where
  "zero_create = \<lparr>cCommandID = [], cTicker = [], cUserID = [], cOrderType = [], cPosition = [],
     cPrice = 0, cAmount = 0, cNonce = 0\<rparr>"

definition zero_amend :: EditOrderRequest where
  "zero_amend = \<lparr>eCommandID = [], eTicker = [], eOrderID = [], ePrice = 0, eAmount = None\<rparr>"

definition zero_cancel :: CancelOrderRequest where
  "zero_cancel = \<lparr>xCommandID = [], xTicker = [], xOrderID = []\<rparr>"

definition DecodeWithVersion ::
  "string \<Rightarrow> string \<Rightarrow> int \<Rightarrow> CommandType \<Rightarrow> json \<Rightarrow> Time \<Rightarrow> int \<Rightarrow> error + Command" where
  "DecodeWithVersion commandID ticker sequence commandType payload recordedAt configVersion =
     (let command = \<lparr>jCommandID = commandID, jTicker = ticker, jSequence = sequence,
            jType = commandType, jRecordedAt = recordedAt, jMarketConfigVersion = configVersion,
            jCreate = None, jAmend = None, jCancel = None\<rparr>;
          decoded =
            (if commandType = CreateCommand then
               map_option (\<lambda>p. command\<lparr>jCreate := Some p\<rparr>)
                 (unmarshal_object False create_fields payload zero_create)
             else if commandType = AmendCommand then
               map_option (\<lambda>p. command\<lparr>jAmend := Some p\<rparr>)
                 (unmarshal_object False amend_fields payload zero_amend)
             else
               map_option (\<lambda>p. command\<lparr>jCancel := Some p\<rparr>)
                 (unmarshal_object False cancel_fields payload zero_cancel))
      in if commandType \<notin> {CreateCommand, AmendCommand, CancelCommand}
         then Inl (ErrInvalidCommand ''unsupported type'')
         else (case decoded of
                 None \<Rightarrow> Inl (DecodeError ''decode journal payload'')
               | Some c \<Rightarrow> (case ValidateCommand c of Some err \<Rightarrow> Inl err | None \<Rightarrow> Inr c)))"

definition Decode ::
  "string \<Rightarrow> string \<Rightarrow> int \<Rightarrow> CommandType \<Rightarrow> json \<Rightarrow> Time \<Rightarrow> error + Command" where
  "Decode commandID ticker sequence commandType payload recordedAt =
     DecodeWithVersion commandID ticker sequence commandType payload recordedAt DefaultConfigVersion"

section \<open>The round trip through the database\<close>

text \<open>
  A command the engine journals: its strings are valid UTF-8 (a request body is decoded by
  \<open>encoding/json\<close>, whose strings always are) and its numbers are in the range of their types.
\<close>

definition wire_command :: "Command \<Rightarrow> bool" where
  "wire_command c \<longleftrightarrow>
     (case jCreate c of None \<Rightarrow> True | Some p \<Rightarrow>
        valid_utf8 (cCommandID p) \<and> valid_utf8 (cTicker p) \<and> valid_utf8 (cUserID p) \<and>
        int64 (cPrice p) \<and> int64 (cAmount p) \<and> 0 \<le> cNonce p \<and> cNonce p \<le> max_uint64) \<and>
     (case jAmend c of None \<Rightarrow> True | Some p \<Rightarrow>
        valid_utf8 (eCommandID p) \<and> valid_utf8 (eTicker p) \<and> valid_utf8 (eOrderID p) \<and>
        int64 (ePrice p) \<and> (case eAmount p of None \<Rightarrow> True | Some q \<Rightarrow> int64 q)) \<and>
     (case jCancel c of None \<Rightarrow> True | Some p \<Rightarrow>
        valid_utf8 (xCommandID p) \<and> valid_utf8 (xTicker p) \<and> valid_utf8 (xOrderID p))"

lemma constant_utf8 [simp]:
  "valid_utf8 Limit" "valid_utf8 Market" "valid_utf8 Bid" "valid_utf8 Ask"
  by code_simp+

lemma find_own_field:
  "find_field ((f, upd) # fs) f = Some upd"
  "f \<noteq> g \<Longrightarrow> map_of fs f = Some v \<Longrightarrow> find_field ((g, upd) # fs) f = Some v"
  by (simp_all add: find_field_def)

lemma field_setters:
  "string_field upd (marshal_string s) x = Some (upd (to_valid_utf8 s) x)"
  "int64 n \<Longrightarrow> int_field upd' (marshal_int n) x = Some (upd' n x)"
  "int64 n \<Longrightarrow> int_ptr_field upd'' (marshal_int n) x = Some (upd'' (Some n) x)"
  "int_ptr_field upd'' JNull x = Some (upd'' None x)"
  "0 \<le> n \<Longrightarrow> n \<le> max_uint64 \<Longrightarrow> uint_field upd' (marshal_int n) x = Some (upd' n x)"
  by (simp_all add: string_field_def marshal_string_def int_field_def int_ptr_field_def uint_field_def
      int64_marshal uint64_marshal)

lemma decode_create:
  assumes "valid_create_payload p" "wire_command c" "jCreate c = Some p"
  shows "unmarshal_object False create_fields (marshal_create p) zero_create = Some p"
proof -
  have v: "valid_utf8 (cCommandID p)" "valid_utf8 (cTicker p)" "valid_utf8 (cUserID p)"
    "int64 (cPrice p)" "int64 (cAmount p)" "0 \<le> cNonce p" "cNonce p \<le> max_uint64"
    using assms(2,3) by (simp_all add: wire_command_def)
  have t: "valid_utf8 (cOrderType p)" "valid_utf8 (cPosition p)"
    using assms(1) by (auto simp: valid_create_payload_def Let_def split: if_splits)
  show ?thesis
    using v t
    by (simp add: unmarshal_object_def marshal_create_def create_fields_def find_field_def
        field_setters to_valid_utf8_id zero_create_def)
qed

lemma decode_amend:
  assumes "wire_command c" "jAmend c = Some p"
  shows "unmarshal_object False amend_fields (marshal_amend p) zero_amend = Some p"
proof -
  have v: "valid_utf8 (eCommandID p)" "valid_utf8 (eTicker p)" "valid_utf8 (eOrderID p)"
    "int64 (ePrice p)" "case eAmount p of None \<Rightarrow> True | Some q \<Rightarrow> int64 q"
    using assms by (simp_all add: wire_command_def)
  then show ?thesis
    by (cases "eAmount p") (simp_all add: unmarshal_object_def marshal_amend_def amend_fields_def
        find_field_def field_setters to_valid_utf8_id zero_amend_def)
qed

lemma decode_cancel:
  assumes "wire_command c" "jCancel c = Some p"
  shows "unmarshal_object False cancel_fields (marshal_cancel p) zero_cancel = Some p"
  using assms
  by (simp add: wire_command_def unmarshal_object_def marshal_cancel_def cancel_fields_def
      find_field_def field_setters to_valid_utf8_id zero_cancel_def)

lemma ValidateCommand_cases:
  assumes "ValidateCommand c = None"
  obtains (create) p where "jType c = CreateCommand" "jCreate c = Some p" "jAmend c = None"
      "jCancel c = None" "valid_create_payload p" "cCommandID p = jCommandID c" "cTicker p = jTicker c"
    | (amend) p where "jType c = AmendCommand" "jAmend c = Some p" "jCreate c = None"
      "jCancel c = None" "valid_amend_payload p" "eCommandID p = jCommandID c" "eTicker p = jTicker c"
    | (cancel) p where "jType c = CancelCommand" "jCancel c = Some p" "jCreate c = None"
      "jAmend c = None" "TrimSpace (xOrderID p) \<noteq> []" "xCommandID p = jCommandID c" "xTicker p = jTicker c"
  using assms that
  by (auto simp: ValidateCommand_def payload_identity_def split: if_splits option.splits sum.splits prod.splits)

lemma wire_decodes:
  assumes "EncodePayload c = Inr payload" "wire_command c"
  shows "DecodeWithVersion (jCommandID c) (jTicker c) (jSequence c) (jType c) payload
    (jRecordedAt c) (jMarketConfigVersion c) = Inr c"
proof -
  have ok: "ValidateCommand c = None"
    using assms(1) by (simp add: EncodePayload_def split: option.splits)
  show ?thesis
    using ok
  proof (cases rule: ValidateCommand_cases)
    case (create p)
    have c: "c\<lparr>jCreate := Some p, jAmend := None, jCancel := None\<rparr> = c" using create by simp
    have "payload = marshal_create p" using assms(1) ok create by (simp add: EncodePayload_def)
    then show ?thesis
      using decode_create [OF create(5) assms(2) create(2)] create ok
      by (simp add: DecodeWithVersion_def Let_def) (cases c; simp)
  next
    case (amend p)
    have "payload = marshal_amend p" using assms(1) ok amend by (simp add: EncodePayload_def)
    then show ?thesis
      using decode_amend [OF assms(2) amend(2)] amend ok
      by (simp add: DecodeWithVersion_def Let_def) (cases c; simp)
  next
    case (cancel p)
    have "payload = marshal_cancel p" using assms(1) ok cancel by (simp add: EncodePayload_def)
    then show ?thesis
      using decode_cancel [OF assms(2) cancel(2)] cancel ok
      by (simp add: DecodeWithVersion_def Let_def) (cases c; simp)
  qed
qed

text \<open>
  C18. What the journal writes into the database it reads back: decoding the encoded payload of
  a valid command, with the command's identity, sequence, time and configuration version,
  gives the command again.
\<close>

theorem journal_roundtrip:
  assumes "EncodePayload c = Inr payload" "wire_command c"
  shows "DecodeWithVersion (jCommandID c) (jTicker c) (jSequence c) (jType c) payload
    (jRecordedAt c) (jMarketConfigVersion c) = Inr c"
  by (rule wire_decodes [OF assms])

definition sample_create :: Command where
  "sample_create = \<lparr>jCommandID = ''c1'', jTicker = ''BTC-USD'', jSequence = 3, jType = CreateCommand,
     jRecordedAt = 5, jMarketConfigVersion = 1,
     jCreate = Some \<lparr>cCommandID = ''c1'', cTicker = ''BTC-USD'', cUserID = ''u'', cOrderType = Limit,
       cPosition = Ask, cPrice = 101, cAmount = 5, cNonce = max_uint64\<rparr>,
     jAmend = None, jCancel = None\<rparr>"

lemma journal_roundtrip_witness:
  "DecodeWithVersion ''c1'' ''BTC-USD'' 3 CreateCommand
     (marshal_create (the (jCreate sample_create))) 5 1 = Inr sample_create"
proof -
  have e: "EncodePayload sample_create = Inr (marshal_create (the (jCreate sample_create)))"
    by code_simp
  have w: "wire_command sample_create" by code_simp
  show ?thesis using journal_roundtrip [OF e w] by (simp add: sample_create_def)
qed

end
