(* ===== verification/OrderEvent.thy ===== *)
theory OrderEvent
  imports Journal
begin

text \<open>
  Order lifecycle events: \<^verbatim>\<open>internal/orderevent/event.go\<close>. Field names carry the prefix \<open>v\<close>.
\<close>

definition EventResting :: string where "EventResting = ''ORDER_RESTING''"
definition EventPartiallyFilled :: string where "EventPartiallyFilled = ''ORDER_PARTIALLY_FILLED''"
definition EventFilled :: string where "EventFilled = ''ORDER_FILLED''"
definition EventAmended :: string where "EventAmended = ''ORDER_AMENDED''"
definition EventCanceled :: string where "EventCanceled = ''ORDER_CANCELED''"
definition EventRemainderCanceled :: string where
  "EventRemainderCanceled = ''ORDER_REMAINDER_CANCELED''"

lemmas event_type_defs = EventResting_def EventPartiallyFilled_def EventFilled_def EventAmended_def
  EventCanceled_def EventRemainderCanceled_def

definition ReasonNone :: string where "ReasonNone = ''NONE''"
definition ReasonNoMatch :: string where "ReasonNoMatch = ''NO_MATCH''"
definition ReasonPartialFill :: string where "ReasonPartialFill = ''PARTIAL_FILL''"
definition ReasonPriceChanged :: string where "ReasonPriceChanged = ''PRICE_CHANGED''"
definition ReasonAmountIncreased :: string where "ReasonAmountIncreased = ''AMOUNT_INCREASED''"
definition ReasonAmountDecreased :: string where "ReasonAmountDecreased = ''AMOUNT_DECREASED''"
definition ReasonUserRequest :: string where "ReasonUserRequest = ''USER_REQUEST''"
definition ReasonInsufficientLiquidity :: string where
  "ReasonInsufficientLiquidity = ''INSUFFICIENT_LIQUIDITY''"

lemmas reason_defs = ReasonNone_def ReasonNoMatch_def ReasonPartialFill_def ReasonPriceChanged_def
  ReasonAmountIncreased_def ReasonAmountDecreased_def ReasonUserRequest_def
  ReasonInsufficientLiquidity_def

record OrderEvent =
  vEventID :: string
  vCommandID :: string
  vCommandSequence :: int
  vEventIndex :: int
  vOrderID :: string
  vUserID :: string
  vTicker :: string
  vType :: string
  vReason :: string
  vOrderType :: OrderType
  vSide :: Position
  vPreviousPrice :: PriceTicks
  vPrice :: PriceTicks
  vPreviousAmount :: QuantityLots
  vFilledAmount :: QuantityLots
  vCanceledAmount :: QuantityLots
  vRemainingAmount :: QuantityLots
  vMarketConfigVersion :: int
  vOccurredAt :: Time

definition GenerateEventID :: "(string \<Rightarrow> string) \<Rightarrow> string \<Rightarrow> string \<Rightarrow> string \<Rightarrow> string \<Rightarrow> int \<Rightarrow> string" where
  "GenerateEventID H ticker commandID orderID eventType eventIndex =
     H (ticker @ ''|'' @ commandID @ ''|'' @ orderID @ ''|'' @ eventType @ ''|'' @ FormatInt eventIndex)"

definition validType :: "string \<Rightarrow> bool" where
  "validType t \<longleftrightarrow> t \<in> {EventResting, EventPartiallyFilled, EventFilled, EventAmended,
     EventCanceled, EventRemainderCanceled}"

definition validPrices :: "OrderEvent \<Rightarrow> bool" where
  "validPrices v =
     (if vPreviousPrice v < 0 \<or> vPrice v < 0 then False
      else if vOrderType v = Market then vPreviousPrice v = 0 \<and> vPrice v = 0
      else vPreviousPrice v > 0 \<and> vPrice v > 0)"

text \<open>The sum of two amounts is an \<open>int64\<close> sum.\<close>

definition validateTransition :: "OrderEvent \<Rightarrow> error option" where
  "validateTransition v =
     (if vType v = EventResting then
        (if vFilledAmount v \<noteq> 0 \<or> vCanceledAmount v \<noteq> 0 \<or> vRemainingAmount v \<le> 0 \<or>
            vPreviousAmount v \<noteq> vRemainingAmount v
         then Some (ErrInvalidEvent ''invalid resting transition'') else None)
      else if vType v = EventPartiallyFilled then
        (if vFilledAmount v \<le> 0 \<or> vCanceledAmount v \<noteq> 0 \<or> vRemainingAmount v \<le> 0 \<or>
            vPreviousAmount v \<noteq> wrap64 (vFilledAmount v + vRemainingAmount v)
         then Some (ErrInvalidEvent ''invalid partial-fill transition'') else None)
      else if vType v = EventFilled then
        (if vFilledAmount v \<le> 0 \<or> vCanceledAmount v \<noteq> 0 \<or> vRemainingAmount v \<noteq> 0 \<or>
            vPreviousAmount v \<noteq> vFilledAmount v
         then Some (ErrInvalidEvent ''invalid filled transition'') else None)
      else if vType v = EventAmended then
        (if vFilledAmount v \<noteq> 0 \<or> vCanceledAmount v \<noteq> 0 \<or> vRemainingAmount v \<le> 0
         then Some (ErrInvalidEvent ''invalid amended transition'') else None)
      else if vType v = EventCanceled \<or> vType v = EventRemainderCanceled then
        (if vFilledAmount v \<noteq> 0 \<or> vCanceledAmount v \<le> 0 \<or> vRemainingAmount v \<noteq> 0 \<or>
            vPreviousAmount v \<noteq> vCanceledAmount v
         then Some (ErrInvalidEvent ''invalid canceled transition'') else None)
      else None)"

definition ValidateEvent :: "(string \<Rightarrow> string) \<Rightarrow> OrderEvent \<Rightarrow> error option" where
  "ValidateEvent H v =
     (if TrimSpace (vEventID v) = [] then Some (ErrInvalidEvent ''event id is required'')
      else if TrimSpace (vCommandID v) = [] then Some (ErrInvalidEvent ''command id is required'')
      else if vCommandSequence v \<le> 0
      then Some (ErrInvalidEvent ''command sequence must be positive'')
      else if vEventIndex v < 0 then Some (ErrInvalidEvent ''event index cannot be negative'')
      else if TrimSpace (vOrderID v) = [] then Some (ErrInvalidEvent ''order id is required'')
      else if TrimSpace (vUserID v) = [] then Some (ErrInvalidEvent ''user id is required'')
      else if TrimSpace (vTicker v) = [] then Some (ErrInvalidEvent ''ticker is required'')
      else if \<not> validType (vType v) then Some (ErrInvalidEvent ''unsupported type'')
      else if TrimSpace (vReason v) = [] then Some (ErrInvalidEvent ''reason is required'')
      else if vOrderType v \<noteq> Limit \<and> vOrderType v \<noteq> Market
      then Some (ErrInvalidEvent ''unsupported order type'')
      else if vSide v \<noteq> Bid \<and> vSide v \<noteq> Ask
      then Some (ErrInvalidEvent ''side must be BID or ASK'')
      else if \<not> validPrices v then Some (ErrInvalidEvent ''invalid order prices'')
      else if vPreviousAmount v \<le> 0
      then Some (ErrInvalidEvent ''previous amount must be positive'')
      else if vFilledAmount v < 0 \<or> vCanceledAmount v < 0 \<or> vRemainingAmount v < 0
      then Some (ErrInvalidEvent ''event amounts cannot be negative'')
      else if vMarketConfigVersion v < 0
      then Some (ErrInvalidEvent ''market config version cannot be negative'')
      else if IsZero (vOccurredAt v) then Some (ErrInvalidEvent ''occurred time is required'')
      else let expectedID =
             GenerateEventID H (vTicker v) (vCommandID v) (vOrderID v) (vType v) (vEventIndex v)
           in if vEventID v \<noteq> expectedID
              then Some (ErrInvalidEvent ''event id does not match transition identity'')
              else validateTransition v)"

end
