(* ===== verification/EventBuilder.thy ===== *)
theory EventBuilder
  imports OrderEvent Matching
begin

text \<open>
  The event builder of \<^verbatim>\<open>internal/engine/order_events.go\<close>: the command being applied and the
  events so far. Each \<open>add\<close> completes a partial event (\<open>blank_event\<close> is Go's zero value) with
  the order's identity, the command's and the next index.
\<close>

record orderEventBuilder =
  ebCommand :: Command
  ebEvents :: "OrderEvent list"

definition newOrderEventBuilder :: "Command \<Rightarrow> orderEventBuilder" where
  "newOrderEventBuilder command = \<lparr>ebCommand = command, ebEvents = []\<rparr>"

definition blank_event :: OrderEvent where
  "blank_event =
     \<lparr>vEventID = [], vCommandID = [], vCommandSequence = 0, vEventIndex = 0, vOrderID = [],
      vUserID = [], vTicker = [], vType = [], vReason = [], vOrderType = [], vSide = [],
      vPreviousPrice = 0, vPrice = 0, vPreviousAmount = 0, vFilledAmount = 0,
      vCanceledAmount = 0, vRemainingAmount = 0, vMarketConfigVersion = 0,
      vOccurredAt = zero_time\<rparr>"

definition eb_event :: "(string \<Rightarrow> string) \<Rightarrow> Command \<Rightarrow> nat \<Rightarrow> BookOrder \<Rightarrow> OrderEvent \<Rightarrow> OrderEvent" where
  "eb_event H command n order event =
     (let index = wrap32 (int n)
      in event\<lparr>vCommandID := jCommandID command, vCommandSequence := jSequence command,
               vEventIndex := index, vOrderID := oOrderID order, vUserID := oUserID order,
               vTicker := jTicker command, vOrderType := oOrderType order,
               vSide := oPosition order, vOccurredAt := jRecordedAt command,
               vMarketConfigVersion := jMarketConfigVersion command,
               vEventID := GenerateEventID H (jTicker command) (jCommandID command)
                 (oOrderID order) (vType event) index\<rparr>)"

definition eb_add ::
  "(string \<Rightarrow> string) \<Rightarrow> orderEventBuilder \<Rightarrow> BookOrder \<Rightarrow> OrderEvent \<Rightarrow> orderEventBuilder" where
  "eb_add H b order event =
     b\<lparr>ebEvents := ebEvents b @ [eb_event H (ebCommand b) (length (ebEvents b)) order event]\<rparr>"

definition fill_event :: "PriceTicks \<Rightarrow> QuantityLots \<Rightarrow> QuantityLots \<Rightarrow> QuantityLots \<Rightarrow> OrderEvent" where
  "fill_event price previous filled remaining =
     blank_event\<lparr>vType := (if remaining = 0 then EventFilled else EventPartiallyFilled),
       vReason := (if remaining = 0 then ReasonNone else ReasonPartialFill),
       vPreviousPrice := price, vPrice := price, vPreviousAmount := previous,
       vFilledAmount := filled, vRemainingAmount := remaining\<rparr>"

definition addMakerFills ::
  "(string \<Rightarrow> string) \<Rightarrow> orderEventBuilder \<Rightarrow> MakerFillTransition list \<Rightarrow> orderEventBuilder" where
  "addMakerFills H b transitions =
     fold (\<lambda>t b. eb_add H b (tOrder t)
             (fill_event (oPrice (tOrder t)) (tPreviousAmount t) (tFilledAmount t) (tRemainingAmount t)))
       transitions b"

definition addTakerFill ::
  "(string \<Rightarrow> string) \<Rightarrow> orderEventBuilder \<Rightarrow> BookOrder \<Rightarrow> QuantityLots \<Rightarrow> QuantityLots \<Rightarrow> orderEventBuilder" where
  "addTakerFill H b order filledAmount remainingAmount =
     (if filledAmount \<le> 0 then b
      else eb_add H b order (fill_event (oPrice order) (oAmount order) filledAmount remainingAmount))"

definition addResting :: "(string \<Rightarrow> string) \<Rightarrow> orderEventBuilder \<Rightarrow> BookOrder \<Rightarrow> orderEventBuilder" where
  "addResting H b order =
     eb_add H b order (blank_event\<lparr>vType := EventResting, vReason := ReasonNoMatch,
       vPreviousPrice := oPrice order, vPrice := oPrice order, vPreviousAmount := oAmount order,
       vRemainingAmount := oAmount order\<rparr>)"

definition addAmended ::
  "(string \<Rightarrow> string) \<Rightarrow> orderEventBuilder \<Rightarrow> BookOrder \<Rightarrow> BookOrder \<Rightarrow> orderEventBuilder" where
  "addAmended H b before after =
     (let reason =
        (if oPrice before \<noteq> oPrice after then ReasonPriceChanged
         else if oAmount before < oAmount after then ReasonAmountIncreased
         else ReasonAmountDecreased)
      in eb_add H b after (blank_event\<lparr>vType := EventAmended, vReason := reason,
           vPreviousPrice := oPrice before, vPrice := oPrice after,
           vPreviousAmount := oAmount before, vRemainingAmount := oAmount after\<rparr>))"

definition addCanceled :: "(string \<Rightarrow> string) \<Rightarrow> orderEventBuilder \<Rightarrow> BookOrder \<Rightarrow> orderEventBuilder" where
  "addCanceled H b order =
     eb_add H b order (blank_event\<lparr>vType := EventCanceled, vReason := ReasonUserRequest,
       vPreviousPrice := oPrice order, vPrice := oPrice order, vPreviousAmount := oAmount order,
       vCanceledAmount := oAmount order\<rparr>)"

definition addRemainderCanceled ::
  "(string \<Rightarrow> string) \<Rightarrow> orderEventBuilder \<Rightarrow> BookOrder \<Rightarrow> QuantityLots \<Rightarrow> orderEventBuilder" where
  "addRemainderCanceled H b order remainingAmount =
     eb_add H b order (blank_event\<lparr>vType := EventRemainderCanceled,
       vReason := ReasonInsufficientLiquidity, vPreviousPrice := oPrice order,
       vPrice := oPrice order, vPreviousAmount := remainingAmount,
       vCanceledAmount := remainingAmount\<rparr>)"

text \<open>All the events, or the error of the first one that does not validate.\<close>

fun first_invalid :: "(string \<Rightarrow> string) \<Rightarrow> nat \<Rightarrow> OrderEvent list \<Rightarrow> error option" where
  "first_invalid H i [] = None"
| "first_invalid H i (v # vs) =
     (case ValidateEvent H v of
        Some err \<Rightarrow> Some (Wrapped ''validate generated order event'' err)
      | None \<Rightarrow> first_invalid H (i + 1) vs)"

definition eb_result :: "(string \<Rightarrow> string) \<Rightarrow> orderEventBuilder \<Rightarrow> error + OrderEvent list" where
  "eb_result H b =
     (case first_invalid H 0 (ebEvents b) of Some err \<Rightarrow> Inl err | None \<Rightarrow> Inr (ebEvents b))"

section \<open>The builder's events are valid\<close>

definition command_sound :: "Command \<Rightarrow> bool" where
  "command_sound c \<longleftrightarrow> TrimSpace (jCommandID c) \<noteq> [] \<and> TrimSpace (jTicker c) \<noteq> [] \<and>
     0 < jSequence c \<and> 0 \<le> jMarketConfigVersion c \<and> \<not> IsZero (jRecordedAt c)"

definition order_sound :: "BookOrder \<Rightarrow> bool" where
  "order_sound order \<longleftrightarrow> TrimSpace (oOrderID order) \<noteq> [] \<and> TrimSpace (oUserID order) \<noteq> [] \<and>
     (oOrderType order = Limit \<and> 0 < oPrice order \<or> oOrderType order = Market \<and> oPrice order = 0) \<and>
     (oPosition order = Bid \<or> oPosition order = Ask)"

definition nonblank_digest :: "(string \<Rightarrow> string) \<Rightarrow> bool" where
  "nonblank_digest H \<longleftrightarrow> (\<forall>x. TrimSpace (H x) \<noteq> [])"

text \<open>What the partial event itself has to bring, for an order.\<close>

definition event_shape :: "BookOrder \<Rightarrow> OrderEvent \<Rightarrow> bool" where
  "event_shape order v \<longleftrightarrow> validType (vType v) \<and> TrimSpace (vReason v) \<noteq> [] \<and>
     validPrices (v\<lparr>vOrderType := oOrderType order\<rparr>) \<and> 0 < vPreviousAmount v \<and>
     0 \<le> vFilledAmount v \<and> 0 \<le> vCanceledAmount v \<and> 0 \<le> vRemainingAmount v \<and>
     validateTransition v = None"

definition builder_ok :: "(string \<Rightarrow> string) \<Rightarrow> orderEventBuilder \<Rightarrow> bool" where
  "builder_ok H b \<longleftrightarrow> command_sound (ebCommand b) \<and> nonblank_digest H \<and>
     (\<forall>v \<in> set (ebEvents b). ValidateEvent H v = None)"

lemma reasons_nonblank [simp]:
  "TrimSpace ReasonNone \<noteq> []" "TrimSpace ReasonNoMatch \<noteq> []" "TrimSpace ReasonPartialFill \<noteq> []"
  "TrimSpace ReasonPriceChanged \<noteq> []" "TrimSpace ReasonAmountIncreased \<noteq> []"
  "TrimSpace ReasonAmountDecreased \<noteq> []" "TrimSpace ReasonUserRequest \<noteq> []"
  "TrimSpace ReasonInsufficientLiquidity \<noteq> []"
  by code_simp+

lemma event_types_distinct [simp]:
  "EventResting \<noteq> EventPartiallyFilled" "EventResting \<noteq> EventFilled" "EventResting \<noteq> EventAmended"
  "EventResting \<noteq> EventCanceled" "EventResting \<noteq> EventRemainderCanceled"
  "EventPartiallyFilled \<noteq> EventResting" "EventPartiallyFilled \<noteq> EventFilled"
  "EventPartiallyFilled \<noteq> EventAmended" "EventPartiallyFilled \<noteq> EventCanceled"
  "EventPartiallyFilled \<noteq> EventRemainderCanceled"
  "EventFilled \<noteq> EventResting" "EventFilled \<noteq> EventPartiallyFilled" "EventFilled \<noteq> EventAmended"
  "EventFilled \<noteq> EventCanceled" "EventFilled \<noteq> EventRemainderCanceled"
  "EventAmended \<noteq> EventResting" "EventAmended \<noteq> EventPartiallyFilled" "EventAmended \<noteq> EventFilled"
  "EventAmended \<noteq> EventCanceled" "EventAmended \<noteq> EventRemainderCanceled"
  "EventCanceled \<noteq> EventResting" "EventCanceled \<noteq> EventPartiallyFilled" "EventCanceled \<noteq> EventFilled"
  "EventCanceled \<noteq> EventAmended" "EventCanceled \<noteq> EventRemainderCanceled"
  "EventRemainderCanceled \<noteq> EventResting" "EventRemainderCanceled \<noteq> EventPartiallyFilled"
  "EventRemainderCanceled \<noteq> EventFilled" "EventRemainderCanceled \<noteq> EventAmended"
  "EventRemainderCanceled \<noteq> EventCanceled"
  by (simp_all add: event_type_defs)

lemma valid_types [simp]:
  "validType EventResting" "validType EventPartiallyFilled" "validType EventFilled"
  "validType EventAmended" "validType EventCanceled" "validType EventRemainderCanceled"
  by (simp_all add: validType_def)

lemma eb_event_valid:
  assumes "command_sound c" "order_sound order" "nonblank_digest H" "event_shape order v"
    "n < 2147483648"
  shows "ValidateEvent H (eb_event H c n order v) = None"
proof -
  have i: "wrap32 (int n) = int n" using assms(5) by (simp add: wrap32_small)
  have t: "validateTransition (eb_event H c n order v) = validateTransition v"
    "validPrices (eb_event H c n order v) = validPrices (v\<lparr>vOrderType := oOrderType order\<rparr>)"
    by (simp_all add: eb_event_def Let_def validateTransition_def validPrices_def)
  have o: "oOrderType order = Limit \<or> oOrderType order = Market" "oPosition order = Bid \<or> oPosition order = Ask"
    using assms(2) by (auto simp: order_sound_def)
  show ?thesis
    unfolding ValidateEvent_def t
    using assms(1-4) o i
    by (simp add: eb_event_def Let_def command_sound_def order_sound_def nonblank_digest_def event_shape_def
        GenerateEventID_def)
qed

lemma eb_add_ok:
  assumes "builder_ok H b" "order_sound order" "event_shape order v" "length (ebEvents b) < 2147483648"
  shows "builder_ok H (eb_add H b order v)"
  using assms eb_event_valid [of "ebCommand b" order H v "length (ebEvents b)"]
  by (auto simp: builder_ok_def eb_add_def)

lemma eb_result_ok: "builder_ok H b \<Longrightarrow> eb_result H b = Inr (ebEvents b)"
proof -
  have "first_invalid H i vs = None" if "\<forall>v \<in> set vs. ValidateEvent H v = None" for i vs
    using that by (induction vs arbitrary: i) simp_all
  then show "builder_ok H b \<Longrightarrow> ?thesis" by (simp add: builder_ok_def eb_result_def)
qed

lemma newOrderEventBuilder_ok: "command_sound c \<Longrightarrow> nonblank_digest H \<Longrightarrow> builder_ok H (newOrderEventBuilder c)"
  by (simp add: newOrderEventBuilder_def builder_ok_def)

text \<open>Each kind of event has the right shape.\<close>

lemma same_price_valid:
  "order_sound order \<Longrightarrow> vPreviousPrice v = oPrice order \<Longrightarrow> vPrice v = oPrice order \<Longrightarrow>
   validPrices (v\<lparr>vOrderType := oOrderType order\<rparr>)"
  by (auto simp: order_sound_def validPrices_def)

lemma fill_shape:
  assumes "order_sound order" "0 < filled" "0 \<le> remaining" "previous = filled + remaining" "int64 previous"
  shows "event_shape order (fill_event (oPrice order) previous filled remaining)"
proof -
  have "validPrices ((fill_event (oPrice order) previous filled remaining)\<lparr>vOrderType := oOrderType order\<rparr>)"
    using assms(1) by (rule same_price_valid) (simp_all add: fill_event_def)
  then show ?thesis
    using assms(2-5) by (simp add: event_shape_def validateTransition_def)
      (simp add: fill_event_def blank_event_def wrap64_id)
qed

lemma resting_shape:
  assumes "order_sound order" "0 < oAmount order"
  shows "event_shape order (blank_event\<lparr>vType := EventResting, vReason := ReasonNoMatch,
       vPreviousPrice := oPrice order, vPrice := oPrice order, vPreviousAmount := oAmount order,
       vRemainingAmount := oAmount order\<rparr>)"
proof -
  have "validPrices (blank_event\<lparr>vType := EventResting, vReason := ReasonNoMatch,
       vPreviousPrice := oPrice order, vPrice := oPrice order, vPreviousAmount := oAmount order,
       vRemainingAmount := oAmount order\<rparr>\<lparr>vOrderType := oOrderType order\<rparr>)"
    using assms(1) by (rule same_price_valid) simp_all
  then show ?thesis
    using assms(2) by (simp add: event_shape_def validateTransition_def) (simp add: blank_event_def)
qed

lemma canceled_shape:
  assumes "order_sound order" "0 < amount" "t = EventCanceled \<or> t = EventRemainderCanceled" "TrimSpace r \<noteq> []"
  shows "event_shape order (blank_event\<lparr>vType := t, vReason := r,
       vPreviousPrice := oPrice order, vPrice := oPrice order, vPreviousAmount := amount,
       vCanceledAmount := amount\<rparr>)"
proof -
  have "validPrices (blank_event\<lparr>vType := t, vReason := r,
       vPreviousPrice := oPrice order, vPrice := oPrice order, vPreviousAmount := amount,
       vCanceledAmount := amount\<rparr>\<lparr>vOrderType := oOrderType order\<rparr>)"
    using assms(1) by (rule same_price_valid) simp_all
  then show ?thesis
    using assms(2-4) by (auto simp: event_shape_def validateTransition_def) (simp_all add: blank_event_def)
qed

lemma amended_shape:
  assumes "oOrderType after = Limit" "0 < oPrice before" "0 < oPrice after" "0 < oAmount before"
    "0 < oAmount after" "TrimSpace r \<noteq> []"
  shows "event_shape after (blank_event\<lparr>vType := EventAmended, vReason := r,
       vPreviousPrice := oPrice before, vPrice := oPrice after, vPreviousAmount := oAmount before,
       vRemainingAmount := oAmount after\<rparr>)"
  using assms by (simp add: event_shape_def validateTransition_def validPrices_def) (simp add: blank_event_def)

lemmas add_defs = addTakerFill_def addResting_def addAmended_def addCanceled_def addRemainderCanceled_def

lemma eb_add_length [simp]: "length (ebEvents (eb_add H b order v)) = length (ebEvents b) + 1"
  by (simp add: eb_add_def)

lemma addMakerFills_length [simp]:
  "length (ebEvents (addMakerFills H b ts)) = length (ebEvents b) + length ts"
  unfolding addMakerFills_def by (induction ts arbitrary: b) simp_all

text \<open>A maker transition as \<open>Match\<close> reports it.\<close>

definition sound_transition :: "MakerFillTransition \<Rightarrow> bool" where
  "sound_transition t \<longleftrightarrow> order_sound (tOrder t) \<and> 0 < tFilledAmount t \<and> 0 \<le> tRemainingAmount t \<and>
     tPreviousAmount t = tFilledAmount t + tRemainingAmount t \<and> int64 (tPreviousAmount t)"

lemma addMakerFills_ok:
  assumes "builder_ok H b" "\<forall>t \<in> set ts. sound_transition t" "length (ebEvents b) + length ts \<le> 2147483648"
  shows "builder_ok H (addMakerFills H b ts)"
  using assms
proof (induction ts arbitrary: b)
  case (Cons t ts)
  have t: "sound_transition t" using Cons.prems(2) by simp
  have "builder_ok H (eb_add H b (tOrder t)
      (fill_event (oPrice (tOrder t)) (tPreviousAmount t) (tFilledAmount t) (tRemainingAmount t)))"
    by (rule eb_add_ok [OF Cons.prems(1)])
      (use t Cons.prems(3) in \<open>auto simp: sound_transition_def intro: fill_shape\<close>)
  then show ?case
    using Cons.IH Cons.prems(2,3) by (simp add: addMakerFills_def)
qed (simp add: addMakerFills_def)

end
