(* ===== verification/BookWorker.thy ===== *)
theory BookWorker
  imports EventBuilder
begin

text \<open>
  The worker that owns a ticker's book: \<^verbatim>\<open>internal/engine/bookworker.go\<close>, with the event of
  \<^verbatim>\<open>event.go\<close> and the engine state of \<^verbatim>\<open>state.go\<close>.

  What is outside the worker is a value \<open>'w\<close>, the world, and the worker reaches it through the
  operations of \<open>worker_io\<close>: \<open>None\<close> is a nil store or channel. Sending a persistence request and
  waiting for its acknowledgement is one operation, since the worker does nothing in between.
  The engine state is shared by pointer between the router and its workers, so it is passed
  beside the worker and not inside it.
\<close>

section \<open>The engine state\<close>

record EngineState =
  esCause :: "error option"

definition NewEngineState :: EngineState where
  "NewEngineState = \<lparr>esCause = None\<rparr>"

definition Halt :: "EngineState \<Rightarrow> error option \<Rightarrow> EngineState" where
  "Halt s cause =
     (let cause = (case cause of None \<Rightarrow> ErrHaltedSentinel | Some e \<Rightarrow> e)
      in if esCause s = None then s\<lparr>esCause := Some cause\<rparr> else s)"

definition haltedError :: "error \<Rightarrow> error" where
  "haltedError cause = ErrEngineHalted cause"

definition EngineState_Err :: "EngineState \<Rightarrow> error option" where
  "EngineState_Err s = (case esCause s of None \<Rightarrow> None | Some cause \<Rightarrow> Some (haltedError cause))"

section \<open>Events, workers and their world\<close>

datatype EventType = NewOrder | CancelOrder | EditOrder | snapshotOrderBook | OtherEventType

record EngineEvent =
  evType :: EventType
  evTicker :: string
  evNewOrder :: "CreateOrderRequest option"
  evCancelReq :: "CancelOrderRequest option"
  evEditReq :: "EditOrderRequest option"
  evSnapshotDepth :: int

text \<open>What a sender waiting on the event's channel receives.\<close>

datatype reply = Ack "error option" | SnapshotReply OrderBookSnapshot

record 'w worker_io =
  ioAppend :: "(Command \<Rightarrow> 'w \<Rightarrow> (error + AppendResult) \<times> 'w) option"
  ioSaveLogs :: "(MatchLog list \<Rightarrow> 'w \<Rightarrow> error option \<times> 'w) option"
  ioSaveEvents :: "(OrderEvent list \<Rightarrow> 'w \<Rightarrow> error option \<times> 'w) option"

record BookWorker =
  wTicker :: string
  wOrderBook :: OrderBook
  wPrecision :: Precision

definition NewBookWorkerWithOptions :: "string \<Rightarrow> OrderBook option \<Rightarrow> Precision \<Rightarrow> BookWorker" where
  "NewBookWorkerWithOptions ticker ob optsPrecision =
     (let precision = WithDefaults optsPrecision in
      case ob of
        None \<Rightarrow> \<lparr>wTicker = ticker, wOrderBook = NewOrderBookWithPrecision ticker precision,
                 wPrecision = precision\<rparr>
      | Some ob \<Rightarrow>
          let precision = WithDefaults (bPrecision ob)
          in \<lparr>wTicker = ticker, wOrderBook = ob\<lparr>bPrecision := precision\<rparr>, wPrecision = precision\<rparr>)"

section \<open>Persistence\<close>

definition persistMatchLogs :: "'w worker_io \<Rightarrow> MatchLog list \<Rightarrow> 'w \<Rightarrow> error option \<times> 'w" where
  "persistMatchLogs io logs world =
     (if logs = [] then (None, world)
      else case ioSaveLogs io of
             None \<Rightarrow> (Some ErrMatchStoreUnavailable, world)
           | Some save \<Rightarrow> save logs world)"

definition persistOrderEvents :: "'w worker_io \<Rightarrow> OrderEvent list \<Rightarrow> 'w \<Rightarrow> error option \<times> 'w" where
  "persistOrderEvents io events world =
     (if events = [] then (None, world)
      else case ioSaveEvents io of
             None \<Rightarrow> (Some ErrEventStoreUnavailable, world)
           | Some save \<Rightarrow> save events world)"

section \<open>Applying a command\<close>

type_synonym 'w applied = "(error + OrderEvent list) \<times> OrderBook \<times> 'w"

definition quote_error :: "numeric_error \<Rightarrow> error" where
  "quote_error e = Wrapped ''calculate quote amount'' (NumericError e)"

definition apply_create ::
  "digest \<Rightarrow> 'w worker_io \<Rightarrow> orderEventBuilder \<Rightarrow> CreateOrderRequest \<Rightarrow> Time \<Rightarrow> OrderBook \<Rightarrow> 'w \<Rightarrow>
   'w applied" where
  "apply_create H io events create recordedAt book world =
     (let order = CreateOrderAt H create recordedAt;
          beforeMatch = order;
          (result, book, order) = Match H book order
      in case rErr result of
           Some e \<Rightarrow> (Inl (quote_error e), book, world)
         | None \<Rightarrow>
        (case persistMatchLogs io (rLogs result) world of
           (Some err, world) \<Rightarrow> (Inl err, book, world)
         | (None, world) \<Rightarrow>
             let events = addMakerFills H events (rMakerTransitions result);
                 filledAmount = wrap64 (oAmount beforeMatch - oAmount order);
                 events = addTakerFill H events beforeMatch filledAmount (oAmount order)
             in case rResidual result of
                  None \<Rightarrow> (eb_result H events, book, world)
                | Some residual \<Rightarrow>
                    if oOrderType order = Market then
                      (eb_result H (addRemainderCanceled H events beforeMatch (oAmount residual)),
                       book, world)
                    else
                      (eb_result H (if filledAmount > 0 then events
                                    else addResting H events beforeMatch),
                       AddOrder book residual, world)))"

definition apply_amend ::
  "digest \<Rightarrow> 'w worker_io \<Rightarrow> orderEventBuilder \<Rightarrow> EditOrderRequest \<Rightarrow> Time \<Rightarrow> OrderBook \<Rightarrow> 'w \<Rightarrow>
   'w applied" where
  "apply_amend H io events amend recordedAt book world =
     (case EditOrderAt book amend recordedAt of
        (book, None) \<Rightarrow> (eb_result H events, book, world)
      | (book, Some editResult) \<Rightarrow>
          let events = addAmended H events (edBefore editResult) (edAfter editResult)
          in if \<not> edRequiresRematch editResult then (eb_result H events, book, world)
             else
               let updated = edAfter editResult;
                   beforeMatch = updated;
                   (result, book, updated) = Match H book updated
               in case rErr result of
                    Some e \<Rightarrow> (Inl (quote_error e), book, world)
                  | None \<Rightarrow>
                 (case persistMatchLogs io (rLogs result) world of
                    (Some err, world) \<Rightarrow> (Inl err, book, world)
                  | (None, world) \<Rightarrow>
                      let events = addMakerFills H events (rMakerTransitions result);
                          filledAmount = wrap64 (oAmount beforeMatch - oAmount updated);
                          events = addTakerFill H events beforeMatch filledAmount (oAmount updated)
                      in case rResidual result of
                           None \<Rightarrow> (eb_result H events, book, world)
                         | Some residual \<Rightarrow> (eb_result H events, AddOrder book residual, world)))"

definition apply_cancel ::
  "digest \<Rightarrow> orderEventBuilder \<Rightarrow> CancelOrderRequest \<Rightarrow> OrderBook \<Rightarrow> 'w \<Rightarrow> 'w applied" where
  "apply_cancel H events cancel book world =
     (case RemoveOrder book (xOrderID cancel) of
        (book, None) \<Rightarrow> (eb_result H events, book, world)
      | (book, Some removed) \<Rightarrow> (eb_result H (addCanceled H events removed), book, world))"

text \<open>The command with the worker's configuration version when it has none.\<close>

definition versioned :: "BookWorker \<Rightarrow> Command \<Rightarrow> Command" where
  "versioned w command =
     (if jMarketConfigVersion command = 0
      then command\<lparr>jMarketConfigVersion := ConfigVersion (wPrecision w)\<rparr> else command)"

text \<open>
  \<open>applyCommand\<close>. A validated command has the payload of its type, so a missing payload, a
  nil dereference in the source, does not occur; the last branch is a command without type.
\<close>

definition applyCommand ::
  "digest \<Rightarrow> 'w worker_io \<Rightarrow> BookWorker \<Rightarrow> Command \<Rightarrow> 'w \<Rightarrow> 'w applied" where
  "applyCommand H io w command world =
     (case ValidateCommand command of
        Some err \<Rightarrow> (Inl err, wOrderBook w, world)
      | None \<Rightarrow>
          let command = versioned w command
          in if jMarketConfigVersion command \<noteq> ConfigVersion (wPrecision w)
             then (Inl (PlainError ''market config version mismatch''), wOrderBook w, world)
             else if IsZero (jRecordedAt command)
             then (Inl (ErrInvalidCommand ''recorded time is required''), wOrderBook w, world)
             else
               let events = newOrderEventBuilder command
               in case (jCreate command, jAmend command, jCancel command) of
                    (Some create, _, _) \<Rightarrow>
                      apply_create H io events create (jRecordedAt command) (wOrderBook w) world
                  | (None, Some amend, _) \<Rightarrow>
                      apply_amend H io events amend (jRecordedAt command) (wOrderBook w) world
                  | (None, None, Some cancel) \<Rightarrow> apply_cancel H events cancel (wOrderBook w) world
                  | (None, None, None) \<Rightarrow> (eb_result H events, wOrderBook w, world))"

text \<open>\<open>applyCommand\<close> and the persistence of its events, as \<open>Run\<close> and \<open>Replay\<close> do both.\<close>

definition apply_and_persist ::
  "digest \<Rightarrow> 'w worker_io \<Rightarrow> BookWorker \<Rightarrow> Command \<Rightarrow> 'w \<Rightarrow> error option \<times> BookWorker \<times> 'w" where
  "apply_and_persist H io w command world =
     (case applyCommand H io w command world of
        (Inl err, book, world) \<Rightarrow> (Some err, w\<lparr>wOrderBook := book\<rparr>, world)
      | (Inr events, book, world) \<Rightarrow>
          (case persistOrderEvents io events world of
             (err, world) \<Rightarrow> (err, w\<lparr>wOrderBook := book\<rparr>, world)))"

section \<open>The event loop\<close>

definition isCommandEvent :: "EventType \<Rightarrow> bool" where
  "isCommandEvent t \<longleftrightarrow> t = NewOrder \<or> t = EditOrder \<or> t = CancelOrder"

definition blank_command :: "BookWorker \<Rightarrow> string \<Rightarrow> CommandType \<Rightarrow> Command" where
  "blank_command w commandID commandType =
     \<lparr>jCommandID = commandID, jTicker = wTicker w, jSequence = 0, jType = commandType,
      jRecordedAt = zero_time, jMarketConfigVersion = ConfigVersion (wPrecision w),
      jCreate = None, jAmend = None, jCancel = None\<rparr>"

definition commandFromEvent :: "BookWorker \<Rightarrow> EngineEvent \<Rightarrow> Command option" where
  "commandFromEvent w ev =
     (case evType ev of
        NewOrder \<Rightarrow>
          (case evNewOrder ev of
             None \<Rightarrow> None
           | Some p \<Rightarrow>
               if cTicker p \<noteq> wTicker w then None
               else Some ((blank_command w (cCommandID p) CreateCommand)\<lparr>jCreate := Some p\<rparr>))
      | EditOrder \<Rightarrow>
          (case evEditReq ev of
             None \<Rightarrow> None
           | Some p \<Rightarrow>
               if eTicker p \<noteq> wTicker w then None
               else Some ((blank_command w (eCommandID p) AmendCommand)\<lparr>jAmend := Some p\<rparr>))
      | CancelOrder \<Rightarrow>
          (case evCancelReq ev of
             None \<Rightarrow> None
           | Some p \<Rightarrow>
               if xTicker p \<noteq> wTicker w then None
               else Some ((blank_command w (xCommandID p) CancelCommand)\<lparr>jCancel := Some p\<rparr>))
      | _ \<Rightarrow> None)"

record 'w sys =
  yWorker :: BookWorker
  yState :: EngineState
  yWorld :: 'w

text \<open>An engine that fails at a command: the state is halted and the sender gets its error.\<close>

definition halt_ack :: "error \<Rightarrow> 'w sys \<Rightarrow> reply \<times> 'w sys" where
  "halt_ack err y =
     (let st = Halt (yState y) (Some err) in (Ack (EngineState_Err st), y\<lparr>yState := st\<rparr>))"

text \<open>One iteration of \<open>Run\<close>.\<close>

definition handle_event :: "digest \<Rightarrow> 'w worker_io \<Rightarrow> EngineEvent \<Rightarrow> 'w sys \<Rightarrow> reply \<times> 'w sys" where
  "handle_event H io ev y =
     (if isCommandEvent (evType ev) \<and> EngineState_Err (yState y) \<noteq> None then
        (Ack (EngineState_Err (yState y)), y)
      else if evTicker ev \<noteq> [] \<and> evTicker ev \<noteq> wTicker (yWorker y) then
        (Ack (Some (PlainError ''mismatched ticker'')), y)
      else if evType ev = snapshotOrderBook then
        (SnapshotReply (Snapshot (wOrderBook (yWorker y)) (evSnapshotDepth ev)), y)
      else
        (case commandFromEvent (yWorker y) ev of
           None \<Rightarrow> (Ack None, y)
         | Some command \<Rightarrow>
             (case ioAppend io of
                None \<Rightarrow> halt_ack ErrJournalUnavailable y
              | Some doAppend \<Rightarrow>
                  (case doAppend command (yWorld y) of
                     (Inl err, world) \<Rightarrow> halt_ack err (y\<lparr>yWorld := world\<rparr>)
                   | (Inr appended, world) \<Rightarrow>
                       if \<not> apInserted appended then (Ack None, y\<lparr>yWorld := world\<rparr>)
                       else
                         (case apply_and_persist H io (yWorker y) (apCommand appended) world of
                            (err, w, world) \<Rightarrow>
                              let y = y\<lparr>yWorker := w, yWorld := world\<rparr>
                              in case err of
                                   None \<Rightarrow> (Ack None, y)
                                 | Some err \<Rightarrow> halt_ack err y)))))"

text \<open>\<open>Run\<close> on the events received until the channel is closed, with the replies in order.\<close>

fun Run :: "digest \<Rightarrow> 'w worker_io \<Rightarrow> EngineEvent list \<Rightarrow> 'w sys \<Rightarrow> reply list \<times> 'w sys" where
  "Run H io [] y = ([], y)"
| "Run H io (ev # evs) y =
     (case handle_event H io ev y of
        (r, y) \<Rightarrow> (case Run H io evs y of (rs, y) \<Rightarrow> (r # rs, y)))"

section \<open>Replay\<close>

fun replay_from ::
  "digest \<Rightarrow> 'w worker_io \<Rightarrow> nat \<Rightarrow> int \<Rightarrow> Command list \<Rightarrow> 'w sys \<Rightarrow> error option \<times> 'w sys" where
  "replay_from H io i lastSequence [] y = (None, y)"
| "replay_from H io i lastSequence (command # commands) y =
     (if jTicker command \<noteq> wTicker (yWorker y) \<or> jSequence command \<le> lastSequence then
        let err = ErrInvalidReplaySequence i (jTicker command)
        in (Some err, y\<lparr>yState := Halt (yState y) (Some err)\<rparr>)
      else
        (case apply_and_persist H io (yWorker y) command (yWorld y) of
           (err, w, world) \<Rightarrow>
             let y = y\<lparr>yWorker := w, yWorld := world\<rparr>
             in case err of
                  Some err \<Rightarrow>
                    (Some (Wrapped ''replay command'' err), y\<lparr>yState := Halt (yState y) (Some err)\<rparr>)
                | None \<Rightarrow> replay_from H io (i + 1) (jSequence command) commands y))"

definition Replay :: "digest \<Rightarrow> 'w worker_io \<Rightarrow> Command list \<Rightarrow> 'w sys \<Rightarrow> error option \<times> 'w sys" where
  "Replay H io commands y = replay_from H io 0 0 commands y"

end
