(* ===== verification/Router.thy ===== *)
theory Router
  imports BookWorker
begin

text \<open>
  The router of \<^verbatim>\<open>internal/engine/router.go\<close>: the workers by ticker, the engine state they share
  and the world they reach. A request holds the read lock from the check to the answer and the
  worker handles its events one at a time, so a routed command is one step of its worker; the
  router's own check of the engine state comes before the worker's (see \<open>router_check\<close>).
\<close>

record 'w Router =
  gWorkers :: "string \<Rightarrow> BookWorker option"
  gState :: EngineState
  gClosed :: bool
  gWorld :: 'w

definition NewRouter :: "'w \<Rightarrow> 'w Router" where
  "NewRouter world =
     \<lparr>gWorkers = Map.empty, gState = NewEngineState, gClosed = False, gWorld = world\<rparr>"

definition Register :: "string \<Rightarrow> BookWorker option \<Rightarrow> 'w Router \<Rightarrow> error option \<times> 'w Router" where
  "Register ticker w g =
     (if ticker = [] then (Some ErrEmptyTicker, g)
      else case w of
             None \<Rightarrow> (Some (PlainError ''nil worker for ticker''), g)
           | Some w \<Rightarrow>
               if gClosed g then (Some ErrRouterClosed, g)
               else if gWorkers g ticker \<noteq> None then (Some (ErrTickerExists ticker), g)
               else (None, g\<lparr>gWorkers := (gWorkers g)(ticker := Some w)\<rparr>))"

definition HasTicker :: "'w Router \<Rightarrow> string \<Rightarrow> bool" where
  "HasTicker g ticker \<longleftrightarrow> gWorkers g ticker \<noteq> None"

definition workerLocked :: "'w Router \<Rightarrow> string \<Rightarrow> error + BookWorker" where
  "workerLocked g ticker =
     (if ticker = [] then Inl ErrEmptyTicker
      else case gWorkers g ticker of None \<Rightarrow> Inl (ErrUnknownTicker ticker) | Some w \<Rightarrow> Inr w)"

text \<open>The router's step of one event on a worker: what the worker changes is put back.\<close>

definition worker_step ::
  "digest \<Rightarrow> 'w worker_io \<Rightarrow> string \<Rightarrow> BookWorker \<Rightarrow> EngineEvent \<Rightarrow> 'w Router \<Rightarrow> reply \<times> 'w Router" where
  "worker_step H io ticker w ev g =
     (case handle_event H io ev \<lparr>yWorker = w, yState = gState g, yWorld = gWorld g\<rparr> of
        (r, y) \<Rightarrow>
          (r, g\<lparr>gWorkers := (gWorkers g)(ticker := Some (yWorker y)), gState := yState y,
                gWorld := yWorld y\<rparr>))"

text \<open>
  \<open>None\<close> is a call that does not return: a snapshot request without a channel for the snapshot
  is never acknowledged.
\<close>

definition OrderRouter ::
  "digest \<Rightarrow> 'w worker_io \<Rightarrow> EngineEvent \<Rightarrow> 'w Router \<Rightarrow> error option option \<times> 'w Router" where
  "OrderRouter H io ev g =
     (if gClosed g then (Some (Some ErrRouterClosed), g)
      else case workerLocked g (evTicker ev) of
             Inl err \<Rightarrow> (Some (Some err), g)
           | Inr w \<Rightarrow>
               (case EngineState_Err (gState g) of
                  Some err \<Rightarrow> (Some (Some err), g)
                | None \<Rightarrow>
                    (case worker_step H io (evTicker ev) w ev g of
                       (Ack err, g) \<Rightarrow> (Some err, g)
                     | (SnapshotReply _, g) \<Rightarrow> (None, g))))"

definition snapshot_event :: "string \<Rightarrow> int \<Rightarrow> EngineEvent" where
  "snapshot_event ticker depth =
     \<lparr>evType = snapshotOrderBook, evTicker = ticker, evNewOrder = None, evCancelReq = None,
      evEditReq = None, evSnapshotDepth = depth\<rparr>"

text \<open>A worker registered under a ticker that is not its own rejects the event and never answers.\<close>

definition OrderBookSnapshot_of ::
  "digest \<Rightarrow> 'w worker_io \<Rightarrow> string \<Rightarrow> int \<Rightarrow> 'w Router \<Rightarrow> (error + OrderBookSnapshot) option" where
  "OrderBookSnapshot_of H io ticker depth g =
     (if gClosed g then Some (Inl ErrRouterClosed)
      else case workerLocked g ticker of
             Inl err \<Rightarrow> Some (Inl err)
           | Inr w \<Rightarrow>
               (case worker_step H io ticker w (snapshot_event ticker depth) g of
                  (SnapshotReply s, _) \<Rightarrow> Some (Inr s)
                | (Ack _, _) \<Rightarrow> None))"

definition MarketPrecision :: "'w Router \<Rightarrow> string \<Rightarrow> error + Precision" where
  "MarketPrecision g ticker =
     (if gClosed g then Inl ErrRouterClosed
      else case workerLocked g ticker of Inl err \<Rightarrow> Inl err | Inr w \<Rightarrow> Inr (wPrecision w))"

definition Ready :: "'w Router \<Rightarrow> error option" where
  "Ready g = (if gClosed g then Some ErrRouterClosed else EngineState_Err (gState g))"

text \<open>
  Closing the channels lets every worker drain its events and end. \<open>ctxErr\<close> is the context's
  error when it ended before a worker did.
\<close>

definition Shutdown :: "error option \<Rightarrow> 'w Router \<Rightarrow> error option \<times> 'w Router" where
  "Shutdown ctxErr g =
     (case ctxErr of None \<Rightarrow> None | Some err \<Rightarrow> Some (Wrapped ''shutdown workers'' err),
      g\<lparr>gClosed := True\<rparr>)"

section \<open>The engine state is sticky\<close>

lemma Halt_first [simp]: "esCause (Halt s cause) \<noteq> None"
  by (simp add: Halt_def Let_def split: option.split)

lemma Halt_some [simp]: "\<exists>e. esCause (Halt s cause) = Some e"
  using Halt_first by (simp only: not_None_eq)

lemma EngineState_Err_cause: "EngineState_Err s = map_option haltedError (esCause s)"
  by (simp add: EngineState_Err_def split: option.split)

lemma Halt_keeps: "esCause s = Some cause \<Longrightarrow> Halt s err = s"
  by (simp add: Halt_def Let_def)

lemma halt_ack_simps [simp]:
  "yWorker (snd (halt_ack err y)) = yWorker y" "yWorld (snd (halt_ack err y)) = yWorld y"
  "yState (snd (halt_ack err y)) = Halt (yState y) (Some err)"
  "fst (halt_ack err y) = Ack (EngineState_Err (Halt (yState y) (Some err)))"
  by (simp_all add: halt_ack_def Let_def)

lemma handle_event_halted:
  assumes "EngineState_Err (yState y) \<noteq> None"
  shows "snd (handle_event H io ev y) = y"
proof (cases "isCommandEvent (evType ev)")
  case False
  then have "commandFromEvent (yWorker y) ev = None"
    by (cases "evType ev") (simp_all add: isCommandEvent_def commandFromEvent_def)
  then show ?thesis using False by (simp add: handle_event_def)
qed (use assms in \<open>simp add: handle_event_def\<close>)

text \<open>An event that carries a command, on an engine that is not halted.\<close>

lemma handle_event_command:
  assumes "commandFromEvent (yWorker y) ev = Some c" "EngineState_Err (yState y) = None"
    "evTicker ev = [] \<or> evTicker ev = wTicker (yWorker y)"
  shows "handle_event H io ev y = (case ioAppend io of
      None \<Rightarrow> halt_ack ErrJournalUnavailable y
    | Some doAppend \<Rightarrow>
        (case doAppend c (yWorld y) of
           (Inl err, world) \<Rightarrow> halt_ack err (y\<lparr>yWorld := world\<rparr>)
         | (Inr appended, world) \<Rightarrow>
             if \<not> apInserted appended then (Ack None, y\<lparr>yWorld := world\<rparr>)
             else
               (case apply_and_persist H io (yWorker y) (apCommand appended) world of
                  (err, w, world) \<Rightarrow>
                    let y = y\<lparr>yWorker := w, yWorld := world\<rparr>
                    in case err of None \<Rightarrow> (Ack None, y) | Some err \<Rightarrow> halt_ack err y)))"
proof -
  have g: "(evTicker ev \<noteq> [] \<and> evTicker ev \<noteq> wTicker (yWorker y)) = False"
    "(evType ev = snapshotOrderBook) = False"
    using assms(1,3) by (auto simp: commandFromEvent_def split: EventType.splits)
  show ?thesis unfolding handle_event_def g by (simp add: assms(1,2))
qed

text \<open>An event that changes something or is acknowledged as a success carries such a command.\<close>

lemma handle_event_guards:
  assumes "handle_event H io ev y = (r, y')" "y' \<noteq> y \<or> r = Ack None"
  shows "commandFromEvent (yWorker y) ev \<noteq> None \<Longrightarrow> EngineState_Err (yState y) = None \<and>
      (evTicker ev = [] \<or> evTicker ev = wTicker (yWorker y))"
    "y' \<noteq> y \<Longrightarrow> commandFromEvent (yWorker y) ev \<noteq> None"
proof -
  have "isCommandEvent (evType ev)" if "commandFromEvent (yWorker y) ev \<noteq> None"
    using that by (auto simp: commandFromEvent_def isCommandEvent_def split: EventType.splits)
  then show "commandFromEvent (yWorker y) ev \<noteq> None \<Longrightarrow> EngineState_Err (yState y) = None \<and>
      (evTicker ev = [] \<or> evTicker ev = wTicker (yWorker y))"
    using assms by (auto simp: handle_event_def split: if_splits)
  show "y' \<noteq> y \<Longrightarrow> commandFromEvent (yWorker y) ev \<noteq> None"
    using assms(1) by (cases "commandFromEvent (yWorker y) ev") (auto simp: handle_event_def split: if_splits)
qed

text \<open>
  The router's own check of the engine state changes no answer: a command that passed it before
  another ticker halted the engine gets the same error from its worker.
\<close>

lemma router_check:
  assumes "isCommandEvent (evType ev)" "EngineState_Err (gState g) = Some err"
  shows "worker_step H io ticker w ev g = (Ack (Some err), g\<lparr>gWorkers := (gWorkers g)(ticker := Some w)\<rparr>)"
  using assms by (simp add: worker_step_def handle_event_def)

text \<open>A request that changes anything is a step of its ticker's worker, on an engine that is not halted.\<close>

lemma OrderRouter_changes:
  assumes "OrderRouter H io ev g = (r, g')" "g' \<noteq> g"
  obtains w where "gWorkers g (evTicker ev) = Some w" "EngineState_Err (gState g) = None"
    "g' = snd (worker_step H io (evTicker ev) w ev g)"
  using assms that
  by (auto simp: OrderRouter_def workerLocked_def split: if_splits option.splits sum.splits prod.splits reply.splits)

end
