(* ===== verification/JournalContract.thy ===== *)
theory JournalContract
  imports Journal
begin

text \<open>
  What the engine relies on of a journal: the interface \<open>Store\<close> of
  \<^verbatim>\<open>internal/journal/journal.go\<close>. The state of a journal holds a log of commands, related to it
  by \<open>log\<close>. An append that answers has added exactly one entry or found one with the same
  payload; one that fails has added an entry or none, as the answer of a database can be lost.
  Reading gives the commands of every ticker in the order of the log.
\<close>

definition default_version :: "Command \<Rightarrow> Command" where
  "default_version command =
     (if jMarketConfigVersion command = 0
      then command\<lparr>jMarketConfigVersion := DefaultConfigVersion\<rparr> else command)"

text \<open>An entry is the command with the sequence and the time the journal gives it.\<close>

definition journal_entry :: "Command \<Rightarrow> Command \<Rightarrow> bool" where
  "journal_entry c e \<longleftrightarrow>
     e = (default_version c)\<lparr>jSequence := jSequence e, jRecordedAt := jRecordedAt e\<rparr>"

lemma journal_entry_fields:
  assumes "journal_entry c e"
  shows "jTicker e = jTicker c" "jCommandID e = jCommandID c" "jCancel e = jCancel c"
    "jCreate e = jCreate c" "jAmend e = jAmend c"
proof -
  obtain n t where "e = (default_version c)\<lparr>jSequence := n, jRecordedAt := t\<rparr>"
    using assms unfolding journal_entry_def by blast
  then show "jTicker e = jTicker c" "jCommandID e = jCommandID c" "jCancel e = jCancel c"
    "jCreate e = jCreate c" "jAmend e = jAmend c"
    by (simp_all add: default_version_def)
qed

definition stored_command :: "Command \<Rightarrow> bool" where
  "stored_command c \<longleftrightarrow> ValidateCommand c = None \<and> wire_command c \<and> 0 < jSequence c"

definition sequenced :: "Command list \<Rightarrow> bool" where
  "sequenced L \<longleftrightarrow> sorted_wrt (\<lambda>c d. jTicker c = jTicker d \<longrightarrow> jSequence c < jSequence d) L"

definition of_ticker :: "string \<Rightarrow> Command list \<Rightarrow> Command list" where
  "of_ticker ticker L = filter (\<lambda>c. jTicker c = ticker) L"

lemma of_ticker_append [simp]:
  "of_ticker t (L @ M) = of_ticker t L @ of_ticker t M" "of_ticker t [] = []"
  by (simp_all add: of_ticker_def)

lemma sequenced_ticker:
  "sequenced L \<Longrightarrow> sorted_wrt (\<lambda>c d. jSequence c < jSequence d) (of_ticker t L)"
  unfolding sequenced_def of_ticker_def
  by (induction L) auto

locale command_journal =
  fixes append :: "Command \<Rightarrow> 's \<Rightarrow> (error + AppendResult) \<times> 's"
    and read :: "'s \<Rightarrow> (error + Command list) \<times> 's"
    and log :: "Command list \<Rightarrow> 's \<Rightarrow> bool"
  assumes append_inserted: "log L s \<Longrightarrow> wire_command c \<Longrightarrow> append c s = (Inr a, s') \<Longrightarrow> apInserted a \<Longrightarrow>
      journal_entry c (apCommand a) \<and> log (L @ [apCommand a]) s'"
    and append_existing: "log L s \<Longrightarrow> wire_command c \<Longrightarrow> append c s = (Inr a, s') \<Longrightarrow> \<not> apInserted a \<Longrightarrow>
      apCommand a \<in> set L \<and> SamePayload (default_version c) (apCommand a) \<and> log L s'"
    and append_failed: "log L s \<Longrightarrow> wire_command c \<Longrightarrow> append c s = (Inl err, s') \<Longrightarrow>
      log L s' \<or> (\<exists>e. journal_entry c e \<and> log (L @ [e]) s')"
    and read_commands: "log L s \<Longrightarrow> read s = (Inr cs, s') \<Longrightarrow> of_ticker t cs = of_ticker t L \<and> log L s'"
    and read_failed: "log L s \<Longrightarrow> read s = (Inl err, s') \<Longrightarrow> log L s'"
    and log_stored: "log L s \<Longrightarrow> c \<in> set L \<Longrightarrow> stored_command c"
    and log_sequenced: "log L s \<Longrightarrow> sequenced L"

end
