(* ===== verification/WorkerBook.thy ===== *)
theory WorkerBook
  imports BookWorker BookProperties
begin

text \<open>
  The invariant the worker keeps of its book and what one command does to it. \<open>engine_book\<close>
  says that the book is correct, holds limit orders of valid identity only and is not crossed:
  no resting bid reaches a resting ask.
\<close>

section \<open>The invariant\<close>

definition uncrossed :: "abs_book \<Rightarrow> bool" where
  "uncrossed v \<longleftrightarrow> (\<forall>b \<in> set (v BidSide). \<forall>a \<in> set (v AskSide). oPrice b < oPrice a)"

definition resting_sound :: "abs_book \<Rightarrow> bool" where
  "resting_sound v \<longleftrightarrow> (\<forall>sd. \<forall>x \<in> set (v sd). order_sound x \<and> oOrderType x = Limit)"

definition engine_book :: "OrderBook \<Rightarrow> bool" where
  "engine_book ob \<longleftrightarrow> book_ok ob \<and> resting_sound (side_view ob) \<and> uncrossed (side_view ob)"

definition id_free :: "abs_book \<Rightarrow> string \<Rightarrow> bool" where
  "id_free v orderID \<longleftrightarrow> (\<forall>sd. \<forall>x \<in> set (v sd). oOrderID x \<noteq> orderID)"

lemma all_sides: "(\<forall>sd. P sd) \<longleftrightarrow> P BidSide \<and> P AskSide"
  by (metis book_side.exhaust)

lemma id_free_find: "id_free v orderID \<longleftrightarrow> abs_find v orderID = None"
  by (auto simp: id_free_def abs_find_def find_None_iff all_sides)

lemma engine_bookD:
  assumes "engine_book ob"
  shows "book_ok ob" "resting_sound (side_view ob)" "uncrossed (side_view ob)"
  using assms by (simp_all add: engine_book_def)

lemma order_sound_amount [simp]: "order_sound (x\<lparr>oAmount := a\<rparr>) = order_sound x"
  by (simp add: order_sound_def)

lemma order_sound_opposite:
  assumes "order_sound x"
  obtains (bid) "oPosition x = Bid" "side (oPosition x) = Some BidSide" "opposite (oPosition x) = Some AskSide"
    | (ask) "oPosition x = Ask" "side (oPosition x) = Some AskSide" "opposite (oPosition x) = Some BidSide"
  using assms that by (auto simp: order_sound_def side_def opposite_def)

lemma view_amount:
  assumes "book_ok ob" "x \<in> set (side_view ob sd)"
  shows "0 < oAmount x" "int64 (oAmount x)" "side (oPosition x) = Some sd"
  using side_view_order [OF assms] by (simp_all add: order_at_def)

lemma new_book_view: "side_view (NewOrderBookWithPrecision t p) = (\<lambda>sd. [])"
proof
  show "side_view (NewOrderBookWithPrecision t p) sd = []" for sd
    by (cases sd) (simp_all add: side_view_def prices_of_def priority_list_def NewOrderBookWithPrecision_def
        heap_Init_def Let_def)
qed

lemma new_engine_book: "engine_book (NewOrderBookWithPrecision t p)"
  by (simp add: engine_book_def book_ok_new new_book_view resting_sound_def uncrossed_def)

text \<open>
  A view whose orders are all orders of another, with other amounts and times at most, keeps
  the invariant.
\<close>

definition same_order :: "BookOrder \<Rightarrow> BookOrder \<Rightarrow> bool" where
  "same_order x y \<longleftrightarrow> oOrderID x = oOrderID y \<and> oUserID x = oUserID y \<and>
     oOrderType x = oOrderType y \<and> oPosition x = oPosition y \<and> oPrice x = oPrice y"

definition thinner :: "abs_book \<Rightarrow> abs_book \<Rightarrow> bool" where
  "thinner v' v \<longleftrightarrow> (\<forall>sd. \<forall>x \<in> set (v' sd). \<exists>y \<in> set (v sd). same_order x y)"

lemma same_order_sound: "same_order x y \<Longrightarrow> order_sound x = order_sound y"
  by (simp add: same_order_def order_sound_def)

lemma same_order_amount [simp]: "same_order (y\<lparr>oAmount := a\<rparr>) y" "same_order y y"
  by (simp_all add: same_order_def)

lemma thinner_keeps:
  assumes "thinner v' v"
  shows "resting_sound v \<Longrightarrow> resting_sound v'" "uncrossed v \<Longrightarrow> uncrossed v'"
    "id_free v orderID \<Longrightarrow> id_free v' orderID"
proof -
  have th: "\<exists>y \<in> set (v sd). oOrderID x = oOrderID y \<and> oPrice x = oPrice y \<and>
      oOrderType x = oOrderType y \<and> order_sound x = order_sound y" if "x \<in> set (v' sd)" for sd x
    using assms that same_order_sound unfolding thinner_def same_order_def by blast
  show "resting_sound v \<Longrightarrow> resting_sound v'"
    unfolding resting_sound_def using th by metis
  show "id_free v orderID \<Longrightarrow> id_free v' orderID"
    unfolding id_free_def using th by metis
  show "uncrossed v \<Longrightarrow> uncrossed v'"
    unfolding uncrossed_def using th by metis
qed

lemma thinner_self: "(\<And>sd. set (v' sd) \<subseteq> set (v sd)) \<Longrightarrow> thinner v' v"
  unfolding thinner_def by (metis same_order_amount(2) subsetD)

text \<open>What becomes of the order identities: a book gains those of \<open>ids\<close> at most.\<close>

definition gains_ids :: "string set \<Rightarrow> OrderBook \<Rightarrow> OrderBook \<Rightarrow> bool" where
  "gains_ids ids ob ob' \<longleftrightarrow>
     (\<forall>i. i \<notin> ids \<longrightarrow> id_free (side_view ob) i \<longrightarrow> id_free (side_view ob') i)"

lemma thinner_gains: "thinner (side_view ob') (side_view ob) \<Longrightarrow> gains_ids ids ob ob'"
  using thinner_keeps(3) by (simp add: gains_ids_def)

lemma gains_trans: "gains_ids ids a b \<Longrightarrow> gains_ids ids b c \<Longrightarrow> gains_ids ids a c"
  by (simp add: gains_ids_def)

lemma gains_resting: "gains_ids {i} ob ob' \<Longrightarrow> \<not> id_free (side_view ob) i \<Longrightarrow> gains_ids {} ob ob'"
  by (auto simp: gains_ids_def)

section \<open>What a walk leaves\<close>

lemma abs_match_resting:
  "x \<in> set (wResting (abs_match H ticker prec inc n xs)) \<Longrightarrow> \<exists>y \<in> set xs. \<exists>a. x = y\<lparr>oAmount := a\<rparr>"
proof (induction xs arbitrary: inc n)
  case (Cons m ms)
  have self: "\<exists>a. y = y\<lparr>oAmount := a\<rparr>" for y :: BookOrder
    by (metis BookOrder.surjective BookOrder.update_convs(7))
  let ?t = "min (oAmount inc) (oAmount m)"
  have IH: "x \<in> set (wResting (abs_match H ticker prec (inc\<lparr>oAmount := oAmount inc - ?t\<rparr>) (n + 1) ms)) \<Longrightarrow>
      \<exists>y \<in> set (m # ms). \<exists>a. x = y\<lparr>oAmount := a\<rparr>"
    using Cons.IH [of "inc\<lparr>oAmount := oAmount inc - ?t\<rparr>" "n + 1"] by auto
  have keep: "x \<in> set (m # ms) \<Longrightarrow> \<exists>y \<in> set (m # ms). \<exists>a. x = y\<lparr>oAmount := a\<rparr>" using self by blast
  show ?case
    using Cons.prems IH keep by (auto simp: Let_def split: if_splits sum.splits)
qed simp

lemma abs_match_transition_sound:
  assumes "\<And>x. x \<in> set xs \<Longrightarrow> order_sound x \<and> 0 < oAmount x \<and> int64 (oAmount x)"
    "t \<in> set (wTransitions (abs_match H ticker prec inc n xs))"
  shows "sound_transition t"
  using assms
proof (induction xs arbitrary: inc n)
  case (Cons m ms)
  have m: "order_sound m" "0 < oAmount m" "int64 (oAmount m)" using Cons.prems(1) by simp_all
  let ?t = "min (oAmount inc) (oAmount m)"
  have IH: "t \<in> set (wTransitions (abs_match H ticker prec (inc\<lparr>oAmount := oAmount inc - ?t\<rparr>) (n + 1) ms)) \<Longrightarrow>
      sound_transition t"
    using Cons.IH [of "inc\<lparr>oAmount := oAmount inc - ?t\<rparr>" "n + 1"] Cons.prems(1) by auto
  show ?case
    using Cons.prems(2) IH m
    by (auto simp: Let_def sound_transition_def min_def split: if_splits sum.splits)
qed simp

lemma abs_match_transitions_length:
  "length (wTransitions (abs_match H ticker prec inc n xs)) \<le> length xs"
proof (induction xs arbitrary: inc n)
  case (Cons m ms)
  show ?case
    using Cons.IH [of "inc\<lparr>oAmount := oAmount inc - min (oAmount inc) (oAmount m)\<rparr>" "n + 1"]
    by (auto simp: Let_def split: sum.splits)
qed simp

section \<open>Matching on the worker's book\<close>

lemma match_engine_book:
  assumes eb: "engine_book book" and o: "order_sound order" "0 < oAmount order" "int64 (oAmount order)"
    and M: "Match H book order = (res, book', order')"
  shows "engine_book book'" "thinner (side_view book') (side_view book)"
    "bTicker book' = bTicker book" "bPrecision book' = bPrecision book"
    "\<And>t. t \<in> set (rMakerTransitions res) \<Longrightarrow> sound_transition t"
    "length (rMakerTransitions res) \<le> length (side_view book BidSide @ side_view book AskSide)"
proof -
  note E = engine_bookD [OF eb]
  obtain sd where sd: "opposite (oPosition order) = Some sd" using o(1) by (cases rule: order_sound_opposite)
  define w where "w = abs_match H (bTicker book) (bPrecision book) order 0 (side_view book sd)"
  note R = Match_result [OF E(1) o(3) sd M, folded w_def]
  have "\<exists>y \<in> set (side_view book s). same_order x y" if "x \<in> set (side_view book' s)" for x s
  proof (cases "s = sd")
    case True
    have "x \<in> set (wResting w)" using that R(6) by (simp add: True)
    then obtain y a where "y \<in> set (side_view book sd)" "x = y\<lparr>oAmount := a\<rparr>"
      using abs_match_resting unfolding w_def by blast
    then show ?thesis by (intro bexI [of _ y]) (simp_all add: True)
  next
    case False
    then have "x \<in> set (side_view book s)" using that R(6) by simp
    then show ?thesis using same_order_amount(2) by blast
  qed
  then show th: "thinner (side_view book') (side_view book)" by (simp add: thinner_def)
  show "engine_book book'"
    using thinner_keeps(1,2) [OF th] E R(3) by (simp add: engine_book_def)
  show "bTicker book' = bTicker book" "bPrecision book' = bPrecision book" using R(4,5) by simp_all
  have sound: "order_sound x \<and> 0 < oAmount x \<and> int64 (oAmount x)" if "x \<in> set (side_view book sd)" for x
    using E(2) view_amount [OF E(1) that] that by (auto simp: resting_sound_def)
  show "sound_transition t" if "t \<in> set (rMakerTransitions res)" for t
    using abs_match_transition_sound [OF sound] that R(1) unfolding w_def by (simp add: walk_result_def)
  have "length (rMakerTransitions res) \<le> length (side_view book sd)"
    using abs_match_transitions_length R(1) unfolding w_def by (simp add: walk_result_def)
  then show "length (rMakerTransitions res) \<le> length (side_view book BidSide @ side_view book AskSide)"
    by (cases sd) simp_all
qed

lemma set_priority_insert [simp]: "set (priority_insert sd order xs) = insert order (set xs)"
proof -
  let ?P = "\<lambda>x. \<not> side_Less sd (oPrice order) (oPrice x)"
  have "set xs = set (takeWhile ?P xs) \<union> set (dropWhile ?P xs)"
    by (metis set_append takeWhile_dropWhile_id)
  then show ?thesis by (auto simp: priority_insert_def)
qed

text \<open>Adding a sound limit order that crosses nothing keeps the invariant.\<close>

lemma add_engine_book:
  assumes eb: "engine_book book" and o: "order_sound order" "oOrderType order = Limit" "0 < oAmount order" "int64 (oAmount order)"
    and free: "id_free (side_view book) (oOrderID order)"
    and sd: "side (oPosition order) = Some sd" "opposite (oPosition order) = Some opp"
    and nc: "\<And>x. x \<in> set (side_view book opp) \<Longrightarrow> \<not> canMatchAtPrice order (oPrice x)"
  shows "engine_book (AddOrder book order)"
    "side_view (AddOrder book order) = (side_view book)(sd := priority_insert sd order (side_view book sd))"
    "bTicker (AddOrder book order) = bTicker book" "bPrecision (AddOrder book order) = bPrecision book"
proof -
  note E = engine_bookD [OF eb]
  have "oOrderID order \<noteq> []" using o(1) by (auto simp: order_sound_def)
  then have at: "order_at sd (oPrice order) order" using sd(1) o(3,4) by (simp add: order_at_def)
  have none: "bIndex book (oOrderID order) = None"
    using free by (simp add: id_free_find abs_find_index [OF E(1)])
  show view: "side_view (AddOrder book order) = (side_view book)(sd := priority_insert sd order (side_view book sd))"
    using AddOrder_view [OF E(1) sd(1)] by (simp add: abs_add_def sd(1))
  have "resting_sound (side_view (AddOrder book order))"
    using E(2) o(1,2) by (auto simp: view resting_sound_def)
  moreover have "uncrossed (side_view (AddOrder book order))"
    using E(3) nc sd o(2) by (cases sd) (auto simp: view uncrossed_def canMatchAtPrice_def side_def opposite_def not_le split: if_splits)
  ultimately show "engine_book (AddOrder book order)"
    using AddOrder_ok [OF E(1) sd(1) at none] by (simp add: engine_book_def)
  show "bTicker (AddOrder book order) = bTicker book" "bPrecision (AddOrder book order) = bPrecision book"
    using AddOrder_steps(8,9) [OF E(1) sd(1)] by simp_all
qed

lemma rest_residual:
  assumes eb: "engine_book book" and o: "order_sound order" "oOrderType order = Limit" "0 < oAmount order" "int64 (oAmount order)"
    and free: "id_free (side_view book) (oOrderID order)"
    and M: "Match H book order = (res, book', order')" "rErr res = None" "rResidual res = Some residual"
  shows "engine_book (AddOrder book' residual)"
    "bTicker (AddOrder book' residual) = bTicker book" "bPrecision (AddOrder book' residual) = bPrecision book"
    "gains_ids {oOrderID order} book (AddOrder book' residual)"
proof -
  note E = engine_bookD [OF eb]
  obtain sd opp where sd: "side (oPosition order) = Some sd" "opposite (oPosition order) = Some opp"
    using o(1) by (cases rule: order_sound_opposite)
  note N = match_engine_book [OF eb o(1,3,4) M(1)]
  note O = Match_outcome [OF E(1) o(4) sd(2) o(3) M(1)]
  have r: "residual = order'" "0 < oAmount residual" using O(5) M(2,3) by (auto split: if_splits)
  obtain a where a: "residual = order\<lparr>oAmount := a\<rparr>" using O(1) r(1) by metis
  have i: "int64 (oAmount residual)" using O(4) r(1) by simp
  have "engine_book (AddOrder book' residual) \<and> bTicker (AddOrder book' residual) = bTicker book' \<and>
      bPrecision (AddOrder book' residual) = bPrecision book' \<and>
      side_view (AddOrder book' residual) = (side_view book')(sd := priority_insert sd residual (side_view book' sd))"
    using add_engine_book [OF N(1), of residual sd opp] Match_no_cross [OF E(1) o(4) sd(2) M]
      thinner_keeps(3) [OF N(2) free] o(1,2) sd r(2) i by (simp add: a)
  note A = this
  then show "engine_book (AddOrder book' residual)" "bTicker (AddOrder book' residual) = bTicker book"
    "bPrecision (AddOrder book' residual) = bPrecision book" using N(3,4) by simp_all
  have "gains_ids {oOrderID order} book' (AddOrder book' residual)"
    using A by (auto simp: gains_ids_def id_free_def a)
  then show "gains_ids {oOrderID order} book (AddOrder book' residual)"
    using gains_trans thinner_gains [OF N(2)] by blast
qed

section \<open>Amending and cancelling on the worker's book\<close>

lemma abs_find_found:
  assumes "abs_find v orderID = Some x"
  obtains sd where "x \<in> set (v sd)" "oOrderID x = orderID"
proof -
  have "find P xs = Some y \<Longrightarrow> y \<in> set xs \<and> P y" for P xs and y :: BookOrder
    by (induction xs) (auto split: if_splits)
  then have "x \<in> set (v BidSide @ v AskSide)" "oOrderID x = orderID"
    using assms unfolding abs_find_def by blast+
  then show ?thesis using that by auto
qed

lemma abs_remove_free: "id_free (abs_remove v orderID) orderID"
  by (simp add: id_free_def abs_remove_def)

lemma abs_remove_thinner: "thinner (abs_remove v orderID) v"
  by (rule thinner_self) (auto simp: abs_remove_def)

lemma cancel_engine_book:
  assumes "engine_book book" "RemoveOrder book orderID = (book', removed)"
  shows "engine_book book'" "bTicker book' = bTicker book" "bPrecision book' = bPrecision book"
    "removed = Some x \<Longrightarrow> order_sound x \<and> 0 < oAmount x"
    "thinner (side_view book') (side_view book)"
proof -
  note E = engine_bookD [OF assms(1)]
  note R = RemoveOrder_refines [OF E(1), of orderID, unfolded assms(2) fst_conv snd_conv]
  show "engine_book book'"
    using thinner_keeps(1,2) [OF abs_remove_thinner] E R(1,2) by (simp add: engine_book_def)
  show "bTicker book' = bTicker book" "bPrecision book' = bPrecision book" using R(4,5) by simp_all
  show "thinner (side_view book') (side_view book)" using abs_remove_thinner R(2) by simp
  show "order_sound x \<and> 0 < oAmount x" if "removed = Some x"
    using that R(3) abs_find_found [of "side_view book" orderID x] E(2) view_amount(1) [OF E(1)]
    by (metis resting_sound_def)
qed

lemma view_id_unique:
  assumes "book_ok ob" "x \<in> set (side_view ob sd)" "y \<in> set (side_view ob sd')" "oOrderID x = oOrderID y"
  shows "x = y"
  using view_id_index [OF assms(1,2)] view_id_index [OF assms(1,3)] assms(4) by (metis option.inject)

lemma same_place_thinner:
  assumes ok: "book_ok book" and x: "before \<in> set (side_view book sd)" and s: "same_order after before"
  shows "thinner (abs_add (abs_remove (side_view book) (oOrderID before)) after) (side_view book)"
    "thinner (abs_replace (side_view book) after) (side_view book)"
proof -
  let ?v = "side_view book"
  have sd: "side (oPosition after) = Some sd" "oOrderID after = oOrderID before"
    using s view_amount(3) [OF ok x] by (simp_all add: same_order_def)
  have place: "\<exists>y \<in> set (?v t). same_order z y" if "z = after \<and> before \<in> set (?v t) \<or> z \<in> set (?v t)" for z t
    using that s same_order_amount(2) by blast
  have "z = after \<and> before \<in> set (?v t) \<or> z \<in> set (?v t)"
    if "z \<in> set (abs_add (abs_remove ?v (oOrderID before)) after t)" for z t
    using that x by (cases "t = sd") (auto simp: abs_add_def abs_remove_def sd(1))
  then show "thinner (abs_add (abs_remove ?v (oOrderID before)) after) ?v"
    unfolding thinner_def using place by blast
  have id: "y = before" if "y \<in> set (?v t)" "oOrderID y = oOrderID before" for y t
    by (rule view_id_unique [OF ok that(1) x that(2)])
  have "z = after \<and> before \<in> set (?v t) \<or> z \<in> set (?v t)" if z: "z \<in> set (abs_replace ?v after t)" for z t
  proof -
    obtain y where "y \<in> set (?v t)" "z = (if oOrderID y = oOrderID before then after else y)"
      using z by (auto simp: abs_replace_def sd(2))
    then show ?thesis using id by (cases "oOrderID y = oOrderID before") auto
  qed
  then show "thinner (abs_replace ?v after) ?v"
    unfolding thinner_def using place by blast
qed

text \<open>The outcome of \<open>EditOrderAt\<close> for a valid amendment.\<close>

lemma edit_engine_book:
  assumes eb: "engine_book book" and req: "valid_amend_payload req" "edit_amount_ok req"
    and ed: "EditOrderAt book req t = (book', result)"
  shows "engine_book book'" "bTicker book' = bTicker book" "bPrecision book' = bPrecision book"
    "thinner (side_view book') (side_view book)"
    "result = Some r \<Longrightarrow> order_sound (edAfter r) \<and> oOrderType (edAfter r) = Limit \<and>
      0 < oAmount (edAfter r) \<and> int64 (oAmount (edAfter r)) \<and> 0 < oPrice (edBefore r) \<and>
      0 < oPrice (edAfter r) \<and> 0 < oAmount (edBefore r) \<and>
      \<not> id_free (side_view book) (oOrderID (edAfter r)) \<and>
      (edRequiresRematch r \<longrightarrow> id_free (side_view book') (oOrderID (edAfter r)) \<and>
        side_view book' = abs_remove (side_view book) (eOrderID req))"
proof -
  note E = engine_bookD [OF eb]
  note R = EditOrderAt_refines [OF E(1) req(2), of t, unfolded ed fst_conv snd_conv]
  show "bTicker book' = bTicker book" "bPrecision book' = bPrecision book" using R(3,4) by simp_all
  have "thinner (side_view book') (side_view book) \<and>
    (result = Some r \<longrightarrow> order_sound (edAfter r) \<and> oOrderType (edAfter r) = Limit \<and>
      0 < oAmount (edAfter r) \<and> int64 (oAmount (edAfter r)) \<and> 0 < oPrice (edBefore r) \<and>
      0 < oPrice (edAfter r) \<and> 0 < oAmount (edBefore r) \<and>
      \<not> id_free (side_view book) (oOrderID (edAfter r)) \<and>
      (edRequiresRematch r \<longrightarrow> id_free (side_view book') (oOrderID (edAfter r)) \<and>
        side_view book' = abs_remove (side_view book) (eOrderID req)))"
  proof (cases "abs_find (side_view book) (eOrderID req)")
    case None
    then show ?thesis using R(2) by (simp add: abs_edit_def thinner_self)
  next
    case (Some x)
    then obtain sd where x: "x \<in> set (side_view book sd)" "oOrderID x = eOrderID req"
      by (rule abs_find_found)
    define amount where "amount = (case eAmount req of None \<Rightarrow> oAmount x | Some a \<Rightarrow> a)"
    define after where "after = x\<lparr>oPrice := ePrice req, oAmount := amount, oTimestamp := t\<rparr>"
    have xs: "order_sound x" "oOrderType x = Limit" "0 < oAmount x" "int64 (oAmount x)"
      using E(2) view_amount [OF E(1) x(1)] x(1) by (auto simp: resting_sound_def)
    have am: "0 < amount" "int64 amount" using xs(3,4) req(2) by (auto simp: amount_def edit_amount_ok_def split: option.splits)
    have p: "0 < ePrice req" "0 < oPrice x" using req(1) xs(1,2) by (auto simp: valid_amend_payload_def order_sound_def)
    have as: "order_sound after" "oOrderType after = Limit" "oAmount after = amount" "oPrice after = ePrice req"
      "oOrderID after = oOrderID x"
      using xs(1,2) p by (auto simp: after_def order_sound_def)
    have same: "ePrice req = oPrice x \<Longrightarrow> same_order after x" by (simp add: after_def same_order_def)
    have S: "(side_view book', result) =
        (if ePrice req \<noteq> oPrice x then
           (abs_remove (side_view book) (eOrderID req),
            Some \<lparr>edBefore = x, edAfter = after, edRequiresRematch = True\<rparr>)
         else if amount > oAmount x then
           (abs_add (abs_remove (side_view book) (eOrderID req)) after,
            Some \<lparr>edBefore = x, edAfter = after, edRequiresRematch = False\<rparr>)
         else if amount < oAmount x then
           (abs_replace (side_view book) after,
            Some \<lparr>edBefore = x, edAfter = after, edRequiresRematch = False\<rparr>)
         else (side_view book, None))"
      using R(2) by (simp add: abs_edit_def Some Let_def after_def amount_def)
    have "thinner (side_view book') (side_view book)"
      using S same same_place_thinner [OF E(1) x(1), of after] abs_remove_thinner thinner_self [of "side_view book" "side_view book"]
      by (auto simp: x(2) split: if_splits)
    moreover have "result = Some r \<longrightarrow> edBefore r = x \<and> edAfter r = after \<and>
        (edRequiresRematch r \<longrightarrow> side_view book' = abs_remove (side_view book) (eOrderID req))"
      using S by (auto split: if_splits)
    moreover have "\<not> id_free (side_view book) (oOrderID x)" using x(1) by (auto simp: id_free_def)
    ultimately show ?thesis
      using as am p xs(3) x(2) abs_remove_free [of "side_view book" "eOrderID req"] by auto
  qed
  note C = this
  then show "thinner (side_view book') (side_view book)"
    "result = Some r \<Longrightarrow> order_sound (edAfter r) \<and> oOrderType (edAfter r) = Limit \<and>
      0 < oAmount (edAfter r) \<and> int64 (oAmount (edAfter r)) \<and> 0 < oPrice (edBefore r) \<and>
      0 < oPrice (edAfter r) \<and> 0 < oAmount (edBefore r) \<and>
      \<not> id_free (side_view book) (oOrderID (edAfter r)) \<and>
      (edRequiresRematch r \<longrightarrow> id_free (side_view book') (oOrderID (edAfter r)) \<and>
        side_view book' = abs_remove (side_view book) (eOrderID req))" by blast+
  show "engine_book book'" using thinner_keeps(1,2) [OF conjunct1 [OF C]] E R(1) by (simp add: engine_book_def)
qed

end
