(* ===== verification/WorkerCorrect.thy ===== *)
theory WorkerCorrect
  imports WorkerBook
begin

text \<open>
  One command of \<^verbatim>\<open>internal/engine/bookworker.go\<close> keeps the invariant of the book, and the
  events it generates validate: the only errors \<open>applyCommand\<close> returns for a sound command are
  an overflowing quote amount and a failing match store.
\<close>

definition persist_failure :: "('a \<Rightarrow> 'w \<Rightarrow> error option \<times> 'w) option \<Rightarrow> error \<Rightarrow> error \<Rightarrow> bool" where
  "persist_failure save unavailable err \<longleftrightarrow>
     (case save of None \<Rightarrow> err = unavailable | Some f \<Rightarrow> (\<exists>x w w'. f x w = (Some err, w')))"

definition apply_failure :: "'w worker_io \<Rightarrow> error \<Rightarrow> bool" where
  "apply_failure io err \<longleftrightarrow> (\<exists>e. err = quote_error e) \<or>
     persist_failure (ioSaveLogs io) ErrMatchStoreUnavailable err"

definition sound_result :: "digest \<Rightarrow> 'w worker_io \<Rightarrow> error + OrderEvent list \<Rightarrow> bool" where
  "sound_result H io r \<longleftrightarrow>
     (case r of Inl err \<Rightarrow> apply_failure io err | Inr events \<Rightarrow> \<forall>v \<in> set events. ValidateEvent H v = None)"

lemma persistMatchLogs_failure:
  "persistMatchLogs io logs world = (Some err, world') \<Longrightarrow> sound_result H io (Inl err)"
  by (auto simp: persistMatchLogs_def sound_result_def apply_failure_def persist_failure_def
      split: if_splits option.splits)

lemma builder_sound: "builder_ok H b \<Longrightarrow> sound_result H io (eb_result H b)"
  by (simp add: eb_result_ok sound_result_def builder_ok_def)

lemma quote_sound [simp]: "sound_result H io (Inl (quote_error e))"
  by (auto simp: sound_result_def apply_failure_def)

section \<open>The events of one matching\<close>

lemma addTakerFill_ok:
  assumes "builder_ok H b" "order_sound order" "0 \<le> a" "a \<le> oAmount order" "int64 (oAmount order)"
    "length (ebEvents b) < 2147483648"
  shows "builder_ok H (addTakerFill H b order (wrap64 (oAmount order - a)) a)"
proof -
  have "int64 (oAmount order - a)" using assms(3-5) by (simp add: int64_def min_int64_def)
  then have w: "wrap64 (oAmount order - a) = oAmount order - a" by (rule wrap64_id)
  show ?thesis
    using assms by (auto simp: addTakerFill_def w intro!: eb_add_ok fill_shape)
qed

lemma addTakerFill_length: "length (ebEvents (addTakerFill H b order f a)) \<le> length (ebEvents b) + 1"
  by (simp add: addTakerFill_def)

definition room :: "OrderBook \<Rightarrow> bool" where
  "room ob \<longleftrightarrow> length (side_view ob BidSide @ side_view ob AskSide) + 3 < 2147483648"

text \<open>The fills of a matching, after at most one event.\<close>

lemma trade_events_ok:
  assumes eb: "engine_book book" and o: "order_sound order" "0 < oAmount order" "int64 (oAmount order)"
    and M: "Match H book order = (res, book', order')"
    and b: "builder_ok H b" "length (ebEvents b) \<le> 1" and room: "room book"
  defines "B \<equiv> addTakerFill H (addMakerFills H b (rMakerTransitions res)) order
      (wrap64 (oAmount order - oAmount order')) (oAmount order')"
  shows "builder_ok H B" "length (ebEvents B) < 2147483648"
proof -
  note E = engine_bookD [OF eb]
  note N = match_engine_book [OF eb o M]
  obtain sd where sd: "opposite (oPosition order) = Some sd" using o(1) by (cases rule: order_sound_opposite)
  note O = Match_outcome [OF E(1) o(3) sd o(2) M]
  have l: "length (ebEvents b) + length (rMakerTransitions res) + 2 < 2147483648"
    using N(6) room b(2) by (simp add: room_def)
  have "builder_ok H (addMakerFills H b (rMakerTransitions res))"
    using addMakerFills_ok [OF b(1)] N(5) l by simp
  then show "builder_ok H B"
    unfolding B_def using addTakerFill_ok o O(2,3) l by simp
  show "length (ebEvents B) < 2147483648"
    unfolding B_def by (rule le_less_trans [OF addTakerFill_length]) (use l in simp)
qed

section \<open>Creating an order\<close>

lemma created_order:
  assumes "valid_create_payload p" "int64 (cAmount p)" "nonblank_digest H"
  shows "order_sound (CreateOrderAt H p t)" "0 < oAmount (CreateOrderAt H p t)"
    "int64 (oAmount (CreateOrderAt H p t))"
  using assms
  by (auto simp: valid_create_payload_def CreateOrderAt_def order_sound_def nonblank_digest_def
      GenerateOrderID_def Let_def split: if_splits)

lemma apply_create_correct:
  assumes eb: "engine_book book" and p: "valid_create_payload p" "int64 (cAmount p)"
    and H: "nonblank_digest H"
    and A: "apply_create H io b p t book world = (r, book', world')"
  shows "(id_free (side_view book) (GenerateOrderID H p) \<longrightarrow>
      engine_book book' \<and> bTicker book' = bTicker book \<and> bPrecision book' = bPrecision book \<and>
      gains_ids {GenerateOrderID H p} book book') \<and>
    (builder_ok H b \<and> ebEvents b = [] \<and> room book \<longrightarrow> sound_result H io r)"
proof -
  define order where "order = CreateOrderAt H p t"
  have o: "order_sound order" "0 < oAmount order" "int64 (oAmount order)" "oOrderID order = GenerateOrderID H p"
    using created_order [OF p H] by (simp_all add: order_def) (simp add: CreateOrderAt_def)
  obtain res book1 order' where M: "Match H book order = (res, book1, order')" by (cases "Match H book order")
  note E = engine_bookD [OF eb]
  note N = match_engine_book [OF eb o(1-3) M]
  obtain sd where sd: "opposite (oPosition order) = Some sd" using o(1) by (cases rule: order_sound_opposite)
  note O = Match_outcome [OF E(1) o(3) sd o(2) M]
  have type: "oOrderType order' = oOrderType order" "oPosition order' = oPosition order"
    by (subst O(1), simp)+
  obtain err world1 where S: "persistMatchLogs io (rLogs res) world = (err, world1)"
    by (cases "persistMatchLogs io (rLogs res) world")
  define B where "B = addTakerFill H (addMakerFills H b (rMakerTransitions res)) order
      (wrap64 (oAmount order - oAmount order')) (oAmount order')"
  let ?good = "builder_ok H b \<and> ebEvents b = [] \<and> room book"
  have B: "builder_ok H B" "length (ebEvents B) < 2147483648" if ?good
    using trade_events_ok [OF eb o(1-3) M, of b] that by (simp_all add: B_def)
  note gains = thinner_gains [OF N(2)]
  note A' = A [unfolded apply_create_def Let_def, folded order_def, unfolded M, simplified, folded B_def]
  consider (quote) e where "rErr res = Some e" | (save) e where "rErr res = None" "err = Some e"
    | (filled) "rErr res = None" "err = None" "rResidual res = None"
    | (market) residual where "rErr res = None" "err = None" "rResidual res = Some residual" "oOrderType order = Market"
    | (limit) residual where "rErr res = None" "err = None" "rResidual res = Some residual" "oOrderType order \<noteq> Market"
    by fastforce
  then show ?thesis
  proof cases
    case quote
    then show ?thesis using A' N(1,3,4) gains by auto
  next
    case save
    then show ?thesis using A' N gains S persistMatchLogs_failure [of io "rLogs res" world] by auto
  next
    case filled
    then show ?thesis using A' N gains S B builder_sound by auto
  next
    case market
    have r: "residual = order'" "0 < oAmount residual" using O(5) market(1,3) by (auto split: if_splits)
    have "builder_ok H (addRemainderCanceled H B order (oAmount residual))" if ?good
      unfolding addRemainderCanceled_def using B [OF that] o(1) r
      by (intro eb_add_ok canceled_shape) auto
    then show ?thesis using A' N gains S market type builder_sound by auto
  next
    case limit
    have l: "oOrderType order = Limit" using o(1) limit(4) by (auto simp: order_sound_def)
    note R = rest_residual [OF eb o(1) l o(2,3) _ M limit(1,3), unfolded o(4)]
    have "builder_ok H (addResting H B order)" if ?good
      unfolding addResting_def using B [OF that] o by (intro eb_add_ok resting_shape) auto
    then show ?thesis using A' R S limit type B builder_sound by (auto split: if_splits)
  qed
qed

section \<open>Amending and cancelling an order\<close>

lemma addAmended_ok:
  assumes "builder_ok H b" "ebEvents b = []" "order_sound after" "oOrderType after = Limit"
    "0 < oPrice before" "0 < oPrice after" "0 < oAmount before" "0 < oAmount after"
  shows "builder_ok H (addAmended H b before after)" "length (ebEvents (addAmended H b before after)) = 1"
proof -
  show "builder_ok H (addAmended H b before after)"
    unfolding addAmended_def Let_def using assms by (intro eb_add_ok amended_shape) auto
  show "length (ebEvents (addAmended H b before after)) = 1"
    by (simp add: addAmended_def Let_def assms(2))
qed

lemma amend_amount_ok:
  assumes "valid_amend_payload req" "case eAmount req of None \<Rightarrow> True | Some q \<Rightarrow> int64 q"
  shows "edit_amount_ok req"
  using assms by (auto simp: valid_amend_payload_def edit_amount_ok_def split: option.splits)

lemma apply_amend_correct:
  assumes eb: "engine_book book" and req: "valid_amend_payload req" "edit_amount_ok req"
    and A: "apply_amend H io b req t book world = (r, book', world')"
  shows "engine_book book' \<and> bTicker book' = bTicker book \<and> bPrecision book' = bPrecision book \<and>
    gains_ids {} book book' \<and>
    (builder_ok H b \<and> ebEvents b = [] \<and> room book \<longrightarrow> sound_result H io r)"
proof -
  obtain book0 result where ed: "EditOrderAt book req t = (book0, result)" by (cases "EditOrderAt book req t")
  note D = edit_engine_book [OF eb req ed]
  note gains = thinner_gains [OF D(4)]
  let ?good = "builder_ok H b \<and> ebEvents b = [] \<and> room book"
  show ?thesis
  proof (cases result)
    case None
    then have "r = eb_result H b" "book' = book0" using A by (simp_all add: apply_amend_def ed)
    then show ?thesis using D gains builder_sound by auto
  next
    case (Some er)
    define order where "order = edAfter er"
    define b1 where "b1 = addAmended H b (edBefore er) order"
    have o: "order_sound order" "oOrderType order = Limit" "0 < oAmount order" "int64 (oAmount order)"
      "0 < oPrice (edBefore er)" "0 < oPrice order" "0 < oAmount (edBefore er)"
      "\<not> id_free (side_view book) (oOrderID order)"
      "edRequiresRematch er \<Longrightarrow> id_free (side_view book0) (oOrderID order)"
      "edRequiresRematch er \<Longrightarrow> side_view book0 = abs_remove (side_view book) (eOrderID req)"
      using D(5) [OF Some] unfolding order_def by blast+
    have b1: "builder_ok H b1" "length (ebEvents b1) = 1" if ?good
      unfolding b1_def using addAmended_ok [OF _ _ o(1,2,5,6,7,3)] that by simp_all
    note A1 = A [unfolded apply_amend_def ed Some Let_def, simplified, folded order_def, folded b1_def]
    show ?thesis
    proof (cases "edRequiresRematch er")
      case False
      then show ?thesis using A1 D gains b1 builder_sound by auto
    next
      case True
      obtain res book1 order' where M: "Match H book0 order = (res, book1, order')" by (cases "Match H book0 order")
      note N = match_engine_book [OF D(1) o(1,3,4) M]
      note R = rest_residual [OF D(1) o(1,2,3,4) o(9) [OF True] M]
      have matched: "gains_ids {} book book1" by (rule gains_trans [OF gains thinner_gains [OF N(2)]])
      have rested: "gains_ids {} book (AddOrder book1 residual)"
        if "rErr res = None" "rResidual res = Some residual" for residual
        using gains_trans [OF gains R(4) [OF that]] gains_resting o(8) by blast
      obtain err world1 where S: "persistMatchLogs io (rLogs res) world = (err, world1)"
        by (cases "persistMatchLogs io (rLogs res) world")
      define B where "B = addTakerFill H (addMakerFills H b1 (rMakerTransitions res)) order
          (wrap64 (oAmount order - oAmount order')) (oAmount order')"
      have "room book0" if "room book"
        using that o(10) [OF True] length_filter_le [of _ "side_view book BidSide"]
          length_filter_le [of _ "side_view book AskSide"]
        by (simp add: room_def abs_remove_def) (metis add_le_mono le_less_trans length_filter_le)
      then have B: "builder_ok H B" if ?good
        unfolding B_def using trade_events_ok(1) [OF D(1) o(1,3,4) M b1(1)] b1(2) that by simp
      note A2 = A1 [unfolded M, simplified, simplified True, simplified, folded B_def]
      consider (quote) e where "rErr res = Some e" | (save) e where "rErr res = None" "err = Some e"
        | (filled) "rErr res = None" "err = None" "rResidual res = None"
        | (rest) residual where "rErr res = None" "err = None" "rResidual res = Some residual"
        by fastforce
      then show ?thesis
      proof cases
        case quote
        then show ?thesis using A2 D(2,3) N(1,3,4) matched by auto
      next
        case save
        then show ?thesis using A2 D(2,3) N(1,3,4) matched S persistMatchLogs_failure [of io "rLogs res" world] by auto
      next
        case filled
        then show ?thesis using A2 D(2,3) N(1,3,4) matched S B builder_sound by auto
      next
        case rest
        then show ?thesis using A2 D(2,3) R rested S B builder_sound by auto
      qed
    qed
  qed
qed

lemma apply_cancel_correct:
  assumes eb: "engine_book book" and A: "apply_cancel H b req book world = (r, book', world')"
  shows "engine_book book' \<and> bTicker book' = bTicker book \<and> bPrecision book' = bPrecision book \<and>
    gains_ids {} book book' \<and> (builder_ok H b \<and> ebEvents b = [] \<longrightarrow> sound_result H io r)"
proof -
  obtain book0 removed where R: "RemoveOrder book (xOrderID req) = (book0, removed)"
    by (cases "RemoveOrder book (xOrderID req)")
  note D = cancel_engine_book [OF eb R]
  have "builder_ok H (addCanceled H b x)" if "removed = Some x" "builder_ok H b" "ebEvents b = []" for x
    unfolding addCanceled_def using that(2,3) D(4) [OF that(1)] by (intro eb_add_ok canceled_shape) auto
  then show ?thesis
    using A D(1-3) thinner_gains [OF D(5)] builder_sound by (cases removed) (auto simp: apply_cancel_def R)
qed

section \<open>Applying a command\<close>

text \<open>
  What a command from the journal brings: strings and numbers in range, a command and a ticker
  that are not blank and a positive sequence. A create has an order identity of its own among
  the resting orders.
\<close>

definition journalled :: "Command \<Rightarrow> bool" where
  "journalled c \<longleftrightarrow> wire_command c \<and> TrimSpace (jCommandID c) \<noteq> [] \<and> TrimSpace (jTicker c) \<noteq> [] \<and>
     0 < jSequence c"

definition fresh_order :: "digest \<Rightarrow> Command \<Rightarrow> OrderBook \<Rightarrow> bool" where
  "fresh_order H c book \<longleftrightarrow>
     (case jCreate c of None \<Rightarrow> True | Some p \<Rightarrow> id_free (side_view book) (GenerateOrderID H p))"

definition created_ids :: "digest \<Rightarrow> Command \<Rightarrow> string set" where
  "created_ids H c = (case jCreate c of None \<Rightarrow> {} | Some p \<Rightarrow> {GenerateOrderID H p})"

lemma fresh_created: "fresh_order H c book \<longleftrightarrow> (\<forall>i \<in> created_ids H c. id_free (side_view book) i)"
  by (simp add: fresh_order_def created_ids_def split: option.split)

text \<open>The errors \<open>applyCommand\<close> returns before it touches the book.\<close>

definition command_refused :: "BookWorker \<Rightarrow> Command \<Rightarrow> error \<Rightarrow> bool" where
  "command_refused w c err \<longleftrightarrow>
     ValidateCommand c = Some err \<or>
     (jMarketConfigVersion (versioned w c) \<noteq> ConfigVersion (wPrecision w) \<and>
        err = PlainError ''market config version mismatch'') \<or>
     (IsZero (jRecordedAt c) \<and> err = ErrInvalidCommand ''recorded time is required'')"

lemma versioned_fields [simp]:
  "jCommandID (versioned w c) = jCommandID c" "jTicker (versioned w c) = jTicker c"
  "jSequence (versioned w c) = jSequence c" "jType (versioned w c) = jType c"
  "jRecordedAt (versioned w c) = jRecordedAt c" "jCreate (versioned w c) = jCreate c"
  "jAmend (versioned w c) = jAmend c" "jCancel (versioned w c) = jCancel c"
  by (simp_all add: versioned_def)

lemma versioned_sound:
  assumes "journalled c" "\<not> IsZero (jRecordedAt c)" "0 \<le> jMarketConfigVersion (versioned w c)" "nonblank_digest H"
  shows "builder_ok H (newOrderEventBuilder (versioned w c))" "ebEvents (newOrderEventBuilder (versioned w c)) = []"
  using assms newOrderEventBuilder_ok [of "versioned w c" H]
  by (auto simp: journalled_def command_sound_def newOrderEventBuilder_def)

lemma applyCommand_unrefused:
  assumes "ValidateCommand c = None" "jMarketConfigVersion (versioned w c) = ConfigVersion (wPrecision w)"
    "\<not> IsZero (jRecordedAt c)"
  shows "applyCommand H io w c world =
    (let events = newOrderEventBuilder (versioned w c)
     in case (jCreate c, jAmend c, jCancel c) of
          (Some create, _, _) \<Rightarrow> apply_create H io events create (jRecordedAt c) (wOrderBook w) world
        | (None, Some amend, _) \<Rightarrow> apply_amend H io events amend (jRecordedAt c) (wOrderBook w) world
        | (None, None, Some cancel) \<Rightarrow> apply_cancel H events cancel (wOrderBook w) world
        | (None, None, None) \<Rightarrow> (eb_result H events, wOrderBook w, world))"
  using assms by (simp add: applyCommand_def Let_def split: option.split)

lemma apply_command_correct:
  assumes eb: "engine_book (wOrderBook w)" and H: "nonblank_digest H" and c: "wire_command c"
    and A: "applyCommand H io w c world = (r, book', world')"
  shows "(fresh_order H c (wOrderBook w) \<longrightarrow>
      engine_book book' \<and> bTicker book' = bTicker (wOrderBook w) \<and>
      bPrecision book' = bPrecision (wOrderBook w) \<and> gains_ids (created_ids H c) (wOrderBook w) book') \<and>
    (journalled c \<and> 0 \<le> ConfigVersion (wPrecision w) \<and> room (wOrderBook w) \<longrightarrow>
       (\<exists>err. r = Inl err \<and> command_refused w c err) \<or> sound_result H io r)"
proof -
  consider (refused) err where "r = Inl err" "command_refused w c err" "book' = wOrderBook w"
    | (run) "ValidateCommand c = None" "jMarketConfigVersion (versioned w c) = ConfigVersion (wPrecision w)"
      "\<not> IsZero (jRecordedAt c)"
    using A by (auto simp: applyCommand_def command_refused_def Let_def split: option.splits if_splits)
  then show ?thesis
  proof cases
    case refused
    then show ?thesis using eb by (auto simp: gains_ids_def)
  next
    case run
    let ?b = "newOrderEventBuilder (versioned w c)"
    have b: "builder_ok H ?b" "ebEvents ?b = []" if "journalled c" "0 \<le> ConfigVersion (wPrecision w)"
      using versioned_sound [OF that(1) run(3) _ H, of w] that(2) run(2) by simp_all
    note A' = A [unfolded applyCommand_unrefused [OF run] Let_def]
    show ?thesis
      using run(1)
    proof (cases rule: ValidateCommand_cases)
      case (create p)
      have "int64 (cAmount p)" using c create(2) by (simp add: wire_command_def)
      moreover have "apply_create H io ?b p (jRecordedAt c) (wOrderBook w) world = (r, book', world')"
        using A' create(2) by simp
      ultimately show ?thesis
        using apply_create_correct [OF eb create(5) _ H, of io ?b "jRecordedAt c" world r book' world'] b create(2)
        by (simp add: created_ids_def fresh_order_def)
    next
      case (amend p)
      have "edit_amount_ok p"
        using c amend(2) by (intro amend_amount_ok [OF amend(5)]) (simp add: wire_command_def)
      moreover have "apply_amend H io ?b p (jRecordedAt c) (wOrderBook w) world = (r, book', world')"
        using A' amend(2,3) by simp
      ultimately show ?thesis
        using apply_amend_correct [OF eb amend(5), of H io ?b "jRecordedAt c" world r book' world'] b amend(3)
        by (simp add: created_ids_def)
    next
      case (cancel p)
      have "apply_cancel H ?b p (wOrderBook w) world = (r, book', world')"
        using A' cancel(2,3,4) by simp
      then show ?thesis
        using apply_cancel_correct [OF eb, of H ?b p world r book' world' io] b cancel(3)
        by (simp add: created_ids_def)
    qed
  qed
qed

end
