(* ===== verification/Recovery.thy ===== *)
theory Recovery
  imports Router JournalContract WorkerCorrect
begin

text \<open>
  What a worker and a replay do over the interface of a journal. \<open>rebuild\<close> applies commands to
  a worker in a world where nothing can fail but the commands themselves: an event that does not
  halt the engine leaves the worker rebuilt from the commands it added to the log, and a replay
  that returns no error leaves it rebuilt from the commands it read.
\<close>

definition quiet_io :: "unit worker_io" where
  "quiet_io = \<lparr>ioAppend = None, ioSaveLogs = Some (\<lambda>_ world. (None, world)),
     ioSaveEvents = Some (\<lambda>_ world. (None, world))\<rparr>"

fun rebuild :: "digest \<Rightarrow> BookWorker \<Rightarrow> Command list \<Rightarrow> BookWorker option" where
  "rebuild H w [] = Some w"
| "rebuild H w (c # cs) =
     (case apply_and_persist H quiet_io w c () of
        (None, w, _) \<Rightarrow> rebuild H w cs
      | (Some _, _, _) \<Rightarrow> None)"

lemma rebuild_append:
  "rebuild H w (cs @ ds) = (case rebuild H w cs of None \<Rightarrow> None | Some w \<Rightarrow> rebuild H w ds)"
  by (induction cs arbitrary: w) (auto split: prod.split option.split)

section \<open>The world does not decide what a command does\<close>

lemma quiet_logs [simp]: "persistMatchLogs quiet_io logs u = (None, u)"
  "persistOrderEvents quiet_io events u = (None, u)"
  by (simp_all add: persistMatchLogs_def persistOrderEvents_def quiet_io_def)

lemma apply_create_quiet:
  assumes "apply_create H io b p t book world = (Inr events, book', world')"
  shows "apply_create H quiet_io b p t book () = (Inr events, book', ())"
  using assms
  by (cases "Match H book (CreateOrderAt H p t)")
    (auto simp: apply_create_def Let_def split: option.splits prod.splits if_splits)

lemma apply_amend_quiet:
  assumes "apply_amend H io b p t book world = (Inr events, book', world')"
  shows "apply_amend H quiet_io b p t book () = (Inr events, book', ())"
  using assms
  by (auto simp: apply_amend_def Let_def split: option.splits prod.splits if_splits)

lemma applyCommand_quiet:
  assumes A: "applyCommand H io w c world = (Inr events, book, world')"
  shows "applyCommand H quiet_io w c () = (Inr events, book, ())"
proof -
  have run: "ValidateCommand c = None" "jMarketConfigVersion (versioned w c) = ConfigVersion (wPrecision w)"
    "\<not> IsZero (jRecordedAt c)"
    using A by (auto simp: applyCommand_def Let_def split: option.splits if_splits)
  note U = applyCommand_unrefused [OF run, unfolded Let_def]
  show ?thesis
  proof (cases "jCreate c")
    case (Some p)
    then show ?thesis using A apply_create_quiet unfolding U by simp
  next
    case None
    then show ?thesis
      using A apply_amend_quiet unfolding U
      by (cases "jAmend c"; cases "jCancel c") (auto simp: apply_cancel_def split: prod.splits option.splits)
  qed
qed

lemma apply_quiet:
  assumes "apply_and_persist H io w c world = (None, w', world')"
  shows "apply_and_persist H quiet_io w c () = (None, w', ())"
proof -
  obtain r book world1 where A: "applyCommand H io w c world = (r, book, world1)"
    by (cases "applyCommand H io w c world")
  obtain events where r: "r = Inr events" "w' = w\<lparr>wOrderBook := book\<rparr>"
    using assms A by (auto simp: apply_and_persist_def split: sum.splits prod.splits)
  show ?thesis
    using applyCommand_quiet [OF A [unfolded r(1)]] r(2) by (simp add: apply_and_persist_def)
qed

lemma apply_fields:
  assumes "apply_and_persist H io w c world = (err, w', world')"
  shows "wTicker w' = wTicker w" "wPrecision w' = wPrecision w"
  using assms by (auto simp: apply_and_persist_def split: sum.splits prod.splits)

lemma rebuild_fields: "rebuild H w cs = Some w' \<Longrightarrow> wTicker w' = wTicker w \<and> wPrecision w' = wPrecision w"
  by (induction cs arbitrary: w) (auto dest: apply_fields split: prod.splits option.splits)

section \<open>Replay\<close>

lemma replay_rebuilds:
  assumes "replay_from H io i lastSequence cs y = (None, y')"
  shows "rebuild H (yWorker y) cs = Some (yWorker y')"
  using assms
proof (induction cs arbitrary: i lastSequence y)
  case (Cons c cs)
  obtain err w world where A: "apply_and_persist H io (yWorker y) c (yWorld y) = (err, w, world)"
    by (cases "apply_and_persist H io (yWorker y) c (yWorld y)")
  have "err = None" "replay_from H io (i + 1) (jSequence c) cs (y\<lparr>yWorker := w, yWorld := world\<rparr>) = (None, y')"
    using Cons.prems A by (auto simp: Let_def split: if_splits option.splits)
  then show ?case
    using Cons.IH apply_quiet A by fastforce
qed simp

section \<open>What the stores keep\<close>

text \<open>A property of the world that no save changes is one that no command and no replay changes.\<close>

definition keeps :: "('s \<Rightarrow> bool) \<Rightarrow> 's worker_io \<Rightarrow> bool" where
  "keeps P io \<longleftrightarrow> (\<forall>s ls vs r s'. P s \<longrightarrow>
     (persistMatchLogs io ls s = (r, s') \<longrightarrow> P s') \<and> (persistOrderEvents io vs s = (r, s') \<longrightarrow> P s'))"

lemma keepsD:
  assumes "keeps P io" "P s"
  shows "persistMatchLogs io ls s = (r, s') \<Longrightarrow> P s'" "persistOrderEvents io vs s = (r, s') \<Longrightarrow> P s'"
  using assms unfolding keeps_def by blast+

lemma keepsI:
  assumes "\<And>f ls s r s'. ioSaveLogs io = Some f \<Longrightarrow> P s \<Longrightarrow> f ls s = (r, s') \<Longrightarrow> P s'"
    "\<And>f vs s r s'. ioSaveEvents io = Some f \<Longrightarrow> P s \<Longrightarrow> f vs s = (r, s') \<Longrightarrow> P s'"
  shows "keeps P io"
  unfolding keeps_def
  by (auto simp: persistMatchLogs_def persistOrderEvents_def split: if_splits option.splits
      intro: assms)

lemma create_keep:
  assumes "keeps P io" "P s" "apply_create H io b p t book s = (r, book', s')"
  shows "P s'"
proof -
  obtain res book1 order' where M: "Match H book (CreateOrderAt H p t) = (res, book1, order')"
    by (cases "Match H book (CreateOrderAt H p t)")
  obtain e s1 where S: "persistMatchLogs io (rLogs res) s = (e, s1)" by (cases "persistMatchLogs io (rLogs res) s")
  have "s' = s \<or> s' = s1"
    using assms(3) M S by (auto simp: apply_create_def Let_def split: option.splits if_splits)
  then show ?thesis using assms(2) keepsD(1) [OF assms(1,2) S] by blast
qed

lemma amend_keep:
  assumes "keeps P io" "P s" "apply_amend H io b p t book s = (r, book', s')"
  shows "P s'"
proof -
  obtain book0 er where E: "EditOrderAt book p t = (book0, er)" by (cases "EditOrderAt book p t")
  define order where "order = edAfter (the er)"
  obtain res book1 order' where M: "Match H book0 order = (res, book1, order')" by (cases "Match H book0 order")
  obtain e s1 where S: "persistMatchLogs io (rLogs res) s = (e, s1)" by (cases "persistMatchLogs io (rLogs res) s")
  have "s' = s \<or> s' = s1"
    using assms(3) E M S by (auto simp: apply_amend_def order_def Let_def split: option.splits if_splits)
  then show ?thesis using assms(2) keepsD(1) [OF assms(1,2) S] by blast
qed

lemma command_keep:
  assumes "keeps P io" "P s" "applyCommand H io w c s = (r, book, s')"
  shows "P s'"
proof (cases "ValidateCommand c = None \<and> jMarketConfigVersion (versioned w c) = ConfigVersion (wPrecision w) \<and>
    \<not> IsZero (jRecordedAt c)")
  case False
  then have "s' = s" using assms(3) by (auto simp: applyCommand_def Let_def split: option.splits if_splits)
  then show ?thesis using assms(2) by simp
next
  case True
  then have run: "ValidateCommand c = None" "jMarketConfigVersion (versioned w c) = ConfigVersion (wPrecision w)"
    "\<not> IsZero (jRecordedAt c)" by simp_all
  note A = assms(3) [unfolded applyCommand_unrefused [OF run] Let_def]
  show ?thesis
  proof (cases "jCreate c")
    case (Some p)
    then show ?thesis using A create_keep [OF assms(1,2)] by simp
  next
    case None
    show ?thesis
    proof (cases "jAmend c")
      case (Some p)
      then show ?thesis using A None amend_keep [OF assms(1,2)] by simp
    next
      case no: None
      have "s' = s" if "apply_cancel H b p bk s = (r, book, s')" for b p bk
        using that by (auto simp: apply_cancel_def split: prod.splits option.splits)
      then have "s' = s" using A None no by (cases "jCancel c") auto
      then show ?thesis using assms(2) by simp
    qed
  qed
qed

lemma apply_keep:
  assumes "keeps P io" "P s" "apply_and_persist H io w c s = (err, w', s')"
  shows "P s'"
proof -
  obtain r book s1 where A: "applyCommand H io w c s = (r, book, s1)" by (cases "applyCommand H io w c s")
  note k = command_keep [OF assms(1,2) A]
  show ?thesis
  proof (cases r)
    case (Inr events)
    obtain e s2 where P: "persistOrderEvents io events s1 = (e, s2)" by (cases "persistOrderEvents io events s1")
    then show ?thesis using assms(3) A Inr keepsD(2) [OF assms(1) k P] by (simp add: apply_and_persist_def)
  qed (use assms(3) A k in \<open>simp add: apply_and_persist_def\<close>)
qed

lemma replay_keep:
  assumes "keeps P io" "P (yWorld y)" "replay_from H io i lastSequence cs y = (r, y')"
  shows "P (yWorld y')"
  using assms(2,3)
proof (induction cs arbitrary: i lastSequence y)
  case (Cons c cs)
  obtain err w world where A: "apply_and_persist H io (yWorker y) c (yWorld y) = (err, w, world)"
    by (cases "apply_and_persist H io (yWorker y) c (yWorld y)")
  note k = apply_keep [OF assms(1) Cons.prems(1) A]
  show ?case
    using Cons.prems A k Cons.IH [of "y\<lparr>yWorker := w, yWorld := world\<rparr>"]
    by (auto simp: Let_def split: if_splits option.splits)
qed simp

section \<open>Events on a journal\<close>

text \<open>The payloads of an event are in the range of their types.\<close>

definition wire_event :: "EngineEvent \<Rightarrow> bool" where
  "wire_event ev \<longleftrightarrow> wire_command \<lparr>jCommandID = [], jTicker = [], jSequence = 0, jType = [],
     jRecordedAt = 0, jMarketConfigVersion = 0, jCreate = evNewOrder ev, jAmend = evEditReq ev,
     jCancel = evCancelReq ev\<rparr>"

lemma commandFromEvent_cases:
  assumes "commandFromEvent w ev = Some c"
  obtains (create) p where "evNewOrder ev = Some p" "cTicker p = wTicker w"
      "c = (blank_command w (cCommandID p) CreateCommand)\<lparr>jCreate := Some p\<rparr>"
    | (amend) p where "evEditReq ev = Some p" "eTicker p = wTicker w"
      "c = (blank_command w (eCommandID p) AmendCommand)\<lparr>jAmend := Some p\<rparr>"
    | (cancel) p where "evCancelReq ev = Some p" "xTicker p = wTicker w"
      "c = (blank_command w (xCommandID p) CancelCommand)\<lparr>jCancel := Some p\<rparr>"
  using assms that by (auto simp: commandFromEvent_def split: EventType.splits option.splits if_splits)

lemma commandFromEvent_wire:
  assumes "wire_event ev" "commandFromEvent w ev = Some c"
  shows "wire_command c" "jTicker c = wTicker w"
proof -
  have "wire_command c \<and> jTicker c = wTicker w"
    using assms(2)
  proof (cases rule: commandFromEvent_cases)
    case (create p)
    then show ?thesis using assms(1) by (simp add: wire_event_def wire_command_def blank_command_def)
  next
    case (amend p)
    then show ?thesis using assms(1) by (simp add: wire_event_def wire_command_def blank_command_def)
  next
    case (cancel p)
    then show ?thesis using assms(1) by (simp add: wire_event_def wire_command_def blank_command_def)
  qed
  then show "wire_command c" "jTicker c = wTicker w" by simp_all
qed

lemma of_ticker_own: "\<forall>c \<in> set new. jTicker c = t \<Longrightarrow> of_ticker t new = new"
  "\<forall>c \<in> set new. jTicker c = t \<Longrightarrow> t' \<noteq> t \<Longrightarrow> of_ticker t' new = []"
  by (auto simp: of_ticker_def filter_empty_conv)

locale engine_journal = command_journal append read log
  for append :: "Command \<Rightarrow> 's \<Rightarrow> (error + AppendResult) \<times> 's"
    and read :: "'s \<Rightarrow> (error + Command list) \<times> 's"
    and log :: "Command list \<Rightarrow> 's \<Rightarrow> bool" +
  fixes saveLogs :: "MatchLog list \<Rightarrow> 's \<Rightarrow> error option \<times> 's"
    and saveEvents :: "OrderEvent list \<Rightarrow> 's \<Rightarrow> error option \<times> 's"
  assumes logs_keep: "log L s \<Longrightarrow> saveLogs ls s = (r, s') \<Longrightarrow> log L s'"
    and events_keep: "log L s \<Longrightarrow> saveEvents vs s = (r, s') \<Longrightarrow> log L s'"
begin

abbreviation io :: "'s worker_io" where
  "io \<equiv> \<lparr>ioAppend = Some append, ioSaveLogs = Some saveLogs, ioSaveEvents = Some saveEvents\<rparr>"

lemma io_log: "keeps (log L) io"
proof (rule keepsI)
  fix f ls s r s' assume a: "ioSaveLogs io = Some f" "log L s" "f ls s = (r, s')"
  then have "saveLogs ls s = (r, s')" by simp
  then show "log L s'" by (rule logs_keep [OF a(2)])
next
  fix f vs s r s' assume a: "ioSaveEvents io = Some f" "log L s" "f vs s = (r, s')"
  then have "saveEvents vs s = (r, s')" by simp
  then show "log L s'" by (rule events_keep [OF a(2)])
qed

text \<open>
  One event: the log grows by the commands of the worker's ticker that the event appended, one
  at most, and a worker that goes on has applied exactly those.
\<close>

lemma handle_event_log:
  assumes log: "log L (yWorld y)" and ev: "wire_event ev" and E: "handle_event H io ev y = (r, y')"
  shows "\<exists>new. log (L @ new) (yWorld y') \<and> (\<forall>c \<in> set new. jTicker c = wTicker (yWorker y)) \<and>
    (esCause (yState y') = None \<longrightarrow> rebuild H (yWorker y) new = Some (yWorker y')) \<and>
    wTicker (yWorker y') = wTicker (yWorker y) \<and> wPrecision (yWorker y') = wPrecision (yWorker y)"
proof (cases "y' = y")
  case True
  have "rebuild H (yWorker y) [] = Some (yWorker y)" by simp
  then show ?thesis using log True by (metis append_Nil2 empty_iff empty_set)
next
  case False
  let ?w = "yWorker y"
  note G = handle_event_guards [OF E disjI1 [OF False]]
  obtain c where c: "commandFromEvent ?w ev = Some c" using G(2) False by blast
  have g: "EngineState_Err (yState y) = None" "evTicker ev = [] \<or> evTicker ev = wTicker ?w"
    using G(1) c by simp_all
  note w = commandFromEvent_wire [OF ev c]
  obtain a s1 where A: "append c (yWorld y) = (a, s1)" by (cases "append c (yWorld y)")
  have step: "(r, y') = (case a of
      Inl err \<Rightarrow> halt_ack err (y\<lparr>yWorld := s1\<rparr>)
    | Inr ap \<Rightarrow> if \<not> apInserted ap then (Ack None, y\<lparr>yWorld := s1\<rparr>)
        else (case apply_and_persist H io ?w (apCommand ap) s1 of
          (err, w, world) \<Rightarrow>
            let y = y\<lparr>yWorker := w, yWorld := world\<rparr>
            in case err of None \<Rightarrow> (Ack None, y) | Some err \<Rightarrow> halt_ack err y))"
    using E unfolding handle_event_command [OF c g] by (simp add: A)
  show ?thesis
  proof (cases a)
    case (Inl err)
    then have y': "yWorld y' = s1" "yWorker y' = ?w" "esCause (yState y') \<noteq> None"
      using step by (auto simp: halt_ack_def Let_def)
    obtain new where "log (L @ new) s1" "\<forall>e \<in> set new. journal_entry c e"
      using append_failed [OF log w(1) A [unfolded Inl]] by (metis append_Nil2 empty_iff empty_set set_ConsD)
    moreover have "\<forall>e \<in> set new. jTicker e = wTicker ?w"
      using calculation(2) journal_entry_fields(1) w(2) by fastforce
    ultimately show ?thesis using y' by (intro exI [of _ new]) auto
  next
    case (Inr ap)
    show ?thesis
    proof (cases "apInserted ap")
      case False
      then have "y' = y\<lparr>yWorld := s1\<rparr>" using step Inr by simp
      then show ?thesis
        using append_existing [OF log w(1) A [unfolded Inr] False] by (intro exI [of _ "[]"]) simp
    next
      case True
      note I = append_inserted [OF log w(1) A [unfolded Inr] True]
      obtain err w' s2 where P: "apply_and_persist H io ?w (apCommand ap) s1 = (err, w', s2)"
        by (cases "apply_and_persist H io ?w (apCommand ap) s1")
      have y': "yWorker y' = w'" "yWorld y' = s2" "err \<noteq> None \<Longrightarrow> esCause (yState y') \<noteq> None"
        using step Inr True P by (auto simp: Let_def halt_ack_def split: option.splits)
      have "log (L @ [apCommand ap]) s2" using apply_keep [OF io_log conjunct2 [OF I] P] .
      moreover have "rebuild H ?w [apCommand ap] = Some w'" if "esCause (yState y') = None"
      proof -
        have "err = None" using that y'(3) by blast
        then show ?thesis using apply_quiet [OF P [unfolded \<open>err = None\<close>]] by simp
      qed
      ultimately show ?thesis
        using y' apply_fields [OF P] journal_entry_fields(1) [OF conjunct1 [OF I]] w(2)
        by (intro exI [of _ "[apCommand ap]"]) auto
    qed
  qed
qed

end

end
