(* ===== verification/WorkerProperties.thy ===== *)
theory WorkerProperties
  imports Recovery
begin

text \<open>
  The properties of the book worker, each applied on the book of \<open>BookProperties\<close>: a worker
  for \<open>BTC-USD\<close> with two asks and a bid.
\<close>

definition sample_worker :: BookWorker where
  "sample_worker = \<lparr>wTicker = ''BTC-USD'', wOrderBook = sample_book, wPrecision = DefaultPrecision\<rparr>"

definition sample_cancel :: Command where
  "sample_cancel = \<lparr>jCommandID = ''k1'', jTicker = ''BTC-USD'', jSequence = 4, jType = CancelCommand,
     jRecordedAt = 9, jMarketConfigVersion = 1, jCreate = None, jAmend = None,
     jCancel = Some \<lparr>xCommandID = ''k1'', xTicker = ''BTC-USD'', xOrderID = ''a1''\<rparr>\<rparr>"

lemma sample_engine_book: "engine_book sample_book"
proof -
  have s: "order_sound (sample_order i p n a)" if "TrimSpace i \<noteq> []" "p = Bid \<or> p = Ask" "0 < n" for i p n a
  proof -
    have "TrimSpace ''u'' \<noteq> []" by code_simp
    then show ?thesis using that by (auto simp: order_sound_def sample_order_def)
  qed
  have t: "TrimSpace ''a1'' \<noteq> []" "TrimSpace ''a2'' \<noteq> []" "TrimSpace ''b1'' \<noteq> []" by code_simp+
  have "resting_sound (side_view sample_book)"
    unfolding resting_sound_def all_sides sample_book_view
    using s t by (auto simp: sample_order_def)
  moreover have "uncrossed (side_view sample_book)"
    unfolding uncrossed_def sample_book_view by (simp add: sample_order_def)
  ultimately show ?thesis using sample_book_ok by (simp add: engine_book_def)
qed

lemma sample_facts:
  "wOrderBook sample_worker = sample_book" "0 \<le> ConfigVersion (wPrecision sample_worker)"
  "nonblank_digest (\<lambda>s. ''d'')" "journalled sample_cancel" "fresh_order H sample_cancel sample_book"
  "room sample_book"
proof -
  show "nonblank_digest (\<lambda>s. ''d'')"
  proof -
    have "TrimSpace ''d'' \<noteq> []" by code_simp
    then show ?thesis by (simp add: nonblank_digest_def)
  qed
  show "journalled sample_cancel" by code_simp
  show "room sample_book" by (simp add: room_def sample_book_view)
qed (simp_all add: sample_worker_def sample_cancel_def fresh_order_def DefaultPrecision_def DefaultConfigVersion_def)

text \<open>
  C6. A command keeps the worker's book in order: if the book is correct, holds sound limit
  orders only and is not crossed, then so it is after the command, whatever the command's
  outcome, as long as a new order's identity is not one that rests already, which the program does
  not ensure, and the digest that makes identities is never blank. No order rests
  afterwards that did not rest before but the command's own, and the book's ticker and precision
  do not change.
\<close>

theorem command_keeps_book:
  assumes "engine_book (wOrderBook w)" "nonblank_digest H" "wire_command c"
    "fresh_order H c (wOrderBook w)" "applyCommand H io w c world = (r, book', world')"
  shows "engine_book book' \<and> gains_ids (created_ids H c) (wOrderBook w) book' \<and>
    bTicker book' = bTicker (wOrderBook w) \<and> bPrecision book' = bPrecision (wOrderBook w)"
  using apply_command_correct [OF assms(1-3,5)] assms(4) by blast

lemma command_keeps_book_witness:
  "engine_book (fst (snd (applyCommand (\<lambda>s. ''d'') quiet_io sample_worker sample_cancel ())))"
  using command_keeps_book [of sample_worker "\<lambda>s. ''d''" sample_cancel quiet_io "()"] sample_facts sample_engine_book
  by (cases "applyCommand (\<lambda>s. ''d'') quiet_io sample_worker sample_cancel ()") (auto simp: journalled_def)

text \<open>
  C25. The events of a command validate: applying a journalled command to a book in order returns
  events that pass the validation of the order event store, or it refuses the command before
  touching the book, or a quote amount overflows, or the match store fails. There is no other
  error, so no command is lost to a malformed event. The book must have fewer than \<open>2\<^sup>3\<^sup>1 - 3\<close>
  orders, since the events of a command are numbered with 32 bits, and the digest and the market's
  version must not be blank or negative; the new order's identity may rest already.
\<close>

theorem generated_events_valid:
  assumes "engine_book (wOrderBook w)" "nonblank_digest H" "journalled c"
    "0 \<le> ConfigVersion (wPrecision w)" "room (wOrderBook w)"
    "applyCommand H io w c world = (r, book', world')"
  shows "case r of
      Inr events \<Rightarrow> list_all (\<lambda>v. ValidateEvent H v = None) events
    | Inl err \<Rightarrow> command_refused w c err \<or> apply_failure io err"
  using apply_command_correct [OF assms(1,2) _ assms(6)] assms(3,4,5)
  by (auto simp: journalled_def sound_result_def list_all_iff split: sum.splits)

lemma generated_events_valid_witness:
  "case fst (applyCommand (\<lambda>s. ''d'') quiet_io sample_worker sample_cancel ()) of
      Inr events \<Rightarrow> list_all (\<lambda>v. ValidateEvent (\<lambda>s. ''d'') v = None) events
    | Inl err \<Rightarrow> command_refused sample_worker sample_cancel err \<or> apply_failure quiet_io err"
  using generated_events_valid [of sample_worker "\<lambda>s. ''d''" sample_cancel quiet_io "()"] sample_facts sample_engine_book
  by (cases "applyCommand (\<lambda>s. ''d'') quiet_io sample_worker sample_cancel ()") (auto split: sum.splits)

section \<open>Halting\<close>

text \<open>
  C27. A halted engine never resumes: after a fatal error no event changes the worker, the
  engine state or the world, and every command is answered with the first cause.
\<close>

theorem halted_engine_frozen:
  assumes "esCause (yState y) = Some cause"
  shows "snd (Run H io evs y) = y \<and>
    list_all2 (\<lambda>ev r. isCommandEvent (evType ev) \<longrightarrow> r = Ack (Some (ErrEngineHalted cause))) evs
      (fst (Run H io evs y))"
proof (induction evs)
  case (Cons ev evs)
  have err: "EngineState_Err (yState y) = Some (ErrEngineHalted cause)"
    using assms by (simp add: EngineState_Err_cause haltedError_def)
  obtain r y' where E: "handle_event H io ev y = (r, y')" by (cases "handle_event H io ev y")
  have "y' = y" using handle_event_halted [of y H io ev] err E by simp
  moreover have "isCommandEvent (evType ev) \<Longrightarrow> r = Ack (Some (ErrEngineHalted cause))"
    using E err by (simp add: handle_event_def)
  ultimately show ?case
    using Cons E by (cases "Run H io evs y") (auto split: prod.splits)
qed simp

lemma halted_engine_frozen_witness:
  "fst (Run (\<lambda>s. s) quiet_io [\<lparr>evType = NewOrder, evTicker = [], evNewOrder = None, evCancelReq = None,
       evEditReq = None, evSnapshotDepth = 0\<rparr>]
     \<lparr>yWorker = sample_worker, yState = \<lparr>esCause = Some ErrMatchStoreUnavailable\<rparr>, yWorld = ()\<rparr>) =
   [Ack (Some (ErrEngineHalted ErrMatchStoreUnavailable))]"
proof -
  let ?ev = "\<lparr>evType = NewOrder, evTicker = [], evNewOrder = None, evCancelReq = None,
    evEditReq = None, evSnapshotDepth = 0\<rparr>"
  let ?y = "\<lparr>yWorker = sample_worker, yState = \<lparr>esCause = Some ErrMatchStoreUnavailable\<rparr>, yWorld = ()\<rparr>"
  have "esCause (yState ?y) = Some ErrMatchStoreUnavailable" by simp
  from halted_engine_frozen [OF this, of "\<lambda>s. s" quiet_io "[?ev]"]
  show ?thesis by (auto simp: isCommandEvent_def list_all2_Cons1)
qed

section \<open>The journal comes first\<close>

lemma halt_ack_error: "halt_ack err y = (Ack None, y') \<Longrightarrow> False"
  using Halt_first [of "yState y" "Some err"] by (simp add: halt_ack_def Let_def EngineState_Err_cause)

text \<open>What a successful acknowledgement means.\<close>

lemma success_entry:
  assumes "commandFromEvent (yWorker y) ev = Some c" "handle_event H io ev y = (Ack None, y')"
  shows "\<exists>doAppend a world. ioAppend io = Some doAppend \<and> doAppend c (yWorld y) = (Inr a, world) \<and>
    (if apInserted a
     then apply_and_persist H io (yWorker y) (apCommand a) world = (None, yWorker y', yWorld y')
     else yWorker y' = yWorker y \<and> yWorld y' = world) \<and>
    EngineState_Err (yState y) = None \<and> yState y' = yState y"
proof -
  have g: "EngineState_Err (yState y) = None" "evTicker ev = [] \<or> evTicker ev = wTicker (yWorker y)"
    using handle_event_guards(1) [OF assms(2) disjI2 [OF refl]] assms(1) by simp_all
  note U = assms(2) [unfolded handle_event_command [OF assms(1) g], symmetric]
  obtain doAppend where f: "ioAppend io = Some doAppend"
    using U halt_ack_error [of ErrJournalUnavailable y y'] by (cases "ioAppend io") auto
  obtain a world where a: "doAppend c (yWorld y) = (a, world)" by (cases "doAppend c (yWorld y)")
  obtain ap where ap: "a = Inr ap"
    using U f a halt_ack_error [of _ "y\<lparr>yWorld := world\<rparr>" y'] by (cases a) auto
  show ?thesis
  proof (cases "apInserted ap")
    case True
    obtain err w w2 where P: "apply_and_persist H io (yWorker y) (apCommand ap) world = (err, w, w2)"
      by (cases "apply_and_persist H io (yWorker y) (apCommand ap) world")
    have "err = None" "y' = y\<lparr>yWorker := w, yWorld := w2\<rparr>"
      using U f a ap True P halt_ack_error [of _ "y\<lparr>yWorker := w, yWorld := w2\<rparr>" y']
      by (auto simp: Let_def split: option.splits)
    then show ?thesis using f a ap True P g(1) by simp
  qed (use U f a ap g(1) in simp)
qed

text \<open>A create whose first execution overflows the quote amount fails in every world.\<close>

lemma overflow_fails:
  assumes "jCreate c = Some p" "rErr (fst (Match H (wOrderBook w) (CreateOrderAt H p (jRecordedAt c)))) = Some err"
  shows "fst (apply_and_persist H io w c world) \<noteq> None"
proof -
  have "\<exists>e. fst (applyCommand H io w c world) = Inl e"
    using assms by (auto simp: applyCommand_def apply_create_def Let_def split: option.splits prod.splits)
  then show ?thesis by (auto simp: apply_and_persist_def split: prod.splits sum.splits)
qed

end
