(* ===== verification/Database.thy ===== *)
theory Database
  imports EventBuilder "HOL-Library.Char_ord" "HOL-Library.List_Lexorder"
begin

text \<open>
  The PostgreSQL database behind the stores: the tables of \<^verbatim>\<open>db/migrations\<close> and the queries of
  \<^verbatim>\<open>db/query\<close>, whose text the generated files under \<^verbatim>\<open>internal/*/postgres/db\<close> carry. A table is a
  list of rows in insertion order, a primary key or a unique constraint is a check before an
  insert.

  What the server does with a statement is not the program's: the script \<open>dbScript\<close> says for
  every round trip whether it proceeds (at which time), fails without effect, or takes effect
  and the answer is lost. The theorems hold for every script.
\<close>

datatype outcome = Proceed Time | Fail error | Lost Time error

record JournalRow =
  jrCommandID :: string
  jrTicker :: string
  jrSequence :: int
  jrCommandType :: string
  jrPayload :: json
  jrMarketConfigVersion :: int
  jrRecordedAt :: "Time option"

record MarketRow =
  krTicker :: string
  krCreatedAt :: "Time option"
  krPrecision :: Precision

record Database =
  dbScript :: "nat \<Rightarrow> outcome"
  dbStep :: nat
  dbJournal :: "JournalRow list"
  dbSequences :: "string \<Rightarrow> int option"
  dbMatchLogs :: "MatchLog list"
  dbEvents :: "OrderEvent list"
  dbMarkets :: "MarketRow list"

section \<open>Statements\<close>

type_synonym 'a statement = "Time \<Rightarrow> Database \<Rightarrow> (error + 'a) \<times> Database"

definition tick :: "Database \<Rightarrow> Database" where
  "tick db = db\<lparr>dbStep := dbStep db + 1\<rparr>"

text \<open>A statement that reports an error has no effect.\<close>

definition round_trip :: "'a statement \<Rightarrow> Database \<Rightarrow> (error + 'a) \<times> Database" where
  "round_trip f db =
     (case dbScript db (dbStep db) of
        Fail err \<Rightarrow> (Inl err, tick db)
      | Proceed now \<Rightarrow> f now (tick db)
      | Lost now err \<Rightarrow> (Inl err, snd (f now (tick db))))"

text \<open>
  The driver reports that there are no rows only when the query had none, so no failure of the
  script is that error. No operation changes the script.
\<close>

definition honest :: "Database \<Rightarrow> bool" where
  "honest db \<longleftrightarrow> (\<forall>n. case dbScript db n of Proceed now \<Rightarrow> True
     | Fail err \<Rightarrow> error_root err \<noteq> ErrNoRows | Lost now err \<Rightarrow> error_root err \<noteq> ErrNoRows)"

lemma tick_fields [simp]:
  "dbScript (tick db) = dbScript db" "dbJournal (tick db) = dbJournal db"
  "dbSequences (tick db) = dbSequences db" "dbMatchLogs (tick db) = dbMatchLogs db"
  "dbEvents (tick db) = dbEvents db" "dbMarkets (tick db) = dbMarkets db"
  "honest (tick db) = honest db" "dbStep (tick db) = dbStep db + 1"
  by (simp_all add: tick_def honest_def)

text \<open>What a round trip can answer.\<close>

lemma round_trip_cases:
  assumes "round_trip f db = (r, db')"
  obtains (failed) err where "r = Inl err" "db' = tick db" "honest db \<Longrightarrow> error_root err \<noteq> ErrNoRows"
    | (answered) now where "f now (tick db) = (r, db')"
    | (lost) now err where "r = Inl err" "db' = snd (f now (tick db))" "honest db \<Longrightarrow> error_root err \<noteq> ErrNoRows"
proof (cases "dbScript db (dbStep db)")
  case (Proceed now)
  then show ?thesis using that(2) [of now] assms by (simp add: round_trip_def)
next
  case (Fail err)
  then have "honest db \<Longrightarrow> error_root err \<noteq> ErrNoRows" unfolding honest_def by (metis outcome.simps(11))
  then show ?thesis using that(1) [of err] assms Fail by (simp add: round_trip_def)
next
  case (Lost now err)
  then have "honest db \<Longrightarrow> error_root err \<noteq> ErrNoRows" unfolding honest_def by (metis outcome.simps(12))
  then show ?thesis using that(3) [of err now] assms Lost by (simp add: round_trip_def)
qed

text \<open>A database that fails no more, from the next round trip on.\<close>

definition unfailing :: "Database \<Rightarrow> bool" where
  "unfailing db \<longleftrightarrow> (\<forall>k \<ge> dbStep db. case dbScript db k of Proceed _ \<Rightarrow> True | _ \<Rightarrow> False)"

lemma unfailing_later:
  "unfailing db \<Longrightarrow> dbScript db' = dbScript db \<Longrightarrow> dbStep db \<le> dbStep db' \<Longrightarrow> unfailing db'"
  by (auto simp: unfailing_def)

lemma unfailing_trip:
  assumes "unfailing db"
  obtains now where "round_trip f db = f now (tick db)" "dbScript db (dbStep db) = Proceed now"
  using assms [unfolded unfailing_def, rule_format, of "dbStep db"] that
  by (auto simp: round_trip_def split: outcome.splits)

section \<open>The journal's queries\<close>

text \<open>
  The sequence of the ticker advances whether or not the row is inserted: PostgreSQL runs a
  data-modifying \<open>WITH\<close> to the end.
\<close>

definition CreateOrderJournalEntry ::
  "string \<Rightarrow> string \<Rightarrow> CommandType \<Rightarrow> json \<Rightarrow> int \<Rightarrow> (int \<times> Time option) statement" where
  "CreateOrderJournalEntry commandID ticker commandType payload version now db =
     (let lastSequence = (case dbSequences db ticker of None \<Rightarrow> 1 | Some n \<Rightarrow> n + 1);
          db = db\<lparr>dbSequences := (dbSequences db)(ticker := Some lastSequence)\<rparr>
      in if commandID \<in> set (map jrCommandID (dbJournal db)) then (Inl ErrNoRows, db)
         else (Inr (lastSequence, Some now),
               db\<lparr>dbJournal := dbJournal db @
                 [\<lparr>jrCommandID = commandID, jrTicker = ticker, jrSequence = lastSequence,
                   jrCommandType = commandType, jrPayload = payload,
                   jrMarketConfigVersion = version, jrRecordedAt = Some now\<rparr>]\<rparr>))"

definition GetOrderJournalEntry :: "string \<Rightarrow> JournalRow statement" where
  "GetOrderJournalEntry commandID now db =
     (case find (\<lambda>r. jrCommandID r = commandID) (dbJournal db) of
        None \<Rightarrow> (Inl ErrNoRows, db)
      | Some r \<Rightarrow> (Inr r, db))"

definition ListOrderJournalEntries :: "JournalRow list statement" where
  "ListOrderJournalEntries now db =
     (Inr (sort_key jrTicker (sort_key jrSequence (dbJournal db))), db)"

section \<open>The queries of the match log\<close>

text \<open>\<open>CreateMatchLog\<close> returns the number of rows it inserted.\<close>

definition CreateMatchLog :: "MatchLog \<Rightarrow> int statement" where
  "CreateMatchLog l now db =
     (if mExecutionID l \<in> set (map mExecutionID (dbMatchLogs db)) then (Inr 0, db)
      else (Inr 1, db\<lparr>dbMatchLogs := dbMatchLogs db @ [l]\<rparr>))"

definition MatchLogPayloadMatches :: "MatchLog \<Rightarrow> bool statement" where
  "MatchLogPayloadMatches l now db =
     (case find (\<lambda>r. mExecutionID r = mExecutionID l) (dbMatchLogs db) of
        None \<Rightarrow> (Inl ErrNoRows, db)
      | Some r \<Rightarrow> (Inr (r = l), db))"

section \<open>The queries of the order events\<close>

text \<open>The second unique constraint of the table is no target of \<open>ON CONFLICT\<close>, so an error.\<close>

definition CreateOrderEvent :: "OrderEvent \<Rightarrow> int statement" where
  "CreateOrderEvent v now db =
     (if vEventID v \<in> set (map vEventID (dbEvents db)) then (Inr 0, db)
      else if (vTicker v, vCommandSequence v, vEventIndex v) \<in>
          set (map (\<lambda>r. (vTicker r, vCommandSequence r, vEventIndex r)) (dbEvents db))
      then (Inl (DatabaseError ''unique_violation''), db)
      else (Inr 1, db\<lparr>dbEvents := dbEvents db @ [v]\<rparr>))"

definition OrderEventPayloadMatches :: "OrderEvent \<Rightarrow> bool statement" where
  "OrderEventPayloadMatches v now db =
     (case find (\<lambda>r. vEventID r = vEventID v) (dbEvents db) of
        None \<Rightarrow> (Inl ErrNoRows, db)
      | Some r \<Rightarrow> (Inr (r = v), db))"

section \<open>The queries of the markets\<close>

definition CreateMarket :: "string \<Rightarrow> MarketRow statement" where
  "CreateMarket ticker now db =
     (if ticker \<in> set (map krTicker (dbMarkets db)) then (Inl ErrNoRows, db)
      else let row = \<lparr>krTicker = ticker, krCreatedAt = Some now, krPrecision = DefaultPrecision\<rparr>
           in (Inr row, db\<lparr>dbMarkets := dbMarkets db @ [row]\<rparr>))"

definition GetMarket :: "string \<Rightarrow> MarketRow statement" where
  "GetMarket ticker now db =
     (case find (\<lambda>r. krTicker r = ticker) (dbMarkets db) of
        None \<Rightarrow> (Inl ErrNoRows, db)
      | Some r \<Rightarrow> (Inr r, db))"

definition ListMarkets :: "MarketRow list statement" where
  "ListMarkets now db = (Inr (sort_key krTicker (dbMarkets db)), db)"

section \<open>Transactions\<close>

text \<open>
  A transaction works on the database and its end decides: a commit that proceeds keeps the
  work, one that fails or a rollback restores the tables, a lost commit keeps the work and
  reports an error.
\<close>

definition rollback :: "Database \<Rightarrow> Database \<Rightarrow> Database" where
  "rollback before tx = before\<lparr>dbStep := dbStep tx\<rparr>"

definition commit :: "Database \<Rightarrow> Database \<Rightarrow> error option \<times> Database" where
  "commit before tx =
     (case dbScript tx (dbStep tx) of
        Proceed now \<Rightarrow> (None, tick tx)
      | Fail err \<Rightarrow> (Some err, rollback before (tick tx))
      | Lost now err \<Rightarrow> (Some err, tick tx))"

end
