(* ===== verification/BatchStore.thy ===== *)
theory BatchStore
  imports Database
begin

text \<open>
  The stores of executions and of order events: \<^verbatim>\<open>internal/matchlog/postgres/store.go\<close> and
  \<^verbatim>\<open>internal/orderevent/postgres/store.go\<close>. Both save a batch in one transaction: the
  parameters of every element first, then an insert for each, which either adds the row or
  finds one with the same identity that has to be the same row. \<open>save_batch\<close> is that code over
  the queries of the table.
\<close>

section \<open>Saving a batch\<close>

fun batch_params :: "('a \<Rightarrow> error + 'p) \<Rightarrow> nat \<Rightarrow> 'a list \<Rightarrow> error + 'p list" where
  "batch_params params i [] = Inr []"
| "batch_params params i (x # xs) =
     (case params x of
        Inl err \<Rightarrow> Inl (Wrapped ''validate'' err)
      | Inr p \<Rightarrow>
          (case batch_params params (i + 1) xs of Inl err \<Rightarrow> Inl err | Inr ps \<Rightarrow> Inr (p # ps)))"

fun insert_batch ::
  "('p \<Rightarrow> int statement) \<Rightarrow> ('p \<Rightarrow> bool statement) \<Rightarrow> ('p \<Rightarrow> error) \<Rightarrow> nat \<Rightarrow> 'p list \<Rightarrow> Database \<Rightarrow>
   error option \<times> Database" where
  "insert_batch ins same conflict i [] tx = (None, tx)"
| "insert_batch ins same conflict i (p # ps) tx =
     (case round_trip (ins p) tx of
        (Inl err, tx) \<Rightarrow> (Some (Wrapped ''insert'' err), tx)
      | (Inr inserted, tx) \<Rightarrow>
          if inserted = 1 then insert_batch ins same conflict (i + 1) ps tx
          else (case round_trip (same p) tx of
                  (Inl err, tx) \<Rightarrow> (Some (Wrapped ''check existing'' err), tx)
                | (Inr matches, tx) \<Rightarrow>
                    if \<not> matches then (Some (conflict p), tx)
                    else insert_batch ins same conflict (i + 1) ps tx))"

definition begin_transaction :: "unit statement" where
  "begin_transaction now db = (Inr (), db)"

definition save_batch ::
  "('a \<Rightarrow> error + 'p) \<Rightarrow> ('p \<Rightarrow> int statement) \<Rightarrow> ('p \<Rightarrow> bool statement) \<Rightarrow> ('p \<Rightarrow> error) \<Rightarrow> 'a list \<Rightarrow>
   Database \<Rightarrow> error option \<times> Database" where
  "save_batch params ins same conflict xs db =
     (if xs = [] then (None, db)
      else case batch_params params 0 xs of
             Inl err \<Rightarrow> (Some err, db)
           | Inr ps \<Rightarrow>
               (case round_trip begin_transaction db of
                  (Inl err, db) \<Rightarrow> (Some (Wrapped ''begin transaction'' err), db)
                | (Inr _, db) \<Rightarrow>
                    (case insert_batch ins same conflict 0 ps db of
                       (Some err, tx) \<Rightarrow> (Some err, rollback db tx)
                     | (None, tx) \<Rightarrow>
                         (case commit db tx of
                            (None, db) \<Rightarrow> (None, db)
                          | (Some err, db) \<Rightarrow> (Some (Wrapped ''commit'' err), db)))))"

section \<open>Executions\<close>

definition validSide :: "Position \<Rightarrow> bool" where
  "validSide p \<longleftrightarrow> p = Bid \<or> p = Ask"

definition validateMatchLog :: "MatchLog \<Rightarrow> error option" where
  "validateMatchLog l =
     (if mExecutionID l = [] then Some (ErrInvalidMatchLog ''execution id is required'')
      else if mTicker l = [] then Some (ErrInvalidMatchLog ''ticker is required'')
      else if mPrice l \<le> 0 then Some (ErrInvalidMatchLog ''price must be positive'')
      else if mAmount l \<le> 0 then Some (ErrInvalidMatchLog ''amount must be positive'')
      else if mQuoteAmount l < 0 then Some (ErrInvalidMatchLog ''quote amount cannot be negative'')
      else if mMakerOrderID l = [] then Some (ErrInvalidMatchLog ''maker order id is required'')
      else if mTakerOrderID l = [] then Some (ErrInvalidMatchLog ''taker order id is required'')
      else if mMakerUserID l = [] then Some (ErrInvalidMatchLog ''maker user id is required'')
      else if mTakerUserID l = [] then Some (ErrInvalidMatchLog ''taker user id is required'')
      else if \<not> validSide (mMakerSide l) then Some (ErrInvalidMatchLog ''maker side must be BID or ASK'')
      else if \<not> validSide (mTakerSide l) then Some (ErrInvalidMatchLog ''taker side must be BID or ASK'')
      else if IsZero (mMatchedAt l) then Some (ErrInvalidMatchLog ''matched at is required'')
      else None)"

definition match_log_params :: "MatchLog \<Rightarrow> error + MatchLog" where
  "match_log_params l =
     (case validateMatchLog l of
        Some err \<Rightarrow> Inl err
      | None \<Rightarrow>
          (case (if mQuoteAmount l = 0 then QuoteAmount DefaultPrecision (mPrice l) (mAmount l)
                 else Inr (mQuoteAmount l)) of
             Inl err \<Rightarrow> Inl (NumericError err)
           | Inr quoteAmount \<Rightarrow>
               Inr (l\<lparr>mQuoteAmount := quoteAmount,
                      mMarketConfigVersion :=
                        (if mMarketConfigVersion l = 0 then DefaultConfigVersion
                         else mMarketConfigVersion l)\<rparr>)))"

definition SaveMatchLogs :: "MatchLog list \<Rightarrow> Database \<Rightarrow> error option \<times> Database" where
  "SaveMatchLogs logs db =
     save_batch match_log_params CreateMatchLog MatchLogPayloadMatches
       (\<lambda>p. ErrMatchLogConflict (mExecutionID p)) logs db"

definition SaveMatchLog :: "MatchLog \<Rightarrow> Database \<Rightarrow> error option \<times> Database" where
  "SaveMatchLog l db = SaveMatchLogs [l] db"

section \<open>Order events\<close>

definition eventParams :: "digest \<Rightarrow> OrderEvent \<Rightarrow> error + OrderEvent" where
  "eventParams H v =
     (case ValidateEvent H v of
        Some err \<Rightarrow> Inl err
      | None \<Rightarrow>
          Inr (v\<lparr>vMarketConfigVersion :=
                   (if vMarketConfigVersion v = 0 then DefaultConfigVersion
                    else vMarketConfigVersion v)\<rparr>))"

definition SaveEvents :: "digest \<Rightarrow> OrderEvent list \<Rightarrow> Database \<Rightarrow> error option \<times> Database" where
  "SaveEvents H events db =
     save_batch (eventParams H) CreateOrderEvent OrderEventPayloadMatches
       (\<lambda>p. ErrOrderEventConflict (vEventID p)) events db"

definition SaveEvent :: "digest \<Rightarrow> OrderEvent \<Rightarrow> Database \<Rightarrow> error option \<times> Database" where
  "SaveEvent H v db = SaveEvents H [v] db"

section \<open>The contract of a table with identities\<close>

text \<open>What no operation of these tables touches.\<close>

definition untouched :: "Database \<Rightarrow> Database \<Rightarrow> bool" where
  "untouched db db' \<longleftrightarrow> dbScript db' = dbScript db \<and> dbJournal db' = dbJournal db \<and>
     dbSequences db' = dbSequences db \<and> dbMarkets db' = dbMarkets db"

lemma untouched_simps [simp]:
  "untouched db db" "untouched db (tick db') = untouched db db'" "untouched (tick db) db' = untouched db db'"
  "untouched db (rollback db tx)"
  by (simp_all add: untouched_def rollback_def)

lemma untouched_trans: "untouched a b \<Longrightarrow> untouched b c \<Longrightarrow> untouched a c"
  by (simp add: untouched_def)

locale keyed_table =
  fixes ins :: "'p \<Rightarrow> int statement" and same :: "'p \<Rightarrow> bool statement"
    and key :: "'p \<Rightarrow> string" and rows :: "Database \<Rightarrow> 'p list"
    and others :: "Database \<Rightarrow> 'o"
  assumes ins_new: "ins p now db = (Inr n, db') \<Longrightarrow> key p \<notin> key ` set (rows db) \<Longrightarrow>
      n = 1 \<and> rows db' = rows db @ [p] \<and> untouched db db'"
    and ins_known: "key p \<in> key ` set (rows db) \<Longrightarrow> ins p now db = (Inr 0, db)"
    and ins_error: "ins p now db = (Inl err, db') \<Longrightarrow> db' = db"
    and same_row: "same p now db = (Inr b, db') \<Longrightarrow>
      db' = db \<and> (\<exists>r \<in> set (rows db). key r = key p \<and> (b \<longleftrightarrow> r = p))"
    and same_error: "same p now db = (Inl err, db') \<Longrightarrow> db' = db"
    and same_known: "key p \<in> key ` set (rows db) \<Longrightarrow> \<exists>b. fst (same p now db) = Inr b"
    and rows_step: "rows (db\<lparr>dbStep := k\<rparr>) = rows db"
    and others_step: "others (db\<lparr>dbStep := k\<rparr>) = others db"
    and ins_others: "others (snd (ins p now db)) = others db" "dbStep (snd (ins p now db)) = dbStep db"
begin

lemma rows_tick [simp]: "rows (tick db) = rows db" "rows (rollback db tx) = rows db"
  "others (tick db) = others db" "others (rollback db tx) = others db" "dbStep (rollback db tx) = dbStep tx"
  by (simp_all add: tick_def rollback_def rows_step others_step)

definition identified :: "Database \<Rightarrow> bool" where
  "identified db \<longleftrightarrow> distinct (map key (rows db))"

lemma identified_eq: "identified db \<Longrightarrow> r \<in> set (rows db) \<Longrightarrow> p \<in> set (rows db) \<Longrightarrow> key r = key p \<Longrightarrow> r = p"
  unfolding identified_def by (metis distinct_map inj_onD)

text \<open>One insert: the row is added, or one with its identity is there already.\<close>

lemma ins_trip:
  assumes "round_trip (ins p) db = (q, db')"
  shows "untouched db db' \<and> (\<exists>new. rows db' = rows db @ new \<and> set new \<subseteq> {p} \<and>
      (identified db \<longrightarrow> identified db')) \<and>
    (\<forall>n. q = Inr n \<longrightarrow> (n = 1 \<and> p \<in> set (rows db')) \<or> (n = 0 \<and> rows db' = rows db)) \<and>
    (key p \<in> key ` set (rows db) \<longrightarrow> rows db' = rows db \<and> q \<noteq> Inr 1)"
proof -
  have one: "untouched db x \<and> (\<exists>new. rows x = rows db @ new \<and> set new \<subseteq> {p} \<and> (identified db \<longrightarrow> identified x)) \<and>
      (\<forall>n. y = Inr n \<longrightarrow> (n = 1 \<and> p \<in> set (rows x)) \<or> (n = 0 \<and> rows x = rows db)) \<and>
      (key p \<in> key ` set (rows db) \<longrightarrow> rows x = rows db \<and> y \<noteq> Inr 1)"
    if i: "ins p now (tick db) = (y, x)" for now x y
  proof (cases "key p \<in> key ` set (rows db)")
    case True
    then show ?thesis using i ins_known [of p "tick db" now] by (auto simp: identified_def)
  next
    case False
    then show ?thesis
      using i ins_new [of p now "tick db" _ x] ins_error [of p now "tick db" _ x]
      by (cases y) (auto simp: identified_def)
  qed
  show ?thesis
    using assms
  proof (cases rule: round_trip_cases)
    case (lost now err)
    then show ?thesis using one [of now "fst (ins p now (tick db))" db'] by auto
  qed (use one in \<open>auto simp: identified_def\<close>)
qed

lemma same_trip:
  assumes "round_trip (same p) db = (q, db')"
  shows "untouched db db' \<and> rows db' = rows db \<and> identified db' = identified db \<and>
    (\<forall>b. q = Inr b \<longrightarrow> (\<exists>r \<in> set (rows db). key r = key p \<and> (b \<longleftrightarrow> r = p)))"
proof -
  have one: "x = tick db \<and> (\<forall>b. y = Inr b \<longrightarrow> (\<exists>r \<in> set (rows db). key r = key p \<and> (b \<longleftrightarrow> r = p)))"
    if "same p now (tick db) = (y, x)" for now x y
    using that same_row [of p now "tick db" _ x] same_error [of p now "tick db" _ x] by (cases y) auto
  show ?thesis
    using assms
  proof (cases rule: round_trip_cases)
    case (lost now err)
    then show ?thesis using one [of now "fst (same p now (tick db))" db'] by (auto simp: identified_def)
  next
    case (answered now)
    then show ?thesis using one [OF answered] by (auto simp: identified_def)
  qed (simp add: identified_def)
qed

text \<open>
  A batch that is inserted without error: every row of it is in the table and nothing else was
  added. A batch whose rows are all there already finds them and adds nothing.
\<close>

lemma insert_batch_rows:
  assumes "insert_batch ins same conflict i ps db = (r, db')"
  shows "untouched db db' \<and> (\<exists>new. rows db' = rows db @ new \<and> set new \<subseteq> set ps) \<and>
    (identified db \<longrightarrow> identified db') \<and> (r = None \<longrightarrow> set ps \<subseteq> set (rows db'))"
  using assms
proof (induction ps arbitrary: i db)
  case (Cons p ps)
  obtain q db1 where Q: "round_trip (ins p) db = (q, db1)" by (cases "round_trip (ins p) db")
  note I = ins_trip [OF Q]
  then obtain new where new: "rows db1 = rows db @ new" "set new \<subseteq> {p}" by blast
  show ?case
  proof (cases q)
    case (Inl err)
    then show ?thesis using Cons.prems Q I new by auto
  next
    case (Inr n)
    have step: ?thesis if "insert_batch ins same conflict (i + 1) ps db2 = (r, db')"
      "untouched db1 db2" "rows db2 = rows db1" "identified db2 = identified db1" "p \<in> set (rows db2)" for db2
    proof -
      note H = Cons.IH [OF that(1)]
      obtain new' where new': "rows db' = rows db2 @ new'" "set new' \<subseteq> set ps" using H by blast
      have "rows db' = rows db @ (new @ new')" "set (new @ new') \<subseteq> set (p # ps)"
        using new new' that(3) by auto
      moreover have "untouched db db'" using H I that(2) untouched_trans by blast
      moreover have "p \<in> set (rows db')" using that(5) new'(1) by simp
      ultimately show ?thesis using H I that(4) by auto
    qed
    show ?thesis
    proof (cases "n = 1")
      case True
      then show ?thesis using step [of db1] Cons.prems Q Inr I by auto
    next
      case False
      obtain m db2 where M: "round_trip (same p) db1 = (m, db2)" by (cases "round_trip (same p) db1")
      note S = same_trip [OF M]
      show ?thesis
      proof (cases "m = Inr True")
        case True
        then have "p \<in> set (rows db2)" using S by auto
        then show ?thesis using step [of db2] Cons.prems Q Inr False M True S by auto
      next
        case no: False
        then have "db' = db2" "r \<noteq> None"
          using Cons.prems Q Inr False M by (auto split: sum.splits if_splits)
        then show ?thesis using I S new untouched_trans by auto
      qed
    qed
  qed
qed auto

lemma insert_batch_known:
  assumes "insert_batch ins same conflict i ps db = (r, db')" "identified db" "set ps \<subseteq> set (rows db)"
  shows "rows db' = rows db \<and> (r = None \<or> (\<exists>msg err. r = Some (Wrapped msg err)))"
  using assms
proof (induction ps arbitrary: i db)
  case (Cons p ps)
  obtain q db1 where Q: "round_trip (ins p) db = (q, db1)" by (cases "round_trip (ins p) db")
  have "key p \<in> key ` set (rows db)" using Cons.prems(3) by simp
  then have I: "rows db1 = rows db" "q \<noteq> Inr 1" using ins_trip [OF Q] by blast+
  have id: "identified db1" using Cons.prems(2) I(1) by (simp add: identified_def)
  obtain m db2 where M: "round_trip (same p) db1 = (m, db2)" by (cases "round_trip (same p) db1")
  note S = same_trip [OF M]
  have "m \<noteq> Inr False"
  proof
    assume "m = Inr False"
    then obtain x where "x \<in> set (rows db1)" "key x = key p" "x \<noteq> p" using S by auto
    moreover have "p \<in> set (rows db1)" using Cons.prems(3) I(1) by simp
    ultimately show False using identified_eq [OF id] by blast
  qed
  moreover have "rows db' = rows db2 \<and> (r = None \<or> (\<exists>msg err. r = Some (Wrapped msg err)))"
    if "insert_batch ins same conflict (i + 1) ps db2 = (r, db')"
    using Cons.IH [OF that] S id I(1) Cons.prems(3) by auto
  ultimately show ?case
    using Cons.prems(1) Q I M S by (auto split: sum.splits if_splits)
qed auto

text \<open>A transaction adds the rows of the whole batch or nothing.\<close>

lemma save_batch_atomic:
  assumes S: "save_batch params ins same conflict xs db = (r, db')"
  shows "untouched db db' \<and> (identified db \<longrightarrow> identified db') \<and>
    (r = None \<longrightarrow> (\<exists>ps. batch_params params 0 xs = Inr ps \<and> set ps \<subseteq> set (rows db'))) \<and>
    (rows db' = rows db \<or>
      (\<exists>ps new. batch_params params 0 xs = Inr ps \<and> set ps \<subseteq> set (rows db') \<and>
        rows db' = rows db @ new \<and> set new \<subseteq> set ps))"
proof (cases "xs = []")
  case True
  then show ?thesis using S by (simp add: save_batch_def)
next
  case ne: False
  show ?thesis
  proof (cases "batch_params params 0 xs")
    case (Inl err)
    then show ?thesis using S ne by (auto simp: save_batch_def)
  next
    case (Inr ps)
    obtain b db1 where B: "round_trip begin_transaction db = (b, db1)"
      by (cases "round_trip begin_transaction db")
    have db1: "untouched db db1" "rows db1 = rows db"
      using B by (auto simp: round_trip_def begin_transaction_def split: outcome.splits)
    obtain e tx where T: "insert_batch ins same conflict 0 ps db1 = (e, tx)"
      by (cases "insert_batch ins same conflict 0 ps db1")
    note R = insert_batch_rows [OF T]
    have tx: "untouched db tx" using untouched_trans db1(1) R by blast
    have id: "identified db1 = identified db" by (simp add: identified_def db1(2))
    have ty: "untouched db (tick tx)" "identified (tick tx) = identified tx" "rows (tick tx) = rows tx"
      "untouched db (rollback db1 x)" "identified (rollback db1 x) = identified db" "rows (rollback db1 x) = rows db" for x
      using tx db1 by (auto simp: identified_def untouched_def rollback_def rows_step)
    note S' = S [unfolded save_batch_def Inr B, simplified, simplified ne, simplified, unfolded T, simplified]
    show ?thesis
    proof (cases "b = Inr () \<and> e = None")
      case True
      have saved: "set ps \<subseteq> set (rows tx)" "\<exists>new. rows tx = rows db @ new \<and> set new \<subseteq> set ps"
        using R True db1(2) by auto
      show ?thesis
        using S' True saved ty R id Inr by (auto simp: commit_def split: outcome.splits)
    next
      case False
      then have "r \<noteq> None" "db' = db1 \<or> db' = rollback db1 tx"
        using S' by (auto split: sum.splits option.splits)
      then show ?thesis using db1 ty id by auto
    qed
  qed
qed

text \<open>Saving again what is saved changes nothing and meets no conflict.\<close>

lemma save_batch_again:
  assumes S: "save_batch params ins same conflict xs db = (r, db')" and "identified db"
    and P: "batch_params params 0 xs = Inr ps" "set ps \<subseteq> set (rows db)"
  shows "untouched db db' \<and> rows db' = rows db \<and> (r = None \<or> (\<exists>msg err. r = Some (Wrapped msg err)))"
proof (cases "xs = []")
  case True
  then show ?thesis using S by (simp add: save_batch_def)
next
  case ne: False
  obtain b db1 where B: "round_trip begin_transaction db = (b, db1)"
    by (cases "round_trip begin_transaction db")
  have db1: "untouched db db1" "rows db1 = rows db"
    using B by (auto simp: round_trip_def begin_transaction_def split: outcome.splits)
  obtain e tx where T: "insert_batch ins same conflict 0 ps db1 = (e, tx)"
    by (cases "insert_batch ins same conflict 0 ps db1")
  have id: "identified db1" using assms(2) by (simp add: identified_def db1(2))
  have K: "rows tx = rows db" "e = None \<or> (\<exists>msg err. e = Some (Wrapped msg err))"
    using insert_batch_known [OF T id] P(2) db1(2) by auto
  have tx: "untouched db tx" using untouched_trans db1(1) insert_batch_rows [OF T] by blast
  have ty: "untouched db (tick tx)" "rows (tick tx) = rows db"
    "untouched db (rollback db1 x)" "rows (rollback db1 x) = rows db" for x
    using tx db1 K(1) by (auto simp: untouched_def rollback_def rows_step)
  note S' = S [unfolded save_batch_def P(1) B, simplified, simplified ne, simplified, unfolded T, simplified]
  show ?thesis
  proof (cases "b = Inr () \<and> e = None")
    case True
    then show ?thesis using S' ty by (auto simp: commit_def split: outcome.splits)
  next
    case False
    then have "\<exists>msg err. r = Some (Wrapped msg err)" "db' = db1 \<or> db' = rollback db1 tx"
      using S' K(2) by (auto split: sum.splits option.splits)
    then show ?thesis using db1 ty by auto
  qed
qed

text \<open>What a save does not touch: the other tables; and it takes steps.\<close>

lemma trip_others:
  "round_trip (ins p) db = (q, db') \<Longrightarrow> others db' = others db \<and> dbStep db' = dbStep db + 1"
  "round_trip (same p) db = (b, db') \<Longrightarrow> others db' = others db \<and> dbStep db' = dbStep db + 1"
proof -
  show "others db' = others db \<and> dbStep db' = dbStep db + 1" if "round_trip (ins p) db = (q, db')"
    using that
  proof (cases rule: round_trip_cases)
    case (answered now)
    then show ?thesis using ins_others [of p now "tick db"] by simp
  next
    case (lost now err)
    then show ?thesis using ins_others [of p now "tick db"] by simp
  qed simp
  have same: "snd (same p now d) = d" for now d
    using same_row [of p now d] same_error [of p now d] by (cases "same p now d"; cases "fst (same p now d)") auto
  show "others db' = others db \<and> dbStep db' = dbStep db + 1" if "round_trip (same p) db = (b, db')"
    using that
  proof (cases rule: round_trip_cases)
    case (answered now)
    then show ?thesis using same [of now "tick db"] by simp
  qed (simp_all add: same)
qed

lemma insert_batch_others:
  "insert_batch ins same conflict i ps db = (r, db') \<Longrightarrow> others db' = others db \<and> dbStep db \<le> dbStep db'"
proof (induction ps arbitrary: i db)
  case (Cons p ps)
  obtain q db1 where Q: "round_trip (ins p) db = (q, db1)" by (cases "round_trip (ins p) db")
  obtain m db2 where M: "round_trip (same p) db1 = (m, db2)" by (cases "round_trip (same p) db1")
  have "db' = db1 \<or> db' = db2 \<or> (\<exists>d \<in> {db1, db2}. insert_batch ins same conflict (i + 1) ps d = (r, db'))"
    using Cons.prems Q M by (auto split: sum.splits if_splits)
  then show ?case using Cons.IH trip_others(1) [OF Q] trip_others(2) [OF M] by fastforce
qed simp

lemma save_batch_others:
  assumes "save_batch params ins same conflict xs db = (r, db')"
  shows "others db' = others db \<and> dbStep db \<le> dbStep db'"
proof (cases "xs = [] \<or> isl (batch_params params 0 xs)")
  case True
  then show ?thesis using assms by (auto simp: save_batch_def split: sum.splits if_splits)
next
  case False
  then obtain ps where ps: "batch_params params 0 xs = Inr ps" by (cases "batch_params params 0 xs") auto
  obtain b db1 where B: "round_trip begin_transaction db = (b, db1)" by (cases "round_trip begin_transaction db")
  have db1: "db1 = tick db" using B by (auto simp: round_trip_def begin_transaction_def split: outcome.splits)
  obtain e tx where T: "insert_batch ins same conflict 0 ps db1 = (e, tx)"
    by (cases "insert_batch ins same conflict 0 ps db1")
  have "db' \<in> {db1, rollback db1 tx, tick tx, rollback db1 (tick tx)}"
    using assms False ps B T by (auto simp: save_batch_def commit_def split: sum.splits option.splits outcome.splits)
  then show ?thesis using insert_batch_others [OF T] db1 by auto
qed

text \<open>On a database that does not fail, saving again what is saved succeeds.\<close>

lemma insert_batch_calm:
  assumes "unfailing db" "identified db" "set ps \<subseteq> set (rows db)"
  shows "fst (insert_batch ins same conflict i ps db) = None"
  using assms
proof (induction ps arbitrary: i db)
  case (Cons p ps)
  have key: "key p \<in> key ` set (rows db)" using Cons.prems(3) by simp
  obtain now where "round_trip (ins p) db = ins p now (tick db)" using Cons.prems(1) by (rule unfailing_trip)
  then have Q: "round_trip (ins p) db = (Inr 0, tick db)" using ins_known [of p "tick db" now] key by simp
  have calm: "unfailing (tick db)" "unfailing (tick (tick db))" using Cons.prems(1) by (auto intro: unfailing_later)
  obtain now where R: "round_trip (same p) (tick db) = same p now (tick (tick db))" using calm(1) by (rule unfailing_trip)
  obtain b where "fst (same p now (tick (tick db))) = Inr b" using same_known [of p "tick (tick db)" now] key by auto
  then obtain db2 where S: "same p now (tick (tick db)) = (Inr b, db2)" by (cases "same p now (tick (tick db))") simp
  obtain r where r: "db2 = tick (tick db)" "r \<in> set (rows db)" "key r = key p" "b \<longleftrightarrow> r = p"
    using same_row [OF S] by auto
  have "b" using identified_eq [OF Cons.prems(2) r(2) _ r(3)] Cons.prems(3) r(4) by simp
  moreover have "fst (insert_batch ins same conflict (i + 1) ps (tick (tick db))) = None"
    using Cons.IH [OF calm(2)] Cons.prems(2,3) by (simp add: identified_def)
  ultimately show ?case using Q R S r(1) by simp
qed simp

lemma save_batch_calm:
  assumes "unfailing db" "identified db" "batch_params params 0 xs = Inr ps" "set ps \<subseteq> set (rows db)"
  shows "fst (save_batch params ins same conflict xs db) = None"
proof -
  have calm: "unfailing (tick db)" using assms(1) by (auto intro: unfailing_later)
  have B: "round_trip begin_transaction db = (Inr (), tick db)"
    using unfailing_trip [OF assms(1), of begin_transaction] by (auto simp: begin_transaction_def)
  obtain tx where T: "insert_batch ins same conflict 0 ps (tick db) = (None, tx)"
    using insert_batch_calm [OF calm, of ps conflict 0] assms(2,4)
    by (cases "insert_batch ins same conflict 0 ps (tick db)") (simp add: identified_def)
  have "unfailing tx"
    using unfailing_later [OF calm] insert_batch_rows [OF T] insert_batch_others [OF T] by (simp add: untouched_def)
  then obtain now where "dbScript tx (dbStep tx) = Proceed now" by (rule unfailing_trip [where f = begin_transaction])
  then show ?thesis using assms(3) B T by (simp add: save_batch_def commit_def)
qed

end

section \<open>The two tables\<close>

interpretation ml: keyed_table CreateMatchLog MatchLogPayloadMatches mExecutionID dbMatchLogs dbEvents
  by unfold_locales
    (auto simp: CreateMatchLog_def MatchLogPayloadMatches_def untouched_def dest!: find_SomeD intro: find_SomeI
      split: if_splits option.splits)

interpretation oe: keyed_table CreateOrderEvent OrderEventPayloadMatches vEventID dbEvents dbMatchLogs
  by unfold_locales
    (auto simp: CreateOrderEvent_def OrderEventPayloadMatches_def untouched_def dest!: find_SomeD intro: find_SomeI
      split: if_splits option.splits)

end
