(* ===== verification/JournalStore.thy ===== *)
theory JournalStore
  imports Database JournalContract
begin

text \<open>
  The journal's store: \<^verbatim>\<open>internal/journal/postgres/store.go\<close>. \<open>journal_log\<close> is the table's
  invariant: its rows encode a log of commands one by one, identities are unique, sequences are
  positive and at most the last one of their ticker, and the rows of a ticker are in the order
  of their sequences.
\<close>

definition decodeRow :: "JournalRow \<Rightarrow> error + Command" where
  "decodeRow row =
     (if jrSequence row \<le> 0 then Inl (ErrInvalidCommand ''sequence must be positive'')
      else case jrRecordedAt row of
             None \<Rightarrow> Inl (ErrInvalidCommand ''recorded time is required'')
           | Some recordedAt \<Rightarrow>
               DecodeWithVersion (jrCommandID row) (jrTicker row) (jrSequence row)
                 (jrCommandType row) (jrPayload row) recordedAt (jrMarketConfigVersion row))"

text \<open>The answer for a command identity that is already journalled.\<close>

definition existing_entry :: "Command \<Rightarrow> Database \<Rightarrow> (error + AppendResult) \<times> Database" where
  "existing_entry command db =
     (case round_trip (GetOrderJournalEntry (jCommandID command)) db of
        (Inl err, db) \<Rightarrow> (Inl (Wrapped ''read existing journal command'' err), db)
      | (Inr row, db) \<Rightarrow>
          (case decodeRow row of
             Inl err \<Rightarrow> (Inl err, db)
           | Inr existing \<Rightarrow>
               if \<not> SamePayload command existing then (Inl (ErrCommandConflict (jCommandID command)), db)
               else (Inr \<lparr>apCommand = existing, apInserted = False\<rparr>, db)))"

definition Append :: "Command \<Rightarrow> Database \<Rightarrow> (error + AppendResult) \<times> Database" where
  "Append command db =
     (let command = default_version command in
      case EncodePayload command of
        Inl err \<Rightarrow> (Inl err, db)
      | Inr payload \<Rightarrow>
          (case round_trip (CreateOrderJournalEntry (jCommandID command) (jTicker command)
                   (jType command) payload (jMarketConfigVersion command)) db of
             (Inr (sequence, recordedAt), db) \<Rightarrow>
               if sequence \<le> 0
               then (Inl (PlainError ''append journal command: invalid sequence''), db)
               else (case recordedAt of
                       None \<Rightarrow> (Inl (PlainError ''append journal command: missing recorded time''), db)
                     | Some recordedAt \<Rightarrow>
                         (Inr \<lparr>apCommand = command\<lparr>jSequence := sequence, jRecordedAt := recordedAt\<rparr>,
                               apInserted = True\<rparr>, db))
           | (Inl err, db) \<Rightarrow>
               if error_root err \<noteq> ErrNoRows then (Inl (Wrapped ''append journal command'' err), db)
               else existing_entry command db))"

fun decode_rows :: "nat \<Rightarrow> JournalRow list \<Rightarrow> error + Command list" where
  "decode_rows i [] = Inr []"
| "decode_rows i (row # rows) =
     (case decodeRow row of
        Inl err \<Rightarrow> Inl (Wrapped ''decode order journal row'' err)
      | Inr command \<Rightarrow>
          (case decode_rows (i + 1) rows of Inl err \<Rightarrow> Inl err | Inr cs \<Rightarrow> Inr (command # cs)))"

definition List_journal :: "Database \<Rightarrow> (error + Command list) \<times> Database" where
  "List_journal db =
     (case round_trip ListOrderJournalEntries db of
        (Inl err, db) \<Rightarrow> (Inl (Wrapped ''list order journal'' err), db)
      | (Inr rows, db) \<Rightarrow> (decode_rows 0 rows, db))"

section \<open>The invariant of the table\<close>

definition row_of :: "Command \<Rightarrow> JournalRow" where
  "row_of c =
     \<lparr>jrCommandID = jCommandID c, jrTicker = jTicker c, jrSequence = jSequence c,
      jrCommandType = jType c,
      jrPayload = (case EncodePayload c of Inl _ \<Rightarrow> JNull | Inr payload \<Rightarrow> payload),
      jrMarketConfigVersion = jMarketConfigVersion c, jrRecordedAt = Some (jRecordedAt c)\<rparr>"

definition journal_log :: "Command list \<Rightarrow> Database \<Rightarrow> bool" where
  "journal_log L db \<longleftrightarrow> honest db \<and> dbJournal db = map row_of L \<and>
     (\<forall>c \<in> set L. stored_command c) \<and> sequenced L \<and> distinct (map jCommandID L) \<and>
     (\<forall>c \<in> set L. \<exists>n. dbSequences db (jTicker c) = Some n \<and> jSequence c \<le> n) \<and>
     (\<forall>t n. dbSequences db t = Some n \<longrightarrow> 0 < n)"

lemma journal_log_tick [simp]: "journal_log L (tick db) = journal_log L db"
  by (simp add: journal_log_def)

lemma stored_payload:
  assumes "stored_command c"
  obtains payload where "EncodePayload c = Inr payload"
  using assms that by (auto simp: stored_command_def EncodePayload_def elim!: ValidateCommand_cases)

lemma decodeRow_row_of:
  assumes "stored_command c"
  shows "decodeRow (row_of c) = Inr c"
proof -
  obtain payload where e: "EncodePayload c = Inr payload" using assms by (rule stored_payload)
  then show ?thesis
    using assms wire_decodes [OF e] by (simp add: decodeRow_def row_of_def stored_command_def)
qed

lemma row_of_fields [simp]:
  "jrCommandID (row_of c) = jCommandID c" "jrTicker (row_of c) = jTicker c"
  "jrSequence (row_of c) = jSequence c"
  by (simp_all add: row_of_def)

text \<open>The journal's own fields are not part of the payload.\<close>

lemma entry_payload:
  "EncodePayload (c\<lparr>jSequence := n, jRecordedAt := t\<rparr>) = EncodePayload c"
  "ValidateCommand (c\<lparr>jSequence := n, jRecordedAt := t\<rparr>) = ValidateCommand c"
  "wire_command (c\<lparr>jSequence := n, jRecordedAt := t\<rparr>) = wire_command c"
  "wire_command (default_version c) = wire_command c"
proof -
  let ?d = "c\<lparr>jSequence := n, jRecordedAt := t\<rparr>"
  have f: "jCommandID ?d = jCommandID c" "jTicker ?d = jTicker c" "jType ?d = jType c"
    "jMarketConfigVersion ?d = jMarketConfigVersion c" "jCreate ?d = jCreate c"
    "jAmend ?d = jAmend c" "jCancel ?d = jCancel c" by simp_all
  have p: "payload_identity ?d = payload_identity c" unfolding payload_identity_def f ..
  show v: "ValidateCommand ?d = ValidateCommand c" unfolding ValidateCommand_def p f ..
  show "EncodePayload ?d = EncodePayload c" unfolding EncodePayload_def v f ..
  show "wire_command ?d = wire_command c" "wire_command (default_version c) = wire_command c"
    by (simp_all add: wire_command_def default_version_def)
qed

lemma create_entry_log:
  assumes log: "journal_log L db" and e: "EncodePayload c = Inr payload" and w: "wire_command c"
    and C: "CreateOrderJournalEntry (jCommandID c) (jTicker c) (jType c) payload
      (jMarketConfigVersion c) now db = (r, db')"
  shows "(r = Inl ErrNoRows \<and> journal_log L db') \<or>
    (\<exists>n. r = Inr (n, Some now) \<and> 0 < n \<and>
      journal_log (L @ [c\<lparr>jSequence := n, jRecordedAt := now\<rparr>]) db')"
proof -
  define n where "n = (case dbSequences db (jTicker c) of None \<Rightarrow> 1 | Some n \<Rightarrow> n + 1)"
  define db1 where "db1 = db\<lparr>dbSequences := (dbSequences db)(jTicker c := Some n)\<rparr>"
  have "\<And>t k. dbSequences db t = Some k \<Longrightarrow> 0 < k" using log by (simp add: journal_log_def)
  then have "\<And>t k. dbSequences db t = Some k \<Longrightarrow> 0 < k + 1" by (metis add_pos_pos zero_less_one)
  then have pos: "0 < n" by (cases "dbSequences db (jTicker c)") (simp_all add: n_def)
  have le: "jSequence d < n" if d: "d \<in> set L" "jTicker d = jTicker c" for d
  proof -
    obtain k where "dbSequences db (jTicker d) = Some k" "jSequence d \<le> k"
      using log d(1) unfolding journal_log_def by blast
    then show ?thesis using d(2) by (simp add: n_def)
  qed
  have 1: "journal_log L db1"
    using log pos le unfolding journal_log_def db1_def by (auto simp: honest_def order_less_imp_le)
  show ?thesis
  proof (cases "jCommandID c \<in> set (map jrCommandID (dbJournal db))")
    case True
    then have "r = Inl ErrNoRows" "db' = db1"
      using C by (simp_all add: CreateOrderJournalEntry_def Let_def n_def db1_def)
    then show ?thesis using 1 by simp
  next
    case False
    define d where "d = c\<lparr>jSequence := n, jRecordedAt := now\<rparr>"
    have row: "r = Inr (n, Some now)" "db' = db1\<lparr>dbJournal := dbJournal db1 @ [row_of d]\<rparr>"
      using C False e by (auto simp: CreateOrderJournalEntry_def Let_def n_def db1_def d_def row_of_def entry_payload)
    have st: "stored_command d"
      using e w pos by (auto simp: stored_command_def d_def entry_payload EncodePayload_def split: option.splits)
    have sq: "sequenced (L @ [d])"
      using 1 le by (simp add: journal_log_def sequenced_def sorted_wrt_append d_def)
    have id: "distinct (map jCommandID (L @ [d]))"
      using log False by (auto simp: journal_log_def d_def)
    have "\<exists>k. dbSequences db1 (jTicker x) = Some k \<and> jSequence x \<le> k" if "x \<in> set (L @ [d])" for x
      using that 1 by (auto simp: journal_log_def d_def db1_def)
    then have "journal_log (L @ [d]) db'"
      using 1 st sq id unfolding journal_log_def row by (auto simp: honest_def)
    then show ?thesis using row pos by (auto simp: d_def)
  qed
qed

section \<open>The contract\<close>

lemma decode_rows_log:
  "(\<And>c. c \<in> set L \<Longrightarrow> stored_command c) \<Longrightarrow> decode_rows i (map row_of L) = Inr L"
  by (induction L arbitrary: i) (simp_all add: decodeRow_row_of)

lemma journal_logD:
  assumes "journal_log L db"
  shows "honest db" "dbJournal db = map row_of L" "\<And>c. c \<in> set L \<Longrightarrow> stored_command c" "sequenced L"
    "distinct (map jCommandID L)"
  using assms by (simp_all add: journal_log_def)

lemma existing_entry_log:
  assumes log: "journal_log L db" and E: "existing_entry c db = (r, db')"
  shows "journal_log L db' \<and>
    (\<forall>a. r = Inr a \<longrightarrow> \<not> apInserted a \<and> apCommand a \<in> set L \<and> SamePayload c (apCommand a))"
proof -
  obtain q db1 where Q: "round_trip (GetOrderJournalEntry (jCommandID c)) db = (q, db1)"
    by (cases "round_trip (GetOrderJournalEntry (jCommandID c)) db")
  have s: "snd (GetOrderJournalEntry (jCommandID c) now d) = d" for now d
    by (simp add: GetOrderJournalEntry_def split: option.split)
  have 1: "journal_log L db1 \<and> (\<forall>row. q = Inr row \<longrightarrow> row \<in> set (map row_of L))"
    using Q
  proof (cases rule: round_trip_cases)
    case (answered now)
    have "row \<in> set (map row_of L)" if "q = Inr row" for row
      using answered that journal_logD(2) [OF log]
      by (auto simp: GetOrderJournalEntry_def dest!: find_SomeD split: option.splits)
    then show ?thesis using answered s [of now "tick db"] log by simp
  qed (use s log in simp_all)
  show ?thesis
  proof (cases q)
    case (Inr row)
    then obtain d where d: "d \<in> set L" "row = row_of d" using 1 by auto
    have "decodeRow row = Inr d" using decodeRow_row_of journal_logD(3) [OF log d(1)] d(2) by simp
    then show ?thesis using E Q Inr 1 d by (auto simp: existing_entry_def split: if_splits)
  qed (use E Q 1 in \<open>auto simp: existing_entry_def\<close>)
qed

lemma Append_log:
  assumes log: "journal_log L db" and w: "wire_command c" and A: "Append c db = (r, db')"
  shows "(\<exists>a. r = Inr a \<and> apInserted a \<and> journal_entry c (apCommand a) \<and> journal_log (L @ [apCommand a]) db') \<or>
    (\<exists>a. r = Inr a \<and> \<not> apInserted a \<and> apCommand a \<in> set L \<and>
       SamePayload (default_version c) (apCommand a) \<and> journal_log L db') \<or>
    (\<exists>err. r = Inl err \<and> (journal_log L db' \<or> (\<exists>e. journal_entry c e \<and> journal_log (L @ [e]) db')))"
proof (cases "EncodePayload (default_version c)")
  case (Inl err)
  then have "r = Inl err" "db' = db" using A by (simp_all add: Append_def)
  then show ?thesis using log by simp
next
  case (Inr payload)
  let ?c = "default_version c"
  define create where "create = CreateOrderJournalEntry (jCommandID ?c) (jTicker ?c) (jType ?c) payload
    (jMarketConfigVersion ?c)"
  obtain q db1 where Q: "round_trip create db = (q, db1)" by (cases "round_trip create db")
  have w': "wire_command ?c" using w by (simp add: entry_payload)
  have step: "(\<exists>x. create now (tick db) = (Inl ErrNoRows, x) \<and> journal_log L x) \<or>
      (\<exists>n x. create now (tick db) = (Inr (n, Some now), x) \<and> 0 < n \<and>
        journal_log (L @ [?c\<lparr>jSequence := n, jRecordedAt := now\<rparr>]) x)" for now
    using create_entry_log [OF _ Inr w', of L "tick db" now] log
    by (cases "create now (tick db)") (auto simp: create_def)
  have entry: "journal_entry c (?c\<lparr>jSequence := n, jRecordedAt := now\<rparr>)" for n now
    by (simp add: journal_entry_def)
  note A' = A [unfolded Append_def Let_def Inr sum.case, folded create_def, unfolded Q prod.case]
  show ?thesis
    using Q
  proof (cases rule: round_trip_cases)
    case (failed err)
    then have "r = Inl (Wrapped ''append journal command'' err)" "journal_log L db'"
      using A' log journal_logD(1) [OF log] by auto
    then show ?thesis by blast
  next
    case (lost now err)
    then have "r = Inl (Wrapped ''append journal command'' err)" "db' = db1"
      using A' journal_logD(1) [OF log] by simp_all
    moreover have "journal_log L db1 \<or> (\<exists>e. journal_entry c e \<and> journal_log (L @ [e]) db1)"
      using step [of now] lost(2) entry by auto
    ultimately show ?thesis by blast
  next
    case (answered now)
    from step [of now] answered consider
        "q = Inl ErrNoRows" "journal_log L db1"
      | n where "q = Inr (n, Some now)" "0 < n" "journal_log (L @ [?c\<lparr>jSequence := n, jRecordedAt := now\<rparr>]) db1"
      by auto
    then show ?thesis
    proof cases
      case 1
      then have "existing_entry ?c db1 = (r, db')" using A' by simp
      then show ?thesis using existing_entry_log [OF 1(2)] by (cases r) auto
    next
      case 2
      then show ?thesis using A' entry by auto
    qed
  qed
qed

lemma read_order:
  assumes "sequenced L"
  shows "of_ticker t (sort_key jTicker (sort_key jSequence L)) = of_ticker t L"
proof -
  have s: "sorted (map jSequence (of_ticker t L))"
    using sequenced_ticker [OF assms, of t]
    by (simp add: sorted_map) (metis (mono_tags, lifting) less_imp_le sorted_wrt_mono_rel)
  have k: "map jTicker (of_ticker t L) = replicate (length (of_ticker t L)) t"
    unfolding of_ticker_def by (induction L) auto
  have "of_ticker t (sort_key jTicker (sort_key jSequence L)) =
      sort_key jTicker (sort_key jSequence (of_ticker t L))"
    by (simp add: of_ticker_def filter_sort)
  also have "\<dots> = of_ticker t L" using s k by (simp add: sort_key_id_if_sorted)
  finally show ?thesis .
qed

lemma read_log:
  assumes log: "journal_log L db" and R: "List_journal db = (r, db')"
  shows "journal_log L db' \<and> (\<forall>cs. r = Inr cs \<longrightarrow> of_ticker t cs = of_ticker t L)"
proof -
  note J = journal_logD [OF log]
  let ?sort = "\<lambda>L. sort_key jTicker (sort_key jSequence L)"
  have rows: "sort_key jrTicker (sort_key jrSequence (map row_of L)) = map row_of (?sort L)"
    by (simp add: sort_key_map o_def)
  have "decode_rows 0 (map row_of (?sort L)) = Inr (?sort L)"
    by (rule decode_rows_log) (simp add: J(3))
  moreover obtain q db1 where Q: "round_trip ListOrderJournalEntries db = (q, db1)"
    by (cases "round_trip ListOrderJournalEntries db")
  have "journal_log L db1 \<and> (\<forall>rows. q = Inr rows \<longrightarrow> rows = map row_of (?sort L))"
    using Q by (cases rule: round_trip_cases) (use log J(2) rows in \<open>auto simp: ListOrderJournalEntries_def\<close>)
  ultimately show ?thesis
    using R Q read_order [OF J(4)] by (cases q) (auto simp: List_journal_def)
qed

interpretation pg: command_journal Append List_journal journal_log
proof
  fix L db c a db' assume a: "journal_log L db" "wire_command c" "Append c db = (Inr a, db')" "apInserted a"
  show "journal_entry c (apCommand a) \<and> journal_log (L @ [apCommand a]) db'"
    using Append_log [OF a(1-3)] a(4) by simp
next
  fix L db c a db' assume a: "journal_log L db" "wire_command c" "Append c db = (Inr a, db')" "\<not> apInserted a"
  show "apCommand a \<in> set L \<and> SamePayload (default_version c) (apCommand a) \<and> journal_log L db'"
    using Append_log [OF a(1-3)] a(4) by simp
next
  fix L db c err db' assume a: "journal_log L db" "wire_command c" "Append c db = (Inl err, db')"
  show "journal_log L db' \<or> (\<exists>e. journal_entry c e \<and> journal_log (L @ [e]) db')"
    using Append_log [OF a] by simp
next
  fix L db cs db' t assume a: "journal_log L db" "List_journal db = (Inr cs, db')"
  show "of_ticker t cs = of_ticker t L \<and> journal_log L db'" using read_log [OF a] by simp
next
  fix L db err db' assume a: "journal_log L db" "List_journal db = (Inl err, db')"
  show "journal_log L db'" using read_log [OF a] by simp
next
  fix L db c assume "journal_log L db" "c \<in> set L"
  then show "stored_command c" by (rule journal_logD(3))
next
  fix L db assume "journal_log L db"
  then show "sequenced L" by (rule journal_logD(4))
qed

end
