(* ===== verification/Persistence.thy ===== *)
theory Persistence
  imports BookWorker BatchStore JournalStore
begin

text \<open>
  The writers between the workers and the stores: \<^verbatim>\<open>internal/matchlog/writer.go\<close> and
  \<^verbatim>\<open>internal/orderevent/writer.go\<close>, which are the same code over two kinds of items. A request
  travels through the writer's channel and its answer through the request's own, so sending a
  request and waiting is one call of the writer. \<open>engine_io\<close> is the world of a worker that
  \<^verbatim>\<open>cmd/server\<close> connects to the PostgreSQL stores.
\<close>

record 'x PersistenceRequest =
  pItems :: "'x list"
  pHasResult :: bool

definition NewPersistenceRequest :: "'x list \<Rightarrow> 'x PersistenceRequest" where
  "NewPersistenceRequest items = \<lparr>pItems = items, pHasResult = True\<rparr>"

text \<open>What \<open>Wait\<close> returns when the writer acknowledged with \<open>err\<close>.\<close>

definition request_wait :: "error \<Rightarrow> 'x PersistenceRequest \<Rightarrow> error option \<Rightarrow> error option" where
  "request_wait unavailable request err = (if \<not> pHasResult request then Some unavailable else err)"

definition writer_handle ::
  "error \<Rightarrow> ('x list \<Rightarrow> 'w \<Rightarrow> error option \<times> 'w) option \<Rightarrow> error option \<Rightarrow> 'x PersistenceRequest \<Rightarrow> 'w \<Rightarrow>
   error option \<times> 'w" where
  "writer_handle unavailable store ctxErr request world =
     (if pItems request = [] then (None, world)
      else case ctxErr of
             Some err \<Rightarrow> (Some err, world)
           | None \<Rightarrow>
               (case store of
                  None \<Rightarrow> (Some unavailable, world)
                | Some save \<Rightarrow> save (pItems request) world))"

text \<open>\<open>Run\<close> on the requests received until the channel is closed, with the acknowledgements.\<close>

fun Writer_Run ::
  "error \<Rightarrow> ('x list \<Rightarrow> 'w \<Rightarrow> error option \<times> 'w) option \<Rightarrow> error option \<Rightarrow> 'x PersistenceRequest list \<Rightarrow>
   'w \<Rightarrow> error option list \<times> 'w" where
  "Writer_Run unavailable store ctxErr [] world = ([], world)"
| "Writer_Run unavailable store ctxErr (request # requests) world =
     (case writer_handle unavailable store ctxErr request world of
        (err, world) \<Rightarrow>
          (case Writer_Run unavailable store ctxErr requests world of
             (acks, world) \<Rightarrow> (err # acks, world)))"

definition persist_request ::
  "error \<Rightarrow> ('x list \<Rightarrow> 'w \<Rightarrow> error option \<times> 'w) option \<Rightarrow> 'x list \<Rightarrow> 'w \<Rightarrow> error option \<times> 'w" where
  "persist_request unavailable store items world =
     (let request = NewPersistenceRequest items in
      case writer_handle unavailable store None request world of
        (err, world) \<Rightarrow> (request_wait unavailable request err, world))"

definition engine_io :: "digest \<Rightarrow> Database worker_io" where
  "engine_io H =
     \<lparr>ioAppend = Some Append,
      ioSaveLogs = Some (persist_request ErrMatchStoreUnavailable (Some SaveMatchLogs)),
      ioSaveEvents = Some (persist_request ErrEventStoreUnavailable (Some (SaveEvents H)))\<rparr>"

lemma persist_request_store:
  "items \<noteq> [] \<Longrightarrow> persist_request unavailable (Some save) items world = save items world"
  by (simp add: persist_request_def NewPersistenceRequest_def writer_handle_def request_wait_def Let_def
      split: prod.split)

end
