(* ===== verification/MarketStore.thy ===== *)
theory MarketStore
  imports Database
begin

text \<open>
  Markets and their store: \<^verbatim>\<open>internal/market/market.go\<close> and
  \<^verbatim>\<open>internal/market/postgres/store.go\<close>. A row's precision is completed with the defaults and has
  to validate before the market is used.
\<close>

record Market =
  qTicker :: string
  qCreatedAt :: Time
  qPrecision :: Precision

record AddResult =
  adMarket :: Market
  adInserted :: bool

definition NormalizeTicker :: "string \<Rightarrow> error + string" where
  "NormalizeTicker ticker =
     (let ticker = TrimSpace ticker in if ticker = [] then Inl ErrInvalidTicker else Inr ticker)"

definition toMarket :: "MarketRow \<Rightarrow> Time \<Rightarrow> error + Market" where
  "toMarket row createdAt =
     (let precision = WithDefaults (krPrecision row) in
      case ValidatePrecision precision of
        Some err \<Rightarrow> Inl (Wrapped ''invalid numeric precision'' (NumericError err))
      | None \<Rightarrow> Inr \<lparr>qTicker = krTicker row, qCreatedAt = createdAt, qPrecision = precision\<rparr>)"

text \<open>The row of a single query: its creation time, then its precision.\<close>

definition registered_row :: "string \<Rightarrow> MarketRow \<Rightarrow> error + Market" where
  "registered_row msg row =
     (case krCreatedAt row of
        None \<Rightarrow> Inl (PlainError (msg @ '': created time is required''))
      | Some createdAt \<Rightarrow>
          (case toMarket row createdAt of Inl err \<Rightarrow> Inl (Wrapped msg err) | Inr q \<Rightarrow> Inr q))"

definition AddMarket :: "string \<Rightarrow> Database \<Rightarrow> (error + AddResult) \<times> Database" where
  "AddMarket ticker db =
     (case NormalizeTicker ticker of
        Inl err \<Rightarrow> (Inl err, db)
      | Inr normalized \<Rightarrow>
          (case round_trip (CreateMarket normalized) db of
             (Inr row, db) \<Rightarrow>
               (case registered_row ''add market'' row of
                  Inl err \<Rightarrow> (Inl err, db)
                | Inr q \<Rightarrow> (Inr \<lparr>adMarket = q, adInserted = True\<rparr>, db))
           | (Inl err, db) \<Rightarrow>
               if error_root err \<noteq> ErrNoRows then (Inl (Wrapped ''add market'' err), db)
               else
                 (case round_trip (GetMarket normalized) db of
                    (Inl err, db) \<Rightarrow> (Inl (Wrapped ''read existing market'' err), db)
                  | (Inr row, db) \<Rightarrow>
                      (case registered_row ''read existing market'' row of
                         Inl err \<Rightarrow> (Inl err, db)
                       | Inr q \<Rightarrow> (Inr \<lparr>adMarket = q, adInserted = False\<rparr>, db)))))"

fun registered_rows :: "MarketRow list \<Rightarrow> error + Market list" where
  "registered_rows [] = Inr []"
| "registered_rows (row # rows) =
     (case registered_row ''market row'' row of
        Inl err \<Rightarrow> Inl err
      | Inr q \<Rightarrow> (case registered_rows rows of Inl err \<Rightarrow> Inl err | Inr qs \<Rightarrow> Inr (q # qs)))"

definition List_markets :: "Database \<Rightarrow> (error + Market list) \<times> Database" where
  "List_markets db =
     (case round_trip ListMarkets db of
        (Inl err, db) \<Rightarrow> (Inl (Wrapped ''list markets'' err), db)
      | (Inr rows, db) \<Rightarrow> (registered_rows rows, db))"

section \<open>What the store promises\<close>

lemma registered_row_ok:
  assumes "registered_row msg row = Inr q"
  shows "qTicker q = krTicker row" "ValidatePrecision (qPrecision q) = None"
    "qPrecision q = WithDefaults (krPrecision row)"
  using assms by (auto simp: registered_row_def toMarket_def Let_def split: option.splits sum.splits)

lemma registered_rows_ok:
  "registered_rows rows = Inr qs \<Longrightarrow> map qTicker qs = map krTicker rows \<and>
     (\<forall>q \<in> set qs. ValidatePrecision (qPrecision q) = None)"
  by (induction rows arbitrary: qs) (auto dest: registered_row_ok split: sum.splits)

end
