(* ===== verification/StoreProperties.thy ===== *)
theory StoreProperties
  imports Persistence MarketStore WorkerProperties
begin

text \<open>
  The properties of the stores, for every script of the database: batches are atomic and saving
  them is idempotent, a journal entry is written once. The samples run on a database without
  failures.
\<close>

definition calm_db :: Database where
  "calm_db = \<lparr>dbScript = (\<lambda>n. Proceed 1000), dbStep = 0, dbJournal = [], dbSequences = Map.empty,
     dbMatchLogs = [], dbEvents = [], dbMarkets = []\<rparr>"

definition sample_log :: MatchLog where
  "sample_log = \<lparr>mExecutionID = ''x1'', mTicker = ''BTC-USD'', mPrice = 101, mAmount = 5,
     mQuoteAmount = 7, mMarketConfigVersion = 1, mMakerOrderID = ''a1'', mTakerOrderID = ''t1'',
     mMakerUserID = ''u'', mTakerUserID = ''v'', mMakerSide = Ask, mTakerSide = Bid, mMatchedAt = 9\<rparr>"

section \<open>Executions\<close>

text \<open>
  C34. A batch of executions is saved as a whole or not at all: without an error every execution
  is in the table under its identity; with one the table is as before, or the batch is in it
  because only the answer to the commit was lost. Identities stay unique, and the journal is
  not touched.
\<close>

theorem save_match_logs_atomic:
  assumes "distinct (map mExecutionID (dbMatchLogs db))" "SaveMatchLogs logs db = (r, db')"
  shows "distinct (map mExecutionID (dbMatchLogs db')) \<and> untouched db db' \<and>
    (r = None \<or> dbMatchLogs db' \<noteq> dbMatchLogs db \<longrightarrow>
       (\<exists>ps. batch_params match_log_params 0 logs = Inr ps \<and> set ps \<subseteq> set (dbMatchLogs db')))"
  using ml.save_batch_atomic [OF assms(2) [unfolded SaveMatchLogs_def]] assms(1)
  by (auto simp: ml.identified_def)

lemma sample_saved: "SaveMatchLogs [sample_log] calm_db =
    (None, calm_db\<lparr>dbMatchLogs := [sample_log], dbStep := 3\<rparr>)"
proof -
  have "match_log_params sample_log = Inr sample_log" by code_simp
  then show ?thesis
    by (simp add: SaveMatchLogs_def save_batch_def round_trip_def begin_transaction_def calm_db_def tick_def
        CreateMatchLog_def commit_def)
qed

lemma save_match_logs_atomic_witness:
  "distinct (map mExecutionID (dbMatchLogs (snd (SaveMatchLogs [sample_log] calm_db)))) \<and>
   untouched calm_db (snd (SaveMatchLogs [sample_log] calm_db))"
proof -
  have "distinct (map mExecutionID (dbMatchLogs calm_db))" by (simp add: calm_db_def)
  from save_match_logs_atomic [OF this sample_saved] show ?thesis by (simp add: sample_saved)
qed

text \<open>
  Saving executions is idempotent: a batch that was saved without an error can be saved
  again, now or after any number of other batches, and then the table does not change and no
  conflict is reported; a retry after a lost answer or a replay is safe.
\<close>

lemma save_match_logs_again:
  assumes "distinct (map mExecutionID (dbMatchLogs db))" "SaveMatchLogs logs db = (None, db1)"
    "set (dbMatchLogs db1) \<subseteq> set (dbMatchLogs db2)" "distinct (map mExecutionID (dbMatchLogs db2))"
    "SaveMatchLogs logs db2 = (r, db3)"
  shows "dbMatchLogs db3 = dbMatchLogs db2 \<and> (r = None \<or> (\<exists>msg err. r = Some (Wrapped msg err)))"
proof -
  obtain ps where "batch_params match_log_params 0 logs = Inr ps" "set ps \<subseteq> set (dbMatchLogs db1)"
    using ml.save_batch_atomic [OF assms(2) [unfolded SaveMatchLogs_def]] by auto
  then show ?thesis
    using ml.save_batch_again [OF assms(5) [unfolded SaveMatchLogs_def], of ps] assms(3,4)
    by (auto simp: ml.identified_def)
qed

text \<open>
  An execution identity names one execution: saving a batch that holds an execution whose
  identity is stored with another payload fails, and nothing of the batch is added.
\<close>

lemma save_match_logs_conflict:
  assumes "distinct (map mExecutionID (dbMatchLogs db))" "SaveMatchLogs logs db = (r, db')"
    "l \<in> set logs" "match_log_params l = Inr p" "q \<in> set (dbMatchLogs db)" "mExecutionID q = mExecutionID p" "q \<noteq> p"
  shows "r \<noteq> None \<and> dbMatchLogs db' = dbMatchLogs db"
proof -
  note A = ml.save_batch_atomic [OF assms(2) [unfolded SaveMatchLogs_def]]
  have id: "ml.identified db'" using A assms(1) by (simp add: ml.identified_def)
  have sub: "set (dbMatchLogs db) \<subseteq> set (dbMatchLogs db')" using A by auto
  have mem: "p \<in> set ps" if "batch_params match_log_params i logs = Inr ps" for i ps
    using that assms(3,4) by (induction logs arbitrary: i ps) (auto split: sum.splits)
  have "\<not> set ps \<subseteq> set (dbMatchLogs db')" if "batch_params match_log_params 0 logs = Inr ps" for ps
    using mem [OF that] ml.identified_eq [OF id] sub assms(5-7) by blast
  then show ?thesis using A by auto
qed

lemma QuoteAmount_nonneg:
  assumes "QuoteAmount p price quantity = Inr q"
  shows "0 \<le> q"
proof -
  have g: "0 \<le> price" "0 \<le> quantity"
    "q = go_quo (price * quantity * pow10 (QuoteScale p)) (pow10 (PriceScale p) * pow10 (QuantityScale p))"
    using assms by (auto simp: QuoteAmount_def Let_def split: if_splits)
  have "0 \<le> price * quantity * pow10 (QuoteScale p)"
    using g(1,2) less_imp_le [OF pow10_pos [of "QuoteScale p"]] by simp
  then show ?thesis
    by (simp add: g(3) go_quo_nonneg pos_imp_zdiv_nonneg_iff)
qed

lemma abs_match_logs:
  assumes "\<And>x. x \<in> set xs \<Longrightarrow> 0 < oAmount x" "l \<in> set (wLogs (abs_match H ticker prec inc n xs))"
  shows "\<exists>m \<in> set xs. \<exists>t q k. 0 < t \<and> QuoteAmount prec (oPrice m) t = Inr q \<and>
    l = trade_log H ticker prec inc m t q k"
  using assms
proof (induction xs arbitrary: inc n)
  case (Cons m ms)
  let ?t = "min (oAmount inc) (oAmount m)"
  let ?rest = "abs_match H ticker prec (inc\<lparr>oAmount := oAmount inc - ?t\<rparr>) (n + 1) ms"
  have taker: "trade_log H ticker prec (inc\<lparr>oAmount := a\<rparr>) = trade_log H ticker prec inc" for a
    by (simp add: trade_log_def fun_eq_iff)
  have go: "\<not> (oAmount inc \<le> 0 \<or> \<not> canMatchAtPrice inc (oPrice m))"
    using Cons.prems(2) by (auto split: if_splits)
  obtain q where q: "QuoteAmount prec (oPrice m) ?t = Inr q"
    using Cons.prems(2) go by (auto simp: Let_def split: sum.splits)
  have "l = trade_log H ticker prec inc m ?t q n \<or> l \<in> set (wLogs ?rest)"
    using Cons.prems(2) go q by (auto simp: Let_def split: if_splits)
  then show ?case
  proof
    assume "l = trade_log H ticker prec inc m ?t q n"
    moreover have "0 < ?t" using go Cons.prems(1) [of m] by simp
    ultimately show ?thesis using q by (intro bexI [of _ m] exI [of _ ?t] exI [of _ q] exI [of _ n]) auto
  next
    assume "l \<in> set (wLogs ?rest)"
    then show ?thesis using Cons.IH [of "inc\<lparr>oAmount := oAmount inc - ?t\<rparr>" "n + 1"] Cons.prems(1)
      by (auto simp: taker)
  qed
qed simp

text \<open>What an execution of \<open>Match\<close> brings: it validates, and it has the market's quote amount and version.\<close>

lemma engine_execution:
  assumes "engine_book book" "order_sound order" "0 < oAmount order" "int64 (oAmount order)"
    "bTicker book \<noteq> []" "nonblank_digest H" "\<not> IsZero (oTimestamp order)"
    "Match H book order = (res, book', order')" "l \<in> set (rLogs res)"
  shows "validateMatchLog l = None" "QuoteAmount (bPrecision book) (mPrice l) (mAmount l) = Inr (mQuoteAmount l)"
    "mMarketConfigVersion l = ConfigVersion (bPrecision book)"
proof -
  note E = engine_bookD [OF assms(1)]
  obtain sd where sd: "opposite (oPosition order) = Some sd" using assms(2) by (cases rule: order_sound_opposite)
  have "l \<in> set (wLogs (abs_match H (bTicker book) (bPrecision book) order 0 (side_view book sd)))"
    using assms(9) Match_result(1) [OF E(1) assms(4) sd assms(8)] by (simp add: walk_result_def)
  moreover have "\<And>x. x \<in> set (side_view book sd) \<Longrightarrow> 0 < oAmount x" using view_amount(1) [OF E(1)] .
  ultimately obtain m t q k where m: "m \<in> set (side_view book sd)" "0 < t"
      "QuoteAmount (bPrecision book) (oPrice m) t = Inr q" "l = trade_log H (bTicker book) (bPrecision book) order m t q k"
    using abs_match_logs [of "side_view book sd" l H "bTicker book" "bPrecision book" order 0] by auto
  have ms: "order_sound m" "oOrderType m = Limit" using E(2) m(1) by (auto simp: resting_sound_def)
  have ne: "x \<noteq> []" if "TrimSpace x \<noteq> []" for x using that by auto
  have "0 \<le> q" using QuoteAmount_nonneg [OF m(3)] .
  moreover have "oOrderID order \<noteq> []" "oUserID order \<noteq> []" "oOrderID m \<noteq> []" "oUserID m \<noteq> []" "0 < oPrice m"
    "validSide (oPosition m)" "validSide (oPosition order)"
    using assms(2) ms ne by (auto simp: order_sound_def validSide_def)
  moreover have "GenerateExecutionID H (bTicker book) (oOrderID order) (oTimestamp order) k \<noteq> []"
    using assms(6) ne by (auto simp: nonblank_digest_def GenerateExecutionID_def)
  ultimately show "validateMatchLog l = None"
    using assms(5,7) m(2) unfolding m(4) validateMatchLog_def by (simp add: trade_log_def)
  show "QuoteAmount (bPrecision book) (mPrice l) (mAmount l) = Inr (mQuoteAmount l)"
    "mMarketConfigVersion l = ConfigVersion (bPrecision book)"
    using m(3) by (simp_all add: m(4) trade_log_def)
qed

text \<open>
  C35. Every execution the engine reports can be stored: matching a sound order on a book in
  order, in a market of the default precision, gives executions that validate, and the store
  keeps each of them as it is.
\<close>

theorem match_logs_storable:
  assumes "engine_book book" "order_sound order" "0 < oAmount order" "int64 (oAmount order)"
    "bPrecision book = DefaultPrecision" "bTicker book \<noteq> []" "nonblank_digest H" "\<not> IsZero (oTimestamp order)"
    "Match H book order = (res, book', order')" "l \<in> set (rLogs res)"
  shows "match_log_params l = Inr l"
proof -
  note X = engine_execution [OF assms(1-4,6-10)]
  have "mMarketConfigVersion l \<noteq> 0" using X(3) assms(5) by (simp add: DefaultPrecision_def DefaultConfigVersion_def)
  then show ?thesis using X(1,2) assms(5) by (simp add: match_log_params_def)
qed

lemma match_logs_storable_witness:
  "map match_log_params (rLogs (fst (Match (\<lambda>s. ''d'') sample_book sample_taker))) =
   map Inr (rLogs (fst (Match (\<lambda>s. ''d'') sample_book sample_taker)))"
proof -
  obtain res book' order' where M: "Match (\<lambda>s. ''d'') sample_book sample_taker = (res, book', order')"
    by (cases "Match (\<lambda>s. ''d'') sample_book sample_taker")
  have t: "order_sound sample_taker" "\<not> IsZero (oTimestamp sample_taker)" by code_simp+
  have a: "0 < oAmount sample_taker" "bTicker sample_book \<noteq> []"
    by (simp_all add: sample_taker_def sample_order_def sample_book_market)
  show ?thesis
    using match_logs_storable [OF sample_engine_book t(1) a(1) sample_taker_ok(1) sample_book_market(2) a(2)
        sample_facts(3) t(2) M]
    by (simp add: M)
qed

text \<open>
  C37. In a market of another precision it does not: when the executions of matching a sound order
  that has a time on a book in order that has a ticker are saved, and the digest is never blank, one
  whose quote amount rounds down to zero at the market's precision, but whose price and amount
  make a whole quote atom at the default precision, has a row with the positive amount of the
  default precision.
\<close>

theorem zero_quote_recomputed:
  assumes "engine_book book" "order_sound order" "0 < oAmount order" "int64 (oAmount order)"
    "bTicker book \<noteq> []" "nonblank_digest H" "\<not> IsZero (oTimestamp order)"
    "Match H book order = (res, book', order')" "l \<in> set (rLogs res)" "mQuoteAmount l = 0"
    "pow10 DefaultPriceScale * pow10 DefaultQuantityScale \<le> mPrice l * mAmount l * pow10 DefaultQuoteScale"
    "SaveMatchLogs (rLogs res) db = (None, db')"
  shows "QuoteAmount (bPrecision book) (mPrice l) (mAmount l) = Inr 0 \<and>
    (\<exists>row \<in> set (dbMatchLogs db'). mExecutionID row = mExecutionID l \<and> mPrice row = mPrice l \<and>
       mAmount row = mAmount l \<and> 0 < mQuoteAmount row \<and>
       QuoteAmount DefaultPrecision (mPrice l) (mAmount l) = Inr (mQuoteAmount row))"
proof -
  note X = engine_execution [OF assms(1-9)]
  obtain ps where ps: "batch_params match_log_params 0 (rLogs res) = Inr ps" "set ps \<subseteq> set (dbMatchLogs db')"
    using ml.save_batch_atomic [OF assms(12) [unfolded SaveMatchLogs_def]] by auto
  have mem: "\<exists>row \<in> set ps. match_log_params x = Inr row"
    if "batch_params match_log_params i xs = Inr ps" "x \<in> set xs" for i xs ps x
    using that by (induction xs arbitrary: i ps) (auto split: sum.splits)
  obtain row where row: "row \<in> set (dbMatchLogs db')" "match_log_params l = Inr row"
    using mem [OF ps(1) assms(9)] ps(2) by blast
  obtain q where q: "QuoteAmount DefaultPrecision (mPrice l) (mAmount l) = Inr q" "mQuoteAmount row = q"
    "mExecutionID row = mExecutionID l" "mPrice row = mPrice l" "mAmount row = mAmount l"
    using row(2) X(1) assms(10) by (auto simp: match_log_params_def split: sum.splits)
  let ?N = "mPrice l * mAmount l * pow10 DefaultQuoteScale" and ?D = "pow10 DefaultPriceScale * pow10 DefaultQuantityScale"
  have D: "0 < ?D" by simp
  then have "0 \<le> ?N" using assms(11) by linarith
  then have "q = ?N div ?D"
    using q(1) D go_quo_nonneg [of ?N ?D] by (auto simp: QuoteAmount_def DefaultPrecision_def Let_def split: if_splits)
  then have "0 < q" using D assms(11) by (simp add: pos_imp_zdiv_pos_iff)
  then show ?thesis using X(2) assms(10) row(1) q by auto
qed

text \<open>A market whose quotes have no decimals.\<close>

definition coarse_precision :: Precision where
  "coarse_precision = DefaultPrecision\<lparr>PriceScale := 18, QuantityScale := 18, QuoteScale := 0, ConfigVersion := 2\<rparr>"

definition coarse_book :: OrderBook where
  "coarse_book = AddOrder (NewOrderBookWithPrecision ''BTC-USD'' coarse_precision)
     (sample_order ''a1'' Ask 10000000000 10000000000)"

definition coarse_taker :: BookOrder where
  "coarse_taker = sample_order ''t1'' Bid 10000000000 10000000000"

definition coarse_log :: MatchLog where
  "coarse_log = trade_log (\<lambda>s. ''d'') ''BTC-USD'' coarse_precision coarse_taker
     (sample_order ''a1'' Ask 10000000000 10000000000) 10000000000 0 0"

lemma coarse_book_facts:
  "engine_book coarse_book" "side_view coarse_book AskSide = [sample_order ''a1'' Ask 10000000000 10000000000]"
  "bTicker coarse_book = ''BTC-USD''" "bPrecision coarse_book = coarse_precision"
proof -
  let ?o = "sample_order ''a1'' Ask 10000000000 10000000000"
  let ?b = "NewOrderBookWithPrecision ''BTC-USD'' coarse_precision"
  have "order_sound ?o" by code_simp
  moreover have "oOrderType ?o = Limit" "0 < oAmount ?o" "int64 (oAmount ?o)"
    "side (oPosition ?o) = Some AskSide" "opposite (oPosition ?o) = Some BidSide" by code_simp+
  moreover have "id_free (side_view ?b) (oOrderID ?o)" by (simp add: id_free_def new_book_view)
  ultimately have A: "engine_book (AddOrder ?b ?o)"
    "side_view (AddOrder ?b ?o) = (side_view ?b)(AskSide := priority_insert AskSide ?o (side_view ?b AskSide))"
    "bTicker (AddOrder ?b ?o) = bTicker ?b" "bPrecision (AddOrder ?b ?o) = bPrecision ?b"
    using add_engine_book [OF new_engine_book, of ?o] by (simp_all add: new_book_view)
  have "WithDefaults coarse_precision = coarse_precision" by code_simp
  then have "bTicker ?b = ''BTC-USD''" "bPrecision ?b = coarse_precision"
    by (simp_all add: NewOrderBookWithPrecision_def heap_Init_def Let_def)
  then show "engine_book coarse_book" "side_view coarse_book AskSide = [?o]"
    "bTicker coarse_book = ''BTC-USD''" "bPrecision coarse_book = coarse_precision"
    unfolding coarse_book_def using A by (simp_all add: new_book_view priority_insert_def)
qed

lemma zero_quote_recomputed_witness:
  "ValidatePrecision coarse_precision = None \<and> QuoteAmount coarse_precision 10000000000 10000000000 = Inr 0 \<and>
   rLogs (fst (Match (\<lambda>s. ''d'') coarse_book coarse_taker)) = [coarse_log] \<and>
   (\<exists>row \<in> set (dbMatchLogs (snd (SaveMatchLogs [coarse_log] calm_db))).
      mExecutionID row = mExecutionID coarse_log \<and> 0 < mQuoteAmount row)"
proof -
  obtain res book' order' where M: "Match (\<lambda>s. ''d'') coarse_book coarse_taker = (res, book', order')"
    by (cases "Match (\<lambda>s. ''d'') coarse_book coarse_taker")
  obtain r db' where S: "SaveMatchLogs [coarse_log] calm_db = (r, db')" by (cases "SaveMatchLogs [coarse_log] calm_db")
  have p: "ValidatePrecision coarse_precision = None" "QuoteAmount coarse_precision 10000000000 10000000000 = Inr 0"
    by code_simp+
  have t: "order_sound coarse_taker" "0 < oAmount coarse_taker" "int64 (oAmount coarse_taker)"
    "\<not> IsZero (oTimestamp coarse_taker)" "opposite (oPosition coarse_taker) = Some AskSide" by code_simp+
  have l: "mQuoteAmount coarse_log = 0" "fst (SaveMatchLogs [coarse_log] calm_db) = None"
    "pow10 DefaultPriceScale * pow10 DefaultQuantityScale \<le> mPrice coarse_log * mAmount coarse_log * pow10 DefaultQuoteScale"
    by code_simp+
  have logs: "rLogs res = [coarse_log]"
    using Match_result(1) [OF engine_bookD(1) [OF coarse_book_facts(1)] t(3,5) M] p(2)
    by (simp add: walk_result_def coarse_book_facts coarse_log_def coarse_taker_def sample_order_def
        canMatchAtPrice_def Let_def)
  have "r = None" using l(2) S by simp
  with zero_quote_recomputed [OF coarse_book_facts(1) t(1-3) _ sample_facts(3) t(4) M _ l(1,3), of calm_db db'] logs S
  have "\<exists>row \<in> set (dbMatchLogs db'). mExecutionID row = mExecutionID coarse_log \<and> 0 < mQuoteAmount row"
    by (auto simp: coarse_book_facts)
  then show ?thesis using p logs M S by simp
qed

section \<open>Order events\<close>

text \<open>
  The events of a command are saved as a whole or not at all, with the promises of the
  executions' store: unique identities, the other tables untouched, and an event saved under
  its identity whenever the save returns no error.
\<close>

theorem save_events_atomic:
  assumes "distinct (map vEventID (dbEvents db))" "SaveEvents H events db = (r, db')"
  shows "distinct (map vEventID (dbEvents db')) \<and> untouched db db' \<and>
    (r = None \<or> dbEvents db' \<noteq> dbEvents db \<longrightarrow>
       (\<exists>ps. batch_params (eventParams H) 0 events = Inr ps \<and> set ps \<subseteq> set (dbEvents db')))"
  using oe.save_batch_atomic [OF assms(2) [unfolded SaveEvents_def]] assms(1)
  by (auto simp: oe.identified_def)

lemma save_events_atomic_witness:
  "distinct (map vEventID (dbEvents (snd (SaveEvents (\<lambda>s. s) [blank_event] calm_db))))"
  using save_events_atomic [of calm_db "\<lambda>s. s" "[blank_event]"]
  by (cases "SaveEvents (\<lambda>s. s) [blank_event] calm_db") (simp add: calm_db_def)

end
