(* ===== verification/JournalProperties.thy ===== *)
theory JournalProperties
  imports StoreProperties WorkerProperties JournalStore
begin

text \<open>
  The properties of the journal's store: an append extends the log by one entry or answers from
  it, a retry is answered with the original entry, another payload under a journalled identity
  is refused, and a journal that is read back is replayable.
\<close>

lemma calm_journal: "journal_log [] calm_db"
  by (simp add: journal_log_def calm_db_def honest_def sequenced_def)

lemma sample_wire: "wire_command sample_cancel"
  by code_simp

text \<open>
  C31. An append keeps the journal: it adds one entry, the command with the next sequence of its
  ticker, or it answers with an entry that was there, or it fails, having added the entry or
  nothing. Identities stay unique and the sequences of every ticker increase.
\<close>

theorem append_extends_log:
  assumes "journal_log L db" "wire_command c" "Append c db = (r, db')"
  shows "case r of
      Inr a \<Rightarrow> (if apInserted a then journal_entry c (apCommand a) \<and> journal_log (L @ [apCommand a]) db'
        else apCommand a \<in> set L \<and> SamePayload (default_version c) (apCommand a) \<and> journal_log L db')
    | Inl err \<Rightarrow> journal_log L db' \<or> (\<exists>e. journal_entry c e \<and> journal_log (L @ [e]) db')"
proof (cases r)
  case (Inl err)
  then show ?thesis using pg.append_failed [OF assms(1,2)] assms(3) by simp
next
  case (Inr a)
  then show ?thesis
    using pg.append_inserted [OF assms(1,2), of a db'] pg.append_existing [OF assms(1,2), of a db'] assms(3) by simp
qed

lemma sample_append:
  "case Append sample_cancel calm_db of
     (Inr a, db') \<Rightarrow> apInserted a \<and> jSequence (apCommand a) = 1 \<and> jCommandID (apCommand a) = ''k1''
   | _ \<Rightarrow> False"
  by code_simp

lemma append_extends_log_witness:
  "\<exists>a db'. Append sample_cancel calm_db = (Inr a, db') \<and> jSequence (apCommand a) = 1 \<and>
    journal_log [apCommand a] db'"
proof -
  obtain a db' where A: "Append sample_cancel calm_db = (Inr a, db')" "apInserted a" "jSequence (apCommand a) = 1"
    using sample_append by (auto split: prod.splits sum.splits)
  from append_extends_log [OF calm_journal sample_wire A(1)] A show ?thesis by simp
qed

text \<open>An entry added to the log has a new identity.\<close>

lemma new_identity:
  assumes "journal_entry c d" "journal_log (L @ [d]) db" "e \<in> set L" "jCommandID e = jCommandID c"
  shows False
proof -
  have "jCommandID d \<notin> jCommandID ` set L" using journal_logD(5) [OF assms(2)] by simp
  then show False using journal_entry_fields(2) [OF assms(1)] assms(3,4) by (metis image_eqI)
qed

text \<open>
  C32. A retry is idempotent: once a command is in the journal, appending it again, whatever has
  been appended in between, never inserts, and an answer is the original entry with its
  sequence and its time.
\<close>

theorem append_retry:
  assumes "journal_log L db" "wire_command c" "e \<in> set L" "jCommandID e = jCommandID c"
    "Append c db = (Inr a, db')"
  shows "apCommand a = e \<and> \<not> apInserted a \<and> journal_log L db'"
proof (cases "apInserted a")
  case True
  then have "journal_entry c (apCommand a)" "journal_log (L @ [apCommand a]) db'"
    using pg.append_inserted [OF assms(1,2,5)] by simp_all
  then show ?thesis using new_identity assms(3,4) by metis
next
  case False
  note E = pg.append_existing [OF assms(1,2,5) False]
  have "jCommandID (apCommand a) = jCommandID e"
    using E assms(4) by (simp add: SamePayload_def default_version_def split: if_splits)
  then show ?thesis
    using E False assms(3) journal_logD(5) [OF assms(1)] by (auto simp: distinct_map dest: inj_onD)
qed

lemma append_retry_witness:
  "case Append sample_cancel calm_db of
     (Inr a, db') \<Rightarrow>
       (case Append sample_cancel db' of (Inr b, _) \<Rightarrow> apCommand b = apCommand a \<and> \<not> apInserted b | _ \<Rightarrow> False)
   | _ \<Rightarrow> False"
proof -
  obtain a db' where A: "Append sample_cancel calm_db = (Inr a, db')" "apInserted a"
    "jCommandID (apCommand a) = ''k1''"
    using sample_append by (auto split: prod.splits sum.splits)
  have L: "journal_log [apCommand a] db'" using pg.append_inserted [OF calm_journal sample_wire A(1,2)] by simp
  have "case Append sample_cancel (snd (Append sample_cancel calm_db)) of (Inr b, _) \<Rightarrow> True | _ \<Rightarrow> False"
    by code_simp
  then obtain b db2 where B: "Append sample_cancel db' = (Inr b, db2)"
    using A by (auto split: prod.splits sum.splits)
  have "jCommandID (apCommand a) = jCommandID sample_cancel" using A(3) by (simp add: sample_cancel_def)
  from append_retry [OF L sample_wire _ this B] show ?thesis using A(1) B by simp
qed

text \<open>
  C33. A command identity names one command: appending another payload under a journalled
  identity never succeeds, and the journal stays as it is.
\<close>

theorem append_conflict:
  assumes "journal_log L db" "wire_command c" "e \<in> set L" "jCommandID e = jCommandID c"
    "\<not> SamePayload (default_version c) e" "Append c db = (r, db')"
  shows "isl r \<and> journal_log L db'"
proof -
  note new = new_identity [OF _ _ assms(3,4)]
  show ?thesis
  proof (cases r)
    case (Inl err)
    then show ?thesis using pg.append_failed [OF assms(1,2)] assms(6) new by auto
  next
    case (Inr a)
    note A = assms(6) [unfolded Inr]
    have old: "\<not> apInserted a" using pg.append_inserted [OF assms(1,2) A] new by metis
    note E = pg.append_existing [OF assms(1,2) A old]
    have "jCommandID (apCommand a) = jCommandID e"
      using E assms(4) by (simp add: SamePayload_def default_version_def split: if_splits)
    then have "apCommand a = e"
      using E assms(3) journal_logD(5) [OF assms(1)] by (auto simp: distinct_map dest: inj_onD)
    then show ?thesis using E assms(5) by simp
  qed
qed

definition other_cancel :: Command where
  "other_cancel = sample_cancel\<lparr>jCancel := Some \<lparr>xCommandID = ''k1'', xTicker = ''BTC-USD'', xOrderID = ''a2''\<rparr>\<rparr>"

lemma append_conflict_witness:
  "isl (fst (Append other_cancel (snd (Append sample_cancel calm_db))))"
proof -
  obtain a db' where A: "Append sample_cancel calm_db = (Inr a, db')" "apInserted a"
    "jCommandID (apCommand a) = ''k1''"
    using sample_append by (auto split: prod.splits sum.splits)
  note J = pg.append_inserted [OF calm_journal sample_wire A(1,2)]
  obtain r db2 where B: "Append other_cancel db' = (r, db2)" by (cases "Append other_cancel db'")
  have w: "wire_command other_cancel" by code_simp
  have i: "jCommandID (apCommand a) = jCommandID other_cancel" using A(3) by (simp add: other_cancel_def sample_cancel_def)
  have "jCancel (apCommand a) = jCancel sample_cancel" using J journal_entry_fields(3) by blast
  then have "\<not> SamePayload (default_version other_cancel) (apCommand a)"
    by (simp add: SamePayload_def default_version_def other_cancel_def sample_cancel_def)
  from append_conflict [OF _ w _ i this B, of "[apCommand a]"] show ?thesis using J A(1) B by simp
qed

end
