(* ===== verification/Server.thy ===== *)
theory Server
  imports Router MarketStore
begin

text \<open>
  The engine's runtime of \<^verbatim>\<open>cmd/server/main.go\<close>: the router with the stores it was started on.
  \<open>startEngine\<close> restores every ticker from its journal before it serves; \<open>AddTicker\<close> does so for
  one ticker while it serves. The writers, the HTTP server and the signals of \<open>serve\<close> are not
  part of the model: a worker's persistence is an operation of the world.
\<close>

record 'w stores =
  soMatch :: "(MatchLog list \<Rightarrow> 'w \<Rightarrow> error option \<times> 'w) option"
  soAppend :: "(Command \<Rightarrow> 'w \<Rightarrow> (error + AppendResult) \<times> 'w) option"
  soCommands :: "'w \<Rightarrow> (error + Command list) \<times> 'w"
  soMarket :: "(string \<Rightarrow> 'w \<Rightarrow> (error + MarketStore.AddResult) \<times> 'w) option"
  soMarkets :: "'w \<Rightarrow> (error + Market list) \<times> 'w"
  soEvents :: "(OrderEvent list \<Rightarrow> 'w \<Rightarrow> error option \<times> 'w) option"

definition worker_world :: "'w stores \<Rightarrow> 'w worker_io" where
  "worker_world st = \<lparr>ioAppend = soAppend st, ioSaveLogs = soMatch st, ioSaveEvents = soEvents st\<rparr>"

text \<open>
  The worker replays with an engine state of its own and shares the router's once it is
  registered. A failed replay leaves what it wrote, and no worker.
\<close>

definition registerTicker ::
  "digest \<Rightarrow> 'w stores \<Rightarrow> Market \<Rightarrow> Command list \<Rightarrow> 'w Router \<Rightarrow> error option \<times> 'w Router" where
  "registerTicker H st q commands g =
     (if qTicker q = [] then (Some (PlainError ''market ticker is required''), g)
      else
        let w = NewBookWorkerWithOptions (qTicker q) None (qPrecision q)
        in case Replay H (worker_world st) commands
               \<lparr>yWorker = w, yState = NewEngineState, yWorld = gWorld g\<rparr> of
             (Some err, y) \<Rightarrow> (Some (Wrapped ''replay order journal'' err), g\<lparr>gWorld := yWorld y\<rparr>)
           | (None, y) \<Rightarrow> Register (qTicker q) (Some (yWorker y)) (g\<lparr>gWorld := yWorld y\<rparr>))"

definition commands_of :: "string \<Rightarrow> Command list \<Rightarrow> Command list" where
  "commands_of ticker commands = filter (\<lambda>c. jTicker c = ticker) commands"

text \<open>The markets of the commands' tickers, those that are not listed added to the store.\<close>

fun add_journal_tickers ::
  "(string \<Rightarrow> 'w \<Rightarrow> (error + MarketStore.AddResult) \<times> 'w) \<Rightarrow> Command list \<Rightarrow> (string \<times> Market) list \<Rightarrow>
   'w \<Rightarrow> (error + (string \<times> Market) list) \<times> 'w" where
  "add_journal_tickers add [] known world = (Inr known, world)"
| "add_journal_tickers add (c # cs) known world =
     (if map_of known (jTicker c) \<noteq> None then add_journal_tickers add cs known world
      else case add (jTicker c) world of
             (Inl err, world) \<Rightarrow> (Inl (Wrapped ''persist journal ticker'' err), world)
           | (Inr added, world) \<Rightarrow>
               add_journal_tickers add cs (known @ [(jTicker c, adMarket added)]) world)"

fun restore_tickers ::
  "digest \<Rightarrow> 'w stores \<Rightarrow> Command list \<Rightarrow> (string \<times> Market) list \<Rightarrow> 'w Router \<Rightarrow>
   error option \<times> 'w Router" where
  "restore_tickers H st commands [] g = (None, g)"
| "restore_tickers H st commands ((ticker, q) # rest) g =
     (case registerTicker H st q (commands_of ticker commands) g of
        (Some err, g) \<Rightarrow> (Some (Wrapped ''restore ticker'' err), g)
      | (None, g) \<Rightarrow> restore_tickers H st commands rest g)"

text \<open>
  \<open>startEngine\<close>: the result is the runtime's router, or the error and the world as it was left.
  A market listed twice keeps its last row, as the map does; the tickers are in byte order.
\<close>

definition startEngine :: "digest \<Rightarrow> 'w stores \<Rightarrow> 'w \<Rightarrow> (error \<times> 'w) + 'w Router" where
  "startEngine H st world =
     (case (soMatch st, soAppend st, soMarket st, soEvents st) of
        (None, _, _, _) \<Rightarrow> Inl (ErrMatchStoreUnavailable, world)
      | (_, None, _, _) \<Rightarrow> Inl (ErrJournalUnavailable, world)
      | (_, _, None, _) \<Rightarrow> Inl (ErrMarketUnavailable, world)
      | (_, _, _, None) \<Rightarrow> Inl (ErrEventStoreUnavailable, world)
      | (Some _, Some _, Some add, Some _) \<Rightarrow>
          (case soMarkets st world of
             (Inl err, world) \<Rightarrow> Inl (Wrapped ''load markets'' err, world)
           | (Inr markets, world) \<Rightarrow>
               (case soCommands st world of
                  (Inl err, world) \<Rightarrow> Inl (Wrapped ''load order journal'' err, world)
                | (Inr commands, world) \<Rightarrow>
                    (case add_journal_tickers add commands
                            (AList.clearjunk (rev (map (\<lambda>q. (qTicker q, q)) markets))) world of
                       (Inl err, world) \<Rightarrow> Inl (err, world)
                     | (Inr known, world) \<Rightarrow>
                         (case restore_tickers H st commands (sort_key fst known) (NewRouter world) of
                            (Some err, g) \<Rightarrow> Inl (err, gWorld g)
                          | (None, g) \<Rightarrow> Inr g)))))"

text \<open>\<open>AddTicker\<close>; the lifecycle lock makes it one step.\<close>

definition AddTicker ::
  "digest \<Rightarrow> 'w stores \<Rightarrow> string \<Rightarrow> 'w Router \<Rightarrow> error option \<times> 'w Router" where
  "AddTicker H st ticker g =
     (let ticker = TrimSpace ticker in
      if ticker = [] then (Some ErrEmptyTicker, g)
      else case Ready g of
             Some err \<Rightarrow> (Some err, g)
           | None \<Rightarrow>
               if HasTicker g ticker then (Some (ErrTickerExists ticker), g)
               else case soMarket st of
                      None \<Rightarrow> (Some ErrMarketUnavailable, g)
                    | Some add \<Rightarrow>
                        (case add ticker (gWorld g) of
                           (Inl err, world) \<Rightarrow> (Some (Wrapped ''persist ticker'' err), g\<lparr>gWorld := world\<rparr>)
                         | (Inr added, world) \<Rightarrow>
                             (case soCommands st world of
                                (Inl err, world) \<Rightarrow>
                                  (Some (Wrapped ''load order journal for ticker'' err), g\<lparr>gWorld := world\<rparr>)
                              | (Inr commands, world) \<Rightarrow>
                                  (case registerTicker H st (adMarket added) (commands_of ticker commands)
                                          (g\<lparr>gWorld := world\<rparr>) of
                                     (Some err, g) \<Rightarrow> (Some (Wrapped ''restore ticker'' err), g)
                                   | (None, g) \<Rightarrow> (None, g)))))"

text \<open>
  \<open>shutdown\<close> closes the router, then the writers' channels, and waits for the writers. A context
  that ended before a worker or a writer did gives its error; the result is the joined errors.
\<close>

definition waitForWriter :: "error option \<Rightarrow> error option" where
  "waitForWriter ctxErr =
     (case ctxErr of None \<Rightarrow> None | Some err \<Rightarrow> Some (Wrapped ''shutdown writer'' err))"

definition runtime_shutdown ::
  "error option \<Rightarrow> error option \<Rightarrow> error option \<Rightarrow> 'w Router \<Rightarrow> error list \<times> 'w Router" where
  "runtime_shutdown routerCtx matchCtx eventCtx g =
     (case Shutdown routerCtx g of
        (Some err, g) \<Rightarrow> ([err], g)
      | (None, g) \<Rightarrow>
          (List.map_filter id [waitForWriter matchCtx, waitForWriter eventCtx], g))"

definition requiredDatabaseURL :: "string \<Rightarrow> error + string" where
  "requiredDatabaseURL value =
     (let url = TrimSpace value in
      if url = [] then Inl (PlainError ''MATCHING_ENGINE_DATABASE_URL is required'') else Inr url)"

end
