(* ===== verification/Interleaving.thy ===== *)
theory Interleaving
  imports Recovery Server
begin

text \<open>
  Workers run at the same time: while one persists what its command did, another appends or
  matches, and tickers are added meanwhile. Here a worker's iteration of \<open>Run\<close> is three steps, one
  for each time it reaches the stores (\<open>journal_event\<close>, \<open>apply_journalled\<close>, \<open>persist_applied\<close>), and
  the steps of the workers and of the runtime follow each other in any order (\<open>engine_step\<close>).
  \<open>handle_event\<close> is the three in sequence, so a request that the router handles undisturbed is
  one of the schedules (\<open>request_is_schedule\<close>).
\<close>

section \<open>The steps of an iteration\<close>

text \<open>What a worker has left to do: nothing, apply a journalled command, or persist its events.\<close>

datatype phase = Idle | Journalled Command | Applied "OrderEvent list"

text \<open>An answer ends the iteration.\<close>

definition answer :: "reply \<times> 's sys \<Rightarrow> reply option \<times> phase \<times> 's sys" where
  "answer a = (case a of (r, y) \<Rightarrow> (Some r, Idle, y))"

definition journal_event ::
  "'s worker_io \<Rightarrow> EngineEvent \<Rightarrow> 's sys \<Rightarrow> reply option \<times> phase \<times> 's sys" where
  "journal_event io ev y =
     (if isCommandEvent (evType ev) \<and> EngineState_Err (yState y) \<noteq> None then
        answer (Ack (EngineState_Err (yState y)), y)
      else if evTicker ev \<noteq> [] \<and> evTicker ev \<noteq> wTicker (yWorker y) then
        answer (Ack (Some (PlainError ''mismatched ticker'')), y)
      else if evType ev = snapshotOrderBook then
        answer (SnapshotReply (Snapshot (wOrderBook (yWorker y)) (evSnapshotDepth ev)), y)
      else
        (case commandFromEvent (yWorker y) ev of
           None \<Rightarrow> answer (Ack None, y)
         | Some command \<Rightarrow>
             (case ioAppend io of
                None \<Rightarrow> answer (halt_ack ErrJournalUnavailable y)
              | Some doAppend \<Rightarrow>
                  (case doAppend command (yWorld y) of
                     (Inl err, world) \<Rightarrow> answer (halt_ack err (y\<lparr>yWorld := world\<rparr>))
                   | (Inr appended, world) \<Rightarrow>
                       if \<not> apInserted appended then answer (Ack None, y\<lparr>yWorld := world\<rparr>)
                       else (None, Journalled (apCommand appended), y\<lparr>yWorld := world\<rparr>)))))"

definition apply_journalled ::
  "digest \<Rightarrow> 's worker_io \<Rightarrow> Command \<Rightarrow> 's sys \<Rightarrow> reply option \<times> phase \<times> 's sys" where
  "apply_journalled H io command y =
     (case applyCommand H io (yWorker y) command (yWorld y) of
        (r, book, world) \<Rightarrow>
          let y = y\<lparr>yWorker := (yWorker y)\<lparr>wOrderBook := book\<rparr>, yWorld := world\<rparr>
          in case r of Inl err \<Rightarrow> answer (halt_ack err y) | Inr events \<Rightarrow> (None, Applied events, y))"

definition persist_applied ::
  "'s worker_io \<Rightarrow> OrderEvent list \<Rightarrow> 's sys \<Rightarrow> reply option \<times> phase \<times> 's sys" where
  "persist_applied io events y =
     (case persistOrderEvents io events (yWorld y) of
        (err, world) \<Rightarrow>
          let y = y\<lparr>yWorld := world\<rparr>
          in answer (case err of Some err \<Rightarrow> halt_ack err y | None \<Rightarrow> (Ack None, y)))"

definition continue_phase ::
  "digest \<Rightarrow> 's worker_io \<Rightarrow> phase \<Rightarrow> 's sys \<Rightarrow> reply option \<times> phase \<times> 's sys" where
  "continue_phase H io p y =
     (case p of
        Idle \<Rightarrow> (None, Idle, y)
      | Journalled command \<Rightarrow> apply_journalled H io command y
      | Applied events \<Rightarrow> persist_applied io events y)"

text \<open>An iteration is its three steps in sequence.\<close>

lemma handle_event_steps:
  "handle_event H io ev y =
     (case journal_event io ev y of
        (Some r, _, y) \<Rightarrow> (r, y)
      | (None, p, y) \<Rightarrow>
          (case continue_phase H io p y of
             (Some r, _, y) \<Rightarrow> (r, y)
           | (None, p, y) \<Rightarrow> (case continue_phase H io p y of (r, _, y) \<Rightarrow> (the r, y))))"
proof -
  have step: "(case apply_and_persist H io (yWorker y) c s of (err, w, s) \<Rightarrow>
        let y = y\<lparr>yWorker := w, yWorld := s\<rparr> in case err of None \<Rightarrow> (Ack None, y) | Some err \<Rightarrow> halt_ack err y) =
      (case apply_journalled H io c (y\<lparr>yWorld := s\<rparr>) of
        (Some r, _, y) \<Rightarrow> (r, y)
      | (None, p, y) \<Rightarrow> (case continue_phase H io p y of (r, _, y) \<Rightarrow> (the r, y)))" for c s
  proof -
    obtain r book s1 where A: "applyCommand H io (yWorker y) c s = (r, book, s1)"
      by (cases "applyCommand H io (yWorker y) c s")
    show ?thesis
    proof (cases r)
      case (Inl err)
      then show ?thesis
        using A by (simp add: apply_and_persist_def apply_journalled_def answer_def Let_def split: prod.split)
    next
      case (Inr events)
      obtain e s2 where P: "persistOrderEvents io events s1 = (e, s2)" by (cases "persistOrderEvents io events s1")
      then show ?thesis
        using A Inr by (cases e) (simp_all add: apply_and_persist_def apply_journalled_def continue_phase_def
            persist_applied_def answer_def Let_def split: prod.split)
    qed
  qed
  show ?thesis
    unfolding handle_event_def journal_event_def
    by (auto simp: answer_def step continue_phase_def split: option.split prod.split sum.split)
qed

section \<open>Schedules\<close>

text \<open>An engine at work: the router, and what each worker is in the middle of.\<close>

record 's engine =
  nRouter :: "'s Router"
  nPhase :: "string \<Rightarrow> phase"

definition at_rest :: "'s Router \<Rightarrow> 's engine" where
  "at_rest g = \<lparr>nRouter = g, nPhase = (\<lambda>_. Idle)\<rparr>"

definition worker_sys :: "BookWorker \<Rightarrow> 's Router \<Rightarrow> 's sys" where
  "worker_sys w g = \<lparr>yWorker = w, yState = gState g, yWorld = gWorld g\<rparr>"

definition put_back :: "string \<Rightarrow> 's sys \<Rightarrow> 's Router \<Rightarrow> 's Router" where
  "put_back t y g = g\<lparr>gWorkers := (gWorkers g)(t := Some (yWorker y)), gState := yState y, gWorld := yWorld y\<rparr>"

definition put_worker :: "string \<Rightarrow> reply option \<times> phase \<times> 's sys \<Rightarrow> 's engine \<Rightarrow> 's engine" where
  "put_worker t a n =
     (case a of (_, p, y) \<Rightarrow> n\<lparr>nRouter := put_back t y (nRouter n), nPhase := (nPhase n)(t := p)\<rparr>)"

text \<open>
  An idle worker takes an event, a worker in an iteration goes on with it, a ticker is added, or
  the engine is asked to shut down.
\<close>

inductive engine_step :: "digest \<Rightarrow> 's stores \<Rightarrow> 's engine \<Rightarrow> 's engine \<Rightarrow> bool" for H st where
  take_event: "gWorkers (nRouter n) t = Some w \<Longrightarrow> nPhase n t = Idle \<Longrightarrow> wire_event ev \<Longrightarrow>
    engine_step H st n (put_worker t (journal_event (worker_world st) ev (worker_sys w (nRouter n))) n)"
| go_on: "gWorkers (nRouter n) t = Some w \<Longrightarrow> nPhase n t \<noteq> Idle \<Longrightarrow>
    engine_step H st n
      (put_worker t (continue_phase H (worker_world st) (nPhase n t) (worker_sys w (nRouter n))) n)"
| add_ticker: "AddTicker H st t (nRouter n) = (r, g) \<Longrightarrow> engine_step H st n (n\<lparr>nRouter := g\<rparr>)"
| shut_down: "runtime_shutdown routerCtx matchCtx eventCtx (nRouter n) = (errs, g) \<Longrightarrow>
    engine_step H st n (n\<lparr>nRouter := g\<rparr>)"

lemma put_worker_simps [simp]:
  "gWorkers (nRouter (put_worker t (r, p, y) n)) = (gWorkers (nRouter n))(t := Some (yWorker y))"
  "gState (nRouter (put_worker t (r, p, y) n)) = yState y" "gWorld (nRouter (put_worker t (r, p, y) n)) = yWorld y"
  "nPhase (put_worker t (r, p, y) n) = (nPhase n)(t := p)"
  by (simp_all add: put_worker_def put_back_def)

lemma worker_sys_simps [simp]:
  "yWorker (worker_sys w g) = w" "yState (worker_sys w g) = gState g" "yWorld (worker_sys w g) = gWorld g"
  by (simp_all add: worker_sys_def)

lemma at_rest_simps [simp]: "nRouter (at_rest g) = g" "nPhase (at_rest g) t = Idle"
  by (simp_all add: at_rest_def)

text \<open>An iteration ends idle, and is answered when it ends.\<close>

lemma journal_event_ends:
  "journal_event io ev y = (r, p, y') \<Longrightarrow> case r of Some _ \<Rightarrow> p = Idle | None \<Rightarrow> \<exists>c. p = Journalled c"
  by (auto simp: journal_event_def answer_def split: if_splits option.splits prod.splits sum.splits)

lemma apply_journalled_ends:
  "apply_journalled H io c y = (r, p, y') \<Longrightarrow> case r of Some _ \<Rightarrow> p = Idle | None \<Rightarrow> \<exists>events. p = Applied events"
  by (auto simp: apply_journalled_def answer_def Let_def split: prod.splits sum.splits)

lemma persist_applied_ends: "persist_applied io events y = (r, p, y') \<Longrightarrow> p = Idle \<and> r \<noteq> None"
  by (auto simp: persist_applied_def answer_def Let_def split: prod.splits)

text \<open>A request handled undisturbed is a schedule.\<close>

lemma put_back_simps [simp]:
  "worker_sys (yWorker y) (put_back t y g) = y" "put_back t y' (put_back t y g) = put_back t y' g"
  "gWorkers (put_back t y g) t = Some (yWorker y)"
  by (simp_all add: worker_sys_def put_back_def)

lemma put_worker_phase:
  "put_worker t (r, p, y) \<lparr>nRouter = g, nPhase = ph(t := q)\<rparr> = \<lparr>nRouter = put_back t y g, nPhase = ph(t := p)\<rparr>"
  by (simp add: put_worker_def)

lemma go_on_phase:
  assumes "continue_phase H (worker_world st) p y = (r, p', y')" "p \<noteq> Idle"
  shows "engine_step H st \<lparr>nRouter = put_back t y g, nPhase = ph(t := p)\<rparr>
    \<lparr>nRouter = put_back t y' g, nPhase = ph(t := p')\<rparr>"
  using go_on [of "\<lparr>nRouter = put_back t y g, nPhase = ph(t := p)\<rparr>" t "yWorker y" H st] assms
  by (simp add: put_worker_phase)

lemma request_is_schedule:
  assumes R: "OrderRouter H (worker_world st) ev (nRouter n) = (q, g')" and ev: "wire_event ev"
    and idle: "nPhase n (evTicker ev) = Idle"
  shows "(engine_step H st)\<^sup>*\<^sup>* n (n\<lparr>nRouter := g'\<rparr>)"
proof (cases "g' = nRouter n")
  case False
  let ?io = "worker_world st" and ?t = "evTicker ev" and ?g = "nRouter n"
  obtain w where w: "gWorkers ?g ?t = Some w" "g' = snd (worker_step H ?io ?t w ev ?g)"
    by (rule OrderRouter_changes [OF R False])
  let ?n = "\<lambda>p y. \<lparr>nRouter = put_back ?t y ?g, nPhase = (nPhase n)(?t := p)\<rparr>"
  have rest: "n\<lparr>nRouter := put_back ?t y ?g\<rparr> = ?n Idle y" for y by (cases n) (simp add: idle [symmetric])
  obtain r p y where J: "journal_event ?io ev (worker_sys w ?g) = (r, p, y)"
    by (cases "journal_event ?io ev (worker_sys w ?g)")
  have g': "g' = put_back ?t (snd (handle_event H ?io ev (worker_sys w ?g))) ?g"
    unfolding w(2) by (simp add: worker_step_def put_back_def worker_sys_def split: prod.split)
  have "engine_step H st n (put_worker ?t (r, p, y) n)"
    using take_event [of n ?t w ev H st] w(1) ev J idle by simp
  moreover have "put_worker ?t (r, p, y) n = ?n p y" by (cases n) (simp add: put_worker_def)
  ultimately have 1: "engine_step H st n (?n p y)" by simp
  note S = handle_event_steps [of H ?io ev "worker_sys w ?g", unfolded J prod.case]
  show ?thesis
  proof (cases r)
    case (Some x)
    then have "p = Idle" "g' = put_back ?t y ?g" using journal_event_ends [OF J] g' S by auto
    then show ?thesis using 1 rest by auto
  next
    case None
    then obtain c where c: "p = Journalled c" using journal_event_ends [OF J] by auto
    obtain r1 p1 y1 where A: "continue_phase H ?io p y = (r1, p1, y1)" by (cases "continue_phase H ?io p y")
    have 2: "engine_step H st (?n p y) (?n p1 y1)" by (rule go_on_phase [OF A]) (simp add: c)
    have ends: "case r1 of Some _ \<Rightarrow> p1 = Idle | None \<Rightarrow> \<exists>events. p1 = Applied events"
      using apply_journalled_ends A by (simp add: continue_phase_def c)
    show ?thesis
    proof (cases r1)
      case (Some x)
      then have "p1 = Idle" "g' = put_back ?t y1 ?g" using ends g' S \<open>r = None\<close> A by simp_all
      then show ?thesis using 1 2 rest by (metis converse_rtranclp_into_rtranclp rtranclp.rtrancl_refl)
    next
      case no: None
      then obtain events where e: "p1 = Applied events" using ends by auto
      obtain r2 p2 y2 where B: "continue_phase H ?io p1 y1 = (r2, p2, y2)" by (cases "continue_phase H ?io p1 y1")
      have 3: "engine_step H st (?n p1 y1) (?n p2 y2)" by (rule go_on_phase [OF B]) (simp add: e)
      have "p2 = Idle" using B by (auto simp: continue_phase_def e dest: persist_applied_ends)
      moreover have "g' = put_back ?t y2 ?g" using g' S \<open>r = None\<close> A no B by simp
      ultimately show ?thesis using 1 2 3 rest by (metis converse_rtranclp_into_rtranclp rtranclp.rtrancl_refl)
    qed
  qed
qed simp

section \<open>A halted engine\<close>

text \<open>
  Once the engine is halted, workers that are in an iteration finish it, nothing else happens to
  the stores, and the first cause stays.
\<close>

lemma journal_event_halted:
  assumes "esCause (yState y) = Some cause" "journal_event io ev y = (r, p, y')"
  shows "y' = y"
proof (cases "isCommandEvent (evType ev)")
  case False
  then have "commandFromEvent (yWorker y) ev = None"
    by (cases "evType ev") (simp_all add: isCommandEvent_def commandFromEvent_def)
  then show ?thesis using assms by (auto simp: journal_event_def answer_def split: if_splits)
qed (use assms in \<open>simp add: journal_event_def answer_def EngineState_Err_cause\<close>)

lemma continue_phase_halted:
  assumes "keeps P io" "P (yWorld y)" "esCause (yState y) = Some cause" "continue_phase H io p y = (r, p', y')"
  shows "P (yWorld y') \<and> esCause (yState y') = Some cause"
proof (cases p)
  case (Journalled c)
  obtain a book s where A: "applyCommand H io (yWorker y) c (yWorld y) = (a, book, s)"
    by (cases "applyCommand H io (yWorker y) c (yWorld y)")
  show ?thesis
    using assms(3,4) A command_keep [OF assms(1,2) A]
    by (cases a) (auto simp: continue_phase_def Journalled apply_journalled_def Let_def answer_def halt_ack_def Halt_keeps)
next
  case (Applied events)
  obtain e s where A: "persistOrderEvents io events (yWorld y) = (e, s)"
    by (cases "persistOrderEvents io events (yWorld y)")
  show ?thesis
    using assms(3,4) A keepsD(2) [OF assms(1,2) A]
    by (cases e) (auto simp: continue_phase_def Applied persist_applied_def answer_def halt_ack_def Let_def Halt_keeps)
qed (use assms in \<open>simp add: continue_phase_def\<close>)

lemma step_halted:
  assumes keeps: "keeps P (worker_world st)" and P: "P (gWorld (nRouter n))"
    and halted: "esCause (gState (nRouter n)) = Some cause" and step: "engine_step H st n n'"
  shows "P (gWorld (nRouter n')) \<and> esCause (gState (nRouter n')) = Some cause"
  using step
proof cases
  case (take_event t w ev)
  obtain r p y where E: "journal_event (worker_world st) ev (worker_sys w (nRouter n)) = (r, p, y)"
    by (cases "journal_event (worker_world st) ev (worker_sys w (nRouter n))")
  have "y = worker_sys w (nRouter n)" by (rule journal_event_halted [OF _ E]) (simp add: halted)
  then show ?thesis using take_event(1) E P halted by simp
next
  case (go_on t w)
  obtain r p y where E: "continue_phase H (worker_world st) (nPhase n t) (worker_sys w (nRouter n)) = (r, p, y)"
    by (cases "continue_phase H (worker_world st) (nPhase n t) (worker_sys w (nRouter n))")
  have "P (yWorld y) \<and> esCause (yState y) = Some cause"
    by (rule continue_phase_halted [OF keeps _ _ E]) (simp_all add: P halted)
  then show ?thesis using go_on(1) E by simp
next
  case (add_ticker t r g)
  then have "g = nRouter n"
    using halted by (auto simp: AddTicker_def Ready_def EngineState_Err_cause Let_def split: if_splits option.splits)
  then show ?thesis using add_ticker(1) P halted by simp
next
  case (shut_down routerCtx matchCtx eventCtx errs g)
  then have "gState g = gState (nRouter n)" "gWorld g = gWorld (nRouter n)"
    by (auto simp: runtime_shutdown_def Shutdown_def split: option.splits)
  then show ?thesis using shut_down(1) P halted by simp
qed

end
