(* ===== verification/Durability.thy ===== *)
theory Durability
  imports Recovery
begin

text \<open>
  What a command leaves in the stores besides the journal: the executions it saves while it is
  applied (\<open>command_logs\<close>) and the order events it saves afterwards (\<open>command_events\<close>). Both depend
  on the worker and the command only, so a replay saves what the command saved when it was new,
  and where all of it is in the stores already a replay meets no conflict.
\<close>

definition recording_io :: "MatchLog list worker_io" where
  "recording_io = \<lparr>ioAppend = None, ioSaveLogs = Some (\<lambda>logs saved. (None, saved @ logs)),
     ioSaveEvents = Some (\<lambda>_ saved. (None, saved))\<rparr>"

definition command_logs :: "digest \<Rightarrow> BookWorker \<Rightarrow> Command \<Rightarrow> MatchLog list" where
  "command_logs H w c = snd (snd (applyCommand H recording_io w c []))"

definition command_events :: "digest \<Rightarrow> BookWorker \<Rightarrow> Command \<Rightarrow> OrderEvent list option" where
  "command_events H w c =
     (case applyCommand H quiet_io w c () of (Inr events, _) \<Rightarrow> Some events | (Inl _, _) \<Rightarrow> None)"

section \<open>The executions of a command\<close>

text \<open>
  An application of a command, as a function of what the world does with its executions.
\<close>

definition settles :: "'w applied \<Rightarrow> 'w worker_io \<Rightarrow> MatchLog list \<Rightarrow> 'w \<Rightarrow> OrderEvent list \<Rightarrow> OrderBook \<Rightarrow> bool" where
  "settles a io logs world events book \<longleftrightarrow>
     (case persistMatchLogs io logs world of
        (Some _, _) \<Rightarrow> \<exists>err book' world'. a = (Inl err, book', world')
      | (None, world') \<Rightarrow> a = (Inr events, book, world'))"

lemma recording_logs [simp]: "persistMatchLogs recording_io logs saved = (None, saved @ logs)"
  by (simp add: persistMatchLogs_def recording_io_def)

lemma no_logs [simp]: "persistMatchLogs io [] world = (None, world)"
  by (simp add: persistMatchLogs_def)

lemma apply_create_settles:
  assumes "apply_create H quiet_io b p t book u = (Inr events, book', u')"
  shows "settles (apply_create H io b p t book world) io
    (snd (snd (apply_create H recording_io b p t book []))) world events book'"
proof -
  obtain res book1 order' where M: "Match H book (CreateOrderAt H p t) = (res, book1, order')"
    by (cases "Match H book (CreateOrderAt H p t)")
  obtain e world1 where P: "persistMatchLogs io (rLogs res) world = (e, world1)"
    by (cases "persistMatchLogs io (rLogs res) world")
  have "rErr res = None" using assms M by (auto simp: apply_create_def Let_def split: option.splits)
  then show ?thesis
    using assms M P
    by (cases e) (auto simp: settles_def apply_create_def Let_def split: option.splits if_splits)
qed

lemma apply_amend_settles:
  assumes "apply_amend H quiet_io b p t book u = (Inr events, book', u')"
  shows "settles (apply_amend H io b p t book world) io
    (snd (snd (apply_amend H recording_io b p t book []))) world events book'"
proof -
  obtain book0 er where E: "EditOrderAt book p t = (book0, er)" by (cases "EditOrderAt book p t")
  define order where "order = edAfter (the er)"
  obtain res book1 order' where M: "Match H book0 order = (res, book1, order')" by (cases "Match H book0 order")
  obtain e world1 where P: "persistMatchLogs io (rLogs res) world = (e, world1)"
    by (cases "persistMatchLogs io (rLogs res) world")
  show ?thesis
  proof (cases "\<exists>r. er = Some r \<and> edRequiresRematch r")
    case False
    then show ?thesis
      using assms E by (auto simp: settles_def apply_amend_def Let_def split: option.splits if_splits)
  next
    case True
    then have "rErr res = None"
      using assms E M by (auto simp: apply_amend_def order_def Let_def split: option.splits)
    then show ?thesis
      using True assms E M P
      by (cases e) (auto simp: settles_def apply_amend_def order_def Let_def split: option.splits if_splits)
  qed
qed

lemma applyCommand_settles:
  assumes Q: "applyCommand H quiet_io w c () = (Inr events, book, u)"
  shows "settles (applyCommand H io w c world) io (command_logs H w c) world events book"
proof -
  have run: "ValidateCommand c = None" "jMarketConfigVersion (versioned w c) = ConfigVersion (wPrecision w)"
    "\<not> IsZero (jRecordedAt c)"
    using Q by (auto simp: applyCommand_def Let_def split: option.splits if_splits)
  note U = applyCommand_unrefused [OF run, unfolded Let_def]
  note Q' = Q [unfolded U]
  show ?thesis
  proof (cases "jCreate c")
    case (Some p)
    then show ?thesis using Q' apply_create_settles unfolding command_logs_def U by simp
  next
    case None
    show ?thesis
    proof (cases "jAmend c")
      case (Some p)
      then show ?thesis using None Q' apply_amend_settles unfolding command_logs_def U by simp
    next
      case no: None
      then show ?thesis using None Q' unfolding command_logs_def U
        by (cases "jCancel c") (auto simp: settles_def apply_cancel_def split: prod.splits option.splits)
    qed
  qed
qed

lemma applied_settles:
  assumes A: "applyCommand H io w c s = (Inr events, book, s')"
  shows "command_events H w c = Some events" "persistMatchLogs io (command_logs H w c) s = (None, s')"
proof -
  have Q: "applyCommand H quiet_io w c () = (Inr events, book, ())" by (rule applyCommand_quiet [OF A])
  then show "command_events H w c = Some events" by (simp add: command_events_def)
  show "persistMatchLogs io (command_logs H w c) s = (None, s')"
    using applyCommand_settles [OF Q, of io s] A
    by (auto simp: settles_def split: prod.splits option.splits)
qed

text \<open>
  The executions are those of the command's matching: of a created order, and of an amended one that
  has to be matched again.
\<close>

definition executions :: "digest \<Rightarrow> OrderBook \<Rightarrow> Command \<Rightarrow> MatchLog list" where
  "executions H book c =
     (case (jCreate c, jAmend c) of
        (Some p, _) \<Rightarrow> rLogs (fst (Match H book (CreateOrderAt H p (jRecordedAt c))))
      | (None, Some p) \<Rightarrow>
          (case EditOrderAt book p (jRecordedAt c) of
             (book, Some r) \<Rightarrow> if edRequiresRematch r then rLogs (fst (Match H book (edAfter r))) else []
           | (_, None) \<Rightarrow> [])
      | (None, None) \<Rightarrow> [])"

lemma command_executions:
  assumes "applyCommand H io w c s = (Inr events, book, s')"
  shows "command_logs H w c = executions H (wOrderBook w) c"
proof -
  have Q: "applyCommand H quiet_io w c () = (Inr events, book, ())" by (rule applyCommand_quiet [OF assms])
  have run: "ValidateCommand c = None" "jMarketConfigVersion (versioned w c) = ConfigVersion (wPrecision w)"
    "\<not> IsZero (jRecordedAt c)"
    using Q by (auto simp: applyCommand_def Let_def split: option.splits if_splits)
  note U = applyCommand_unrefused [OF run, unfolded Let_def]
  note Q' = Q [unfolded U]
  show ?thesis
  proof (cases "jCreate c")
    case (Some p)
    then show ?thesis
      using Q' unfolding command_logs_def U executions_def
      by (auto simp: apply_create_def Let_def split: prod.splits option.splits if_splits)
  next
    case None
    then show ?thesis
      using Q' unfolding command_logs_def U executions_def
      by (auto simp: apply_amend_def apply_cancel_def Let_def split: prod.splits option.splits if_splits)
  qed
qed

section \<open>Histories\<close>

text \<open>
  The commands of a worker have left everything they save: \<open>logs\<close> and \<open>events\<close> say what the world
  holds.
\<close>

definition command_saved ::
  "digest \<Rightarrow> (MatchLog list \<Rightarrow> bool) \<Rightarrow> (OrderEvent list \<Rightarrow> bool) \<Rightarrow> BookWorker \<Rightarrow> Command \<Rightarrow> bool" where
  "command_saved H logs events w c \<longleftrightarrow>
     logs (command_logs H w c) \<and> (case command_events H w c of None \<Rightarrow> True | Some vs \<Rightarrow> events vs)"

fun history_saved ::
  "digest \<Rightarrow> (MatchLog list \<Rightarrow> bool) \<Rightarrow> (OrderEvent list \<Rightarrow> bool) \<Rightarrow> BookWorker \<Rightarrow> Command list \<Rightarrow> bool" where
  "history_saved H logs events w [] \<longleftrightarrow> True"
| "history_saved H logs events w (c # cs) \<longleftrightarrow> command_saved H logs events w c \<and>
     (case rebuild H w [c] of None \<Rightarrow> False | Some w \<Rightarrow> history_saved H logs events w cs)"

lemma rebuild_Cons: "rebuild H w (c # cs) = (case rebuild H w [c] of None \<Rightarrow> None | Some w \<Rightarrow> rebuild H w cs)"
  using rebuild_append [of H w "[c]" cs] by simp

lemma history_saved_snoc:
  assumes "rebuild H w cs = Some w'" "rebuild H w' [c] = Some w''"
  shows "history_saved H logs events w (cs @ [c]) \<longleftrightarrow>
    history_saved H logs events w cs \<and> command_saved H logs events w' c"
  using assms(1)
proof (induction cs arbitrary: w)
  case (Cons d cs)
  then obtain v where v: "rebuild H w [d] = Some v" "rebuild H v cs = Some w'"
    using rebuild_Cons [of H w d cs] by (auto split: option.splits)
  then show ?case using Cons.IH [OF v(2)] by (simp del: rebuild.simps)
qed (use assms(2) in \<open>simp del: rebuild.simps(2)\<close>)

text \<open>Every command of a saved history has left its executions and its events.\<close>

lemma history_saved_each:
  assumes "history_saved H logs events w (cs @ c # ds)"
  obtains v vs book where "rebuild H w cs = Some v" "applyCommand H quiet_io v c () = (Inr vs, book, ())"
    "logs (executions H (wOrderBook v) c)" "events vs"
proof -
  obtain v where v: "rebuild H w cs = Some v" "history_saved H logs events v (c # ds)"
  proof -
    have "\<exists>v. rebuild H w cs = Some v \<and> history_saved H logs events v (c # ds)"
      using assms
    proof (induction cs arbitrary: w)
      case (Cons d cs)
      then obtain u where u: "rebuild H w [d] = Some u" "history_saved H logs events u (cs @ c # ds)"
        by (auto simp del: rebuild.simps split: option.splits)
      show ?case using Cons.IH [OF u(2)] rebuild_Cons [of H w d cs] u(1) by (simp del: rebuild.simps history_saved.simps)
    qed simp
    then show ?thesis using that by blast
  qed
  then obtain v' where v': "rebuild H v [c] = Some v'" "command_saved H logs events v c"
    by (auto simp del: rebuild.simps split: option.splits)
  obtain vs book u where A: "applyCommand H quiet_io v c () = (Inr vs, book, u)"
    using v'(1) by (auto simp: apply_and_persist_def split: prod.splits sum.splits)
  then show ?thesis
    using that [OF v(1), of vs book] v'(2) command_executions [OF A]
    by (simp add: command_saved_def command_events_def)
qed

lemma history_saved_mono:
  assumes "history_saved H logs events w cs" "\<And>ls. logs ls \<Longrightarrow> logs' ls" "\<And>vs. events vs \<Longrightarrow> events' vs"
  shows "history_saved H logs' events' w cs"
  using assms(1)
  by (induction cs arbitrary: w)
    (auto simp: command_saved_def assms(2,3) simp del: rebuild.simps split: option.splits)

end
