(* ===== verification/Config.thy ===== *)
theory Config
  imports Json
begin

text \<open>
  The configuration of \<^verbatim>\<open>internal/config/config.go\<close>. A file is absent (no path), unreadable, or
  the first JSON value it spells, when it spells one.
\<close>

record EngineConfig =
  WorkerInputBufferSize :: int
  MatchLogOutputBufferSize :: int
  OrderEventOutputBufferSize :: int

definition DefaultWorkerInputBufferSize :: int where "DefaultWorkerInputBufferSize = 128"
definition DefaultMatchLogBufferSize :: int where "DefaultMatchLogBufferSize = 128"
definition DefaultOrderEventBufferSize :: int where "DefaultOrderEventBufferSize = 128"

definition DefaultConfig :: EngineConfig where
  "DefaultConfig =
     \<lparr>WorkerInputBufferSize = DefaultWorkerInputBufferSize,
      MatchLogOutputBufferSize = DefaultMatchLogBufferSize,
      OrderEventOutputBufferSize = DefaultOrderEventBufferSize\<rparr>"

definition ApplyDefaults :: "EngineConfig \<Rightarrow> EngineConfig" where
  "ApplyDefaults c =
     c\<lparr>WorkerInputBufferSize :=
         (if WorkerInputBufferSize c \<le> 0 then DefaultWorkerInputBufferSize else WorkerInputBufferSize c),
       MatchLogOutputBufferSize :=
         (if MatchLogOutputBufferSize c \<le> 0 then DefaultMatchLogBufferSize
          else MatchLogOutputBufferSize c),
       OrderEventOutputBufferSize :=
         (if OrderEventOutputBufferSize c \<le> 0 then DefaultOrderEventBufferSize
          else OrderEventOutputBufferSize c)\<rparr>"

definition engine_fields :: "EngineConfig field list" where
  "engine_fields =
     [(''worker_input_buffer_size'', int_field (\<lambda>n c. c\<lparr>WorkerInputBufferSize := n\<rparr>)),
      (''match_log_output_buffer_size'', int_field (\<lambda>n c. c\<lparr>MatchLogOutputBufferSize := n\<rparr>)),
      (''order_event_output_buffer_size'', int_field (\<lambda>n c. c\<lparr>OrderEventOutputBufferSize := n\<rparr>))]"

definition config_fields :: "EngineConfig field list" where
  "config_fields = [(''engine'', unmarshal_object False engine_fields)]"

datatype config_file = NoPath | Unreadable error | Contents "json option"

definition Load :: "config_file \<Rightarrow> error + EngineConfig" where
  "Load path =
     (case path of
        NoPath \<Rightarrow> Inr DefaultConfig
      | Unreadable err \<Rightarrow> Inl (Wrapped ''open config'' err)
      | Contents None \<Rightarrow> Inl (Wrapped ''decode config'' (DecodeError ''invalid JSON''))
      | Contents (Some v) \<Rightarrow>
          (case unmarshal_object False config_fields v DefaultConfig of
             None \<Rightarrow> Inl (Wrapped ''decode config'' (DecodeError ''invalid value''))
           | Some c \<Rightarrow> Inr (ApplyDefaults c)))"

text \<open>
  A configuration that loads has positive buffer sizes, and a file gives each size it sets
  to a positive number; every other size is the default.
\<close>

theorem loaded_sizes_positive:
  assumes "Load path = Inr c"
  shows "0 < WorkerInputBufferSize c \<and> 0 < MatchLogOutputBufferSize c \<and> 0 < OrderEventOutputBufferSize c \<and>
    (path = NoPath \<longrightarrow> c = DefaultConfig) \<and>
    (\<forall>n. path = Contents (Some (JObj [(''engine'', JObj [(''worker_input_buffer_size'', marshal_int n)])])) \<and>
       int64 n \<and> 0 < n \<longrightarrow> c = DefaultConfig\<lparr>WorkerInputBufferSize := n\<rparr>)"
proof -
  have positive: "0 < WorkerInputBufferSize (ApplyDefaults d) \<and> 0 < MatchLogOutputBufferSize (ApplyDefaults d) \<and>
    0 < OrderEventOutputBufferSize (ApplyDefaults d)" for d
    by (simp add: ApplyDefaults_def DefaultWorkerInputBufferSize_def DefaultMatchLogBufferSize_def
        DefaultOrderEventBufferSize_def)
  have default: "ApplyDefaults DefaultConfig = DefaultConfig" by code_simp
  have "0 < WorkerInputBufferSize c \<and> 0 < MatchLogOutputBufferSize c \<and> 0 < OrderEventOutputBufferSize c"
    using assms positive positive [of DefaultConfig, unfolded default]
    by (auto simp: Load_def split: config_file.splits option.splits)
  moreover have "c = DefaultConfig\<lparr>WorkerInputBufferSize := n\<rparr>"
    if "path = Contents (Some (JObj [(''engine'', JObj [(''worker_input_buffer_size'', marshal_int n)])]))"
      "int64 n" "0 < n" for n
    using assms that default
    by (simp add: Load_def unmarshal_object_def config_fields_def engine_fields_def find_field_def int_field_def
        int64_marshal ApplyDefaults_def DefaultConfig_def DefaultMatchLogBufferSize_def
        DefaultOrderEventBufferSize_def)
  ultimately show ?thesis using assms by (auto simp: Load_def)
qed

lemma loaded_sizes_positive_witness:
  "Load (Contents (Some (JObj [(''engine'', JObj [(''worker_input_buffer_size'', marshal_int 7)])]))) =
     Inr (DefaultConfig\<lparr>WorkerInputBufferSize := 7\<rparr>)"
proof -
  have "int64 7" by (simp add: int64_def min_int64_def max_int64_def)
  moreover have "\<not> isl (Load (Contents (Some (JObj [(''engine'', JObj [(''worker_input_buffer_size'', marshal_int 7)])]))))"
    by code_simp
  then obtain c where "Load (Contents (Some (JObj [(''engine'', JObj [(''worker_input_buffer_size'', marshal_int 7)])]))) = Inr c"
    by (auto simp: isl_def) (metis sumE)
  ultimately show ?thesis using loaded_sizes_positive [of _ c] by simp
qed

end
