(* ===== verification/Lives.thy ===== *)
theory Lives
  imports Interleaving Durability Config
begin

text \<open>
  The life of the engine over its stores: it starts on what the stores hold, its workers and its
  runtime take their steps in any order, it stops or crashes between any two of them, and starts
  again. A crash inside a step is a step whose remaining statements fail, followed by a crash.
  \<open>served\<close> is what holds of the engine while it serves and \<open>consistent\<close> of the stores when it does
  not.
\<close>

section \<open>Lives\<close>

text \<open>\<open>Inl\<close> is a stopped engine, of which the stores are left, \<open>Inr\<close> one at work.\<close>

inductive engine_life ::
  "digest \<Rightarrow> 's stores \<Rightarrow> ('s \<Rightarrow> bool) \<Rightarrow> 's + 's engine \<Rightarrow> bool" for H st init where
  life_init: "init s \<Longrightarrow> engine_life H st init (Inl s)"
| life_start: "engine_life H st init (Inl s) \<Longrightarrow> startEngine H st s = Inr g \<Longrightarrow>
    engine_life H st init (Inr (at_rest g))"
| life_refused: "engine_life H st init (Inl s) \<Longrightarrow> startEngine H st s = Inl (err, s') \<Longrightarrow>
    engine_life H st init (Inl s')"
| life_step: "engine_life H st init (Inr n) \<Longrightarrow> engine_step H st n n' \<Longrightarrow> engine_life H st init (Inr n')"
| life_stop: "engine_life H st init (Inr n) \<Longrightarrow> engine_life H st init (Inl (gWorld (nRouter n)))"

lemma life_steps:
  assumes "(engine_step H st)\<^sup>*\<^sup>* n n'" "engine_life H st init (Inr n)"
  shows "engine_life H st init (Inr n')"
  using assms by induction (auto intro: life_step)

lemma life_request:
  "engine_life H st init (Inr n) \<Longrightarrow> wire_event ev \<Longrightarrow> nPhase n (evTicker ev) = Idle \<Longrightarrow>
   OrderRouter H (worker_world st) ev (nRouter n) = (r, g') \<Longrightarrow> engine_life H st init (Inr (n\<lparr>nRouter := g'\<rparr>))"
  by (rule life_steps [OF request_is_schedule])

text \<open>
  \<open>serve\<close>: the pool, the ping and the listener's and the HTTP shutdown's errors are outcomes, and
  \<open>run\<close> is what the engine went through until its workers ended. \<open>ListenAndServe\<close> never returns
  nil, so its error is awaited whether it or the signal ended the wait; the result lists the
  joined errors.
\<close>

record serve_outcome =
  svPool :: "error option"
  svPing :: "error option"
  svListen :: error
  svHttpShutdown :: "error option"

definition ErrServerClosed :: error where
  "ErrServerClosed = PlainError ''http: Server closed''"

definition serve ::
  "digest \<Rightarrow> 's stores \<Rightarrow> serve_outcome \<Rightarrow> ('s Router \<Rightarrow> 's engine) \<Rightarrow> 's \<Rightarrow> error list \<times> 's" where
  "serve H st out run s =
     (case svPool out of
        Some err \<Rightarrow> ([Wrapped ''create PostgreSQL pool'' err], s)
      | None \<Rightarrow>
     (case svPing out of
        Some err \<Rightarrow> ([Wrapped ''connect PostgreSQL'' err], s)
      | None \<Rightarrow>
     (case startEngine H st s of
        Inl (err, s) \<Rightarrow> ([err], s)
      | Inr g \<Rightarrow>
          let httpShutdownErr = map_option (Wrapped ''shutdown HTTP server'') (svHttpShutdown out);
              (engineShutdownErr, g) = runtime_shutdown None None None (nRouter (run g));
              listenErr = (if svListen out = ErrServerClosed then None
                           else Some (Wrapped ''serve HTTP'' (svListen out)))
          in (List.map_filter id [httpShutdownErr] @ engineShutdownErr @ List.map_filter id [listenErr],
              gWorld g))))"

text \<open>A run of the server is part of a life.\<close>

lemma serve_life:
  assumes "engine_life H st init (Inl s)" "\<And>g. (engine_step H st)\<^sup>*\<^sup>* (at_rest g) (run g)"
    "serve H st out run s = (errs, s')"
  shows "engine_life H st init (Inl s')"
proof (cases "svPool out = None \<and> svPing out = None")
  case True
  show ?thesis
  proof (cases "startEngine H st s")
    case (Inl x)
    then show ?thesis
      using True assms(1,3) life_refused [of H st init s "fst x" "snd x"] by (simp add: serve_def split: prod.splits)
  next
    case (Inr g)
    obtain es g' where S: "runtime_shutdown None None None (nRouter (run g)) = (es, g')"
      by (cases "runtime_shutdown None None None (nRouter (run g))")
    have "engine_life H st init (Inr (run g))"
      by (rule life_steps [OF assms(2) life_start [OF assms(1) Inr]])
    then have "engine_life H st init (Inr ((run g)\<lparr>nRouter := g'\<rparr>))"
      by (rule life_step) (rule shut_down [OF S])
    from life_stop [OF this] show ?thesis using True assms(3) Inr S by (simp add: serve_def Let_def)
  qed
qed (use assms(1,3) in \<open>auto simp: serve_def split: option.splits\<close>)

text \<open>
  \<open>main\<close>: the flags have been read into the configuration file and the listener's outcome, and the
  result lists the errors the process ends with. The sizes of the channels' buffers, all the
  configuration holds, do not matter to a model whose channels are calls.
\<close>

definition server_main ::
  "config_file \<Rightarrow> string \<Rightarrow> digest \<Rightarrow> 's stores \<Rightarrow> serve_outcome \<Rightarrow> ('s Router \<Rightarrow> 's engine) \<Rightarrow> 's \<Rightarrow>
   error list \<times> 's" where
  "server_main configPath databaseURLEnv H st out run s =
     (case Load configPath of
        Inl err \<Rightarrow> ([err], s)
      | Inr cfg \<Rightarrow>
          (case requiredDatabaseURL databaseURLEnv of
             Inl err \<Rightarrow> ([err], s)
           | Inr databaseURL \<Rightarrow> serve H st out run s))"

lemma server_main_life:
  assumes "engine_life H st init (Inl s)" "\<And>g. (engine_step H st)\<^sup>*\<^sup>* (at_rest g) (run g)"
    "server_main configPath databaseURLEnv H st out run s = (errs, s')"
  shows "engine_life H st init (Inl s')"
  using assms serve_life [OF assms(1,2)] by (auto simp: server_main_def split: sum.splits)

section \<open>What holds of an engine at work\<close>

abbreviation fresh_worker :: "string \<Rightarrow> Precision \<Rightarrow> BookWorker" where
  "fresh_worker t p \<equiv> NewBookWorkerWithOptions t None p"

abbreviation running :: "EngineState \<Rightarrow> bool" where
  "running s \<equiv> esCause s = None"

lemma fresh_worker_fields [simp]:
  "wTicker (fresh_worker t p) = t" "wPrecision (fresh_worker t p) = WithDefaults p"
  by (simp_all add: NewBookWorkerWithOptions_def Let_def)

definition listed_tickers :: "(string \<Rightarrow> Precision option) \<Rightarrow> Command list \<Rightarrow> bool" where
  "listed_tickers M L \<longleftrightarrow> (\<forall>c \<in> set L. jTicker c \<in> dom M)"

lemma listed_tickers_grow: "listed_tickers M L \<Longrightarrow> M \<subseteq>\<^sub>m M' \<Longrightarrow> listed_tickers M' L"
  using map_le_implies_dom_le by (fastforce simp: listed_tickers_def)

definition consistent ::
  "(Command list \<Rightarrow> 's \<Rightarrow> bool) \<Rightarrow> ((string \<Rightarrow> Precision option) \<Rightarrow> 's \<Rightarrow> bool) \<Rightarrow> ('s \<Rightarrow> bool) \<Rightarrow> 's \<Rightarrow> bool" where
  "consistent log mk sound s \<longleftrightarrow> (\<exists>L M. log L s \<and> mk M s \<and> listed_tickers M L) \<and> sound s"

lemma consistentE:
  assumes "consistent log mk sound s"
  obtains L M where "log L s" "mk M s" "listed_tickers M L" "sound s"
  using assms unfolding consistent_def by blast

lemma consistentI: "log L s \<Longrightarrow> mk M s \<Longrightarrow> listed_tickers M L \<Longrightarrow> sound s \<Longrightarrow> consistent log mk sound s"
  unfolding consistent_def by blast

text \<open>
  What holds of a worker in each phase, for the log \<open>L\<close> and what the stores hold of executions and
  events: it is what the commands of its ticker rebuild and everything they save is saved, except
  that the last of them is not applied while it is journalled, and its events are not saved while
  it is applied.
\<close>

type_synonym held = "(MatchLog list \<Rightarrow> bool) \<times> (OrderEvent list \<Rightarrow> bool)"

definition caught_up :: "digest \<Rightarrow> held \<Rightarrow> string \<Rightarrow> Precision \<Rightarrow> Command list \<Rightarrow> BookWorker \<Rightarrow> bool" where
  "caught_up H h t p cs w \<longleftrightarrow>
     rebuild H (fresh_worker t p) cs = Some w \<and> history_saved H (fst h) (snd h) (fresh_worker t p) cs"

definition in_phase ::
  "digest \<Rightarrow> held \<Rightarrow> Command list \<Rightarrow> string \<Rightarrow> BookWorker \<Rightarrow> phase \<Rightarrow> bool" where
  "in_phase H h L t w p \<longleftrightarrow>
     (case p of
        Idle \<Rightarrow> caught_up H h t (wPrecision w) (of_ticker t L) w
      | Journalled c \<Rightarrow> (\<exists>cs. of_ticker t L = cs @ [c] \<and> caught_up H h t (wPrecision w) cs w)
      | Applied events \<Rightarrow>
          (\<exists>cs c v. of_ticker t L = cs @ [c] \<and> caught_up H h t (wPrecision w) cs v \<and> rebuild H v [c] = Some w \<and>
             fst h (command_logs H v c) \<and> command_events H v c = Some events))"

definition worker_ok ::
  "digest \<Rightarrow> held \<Rightarrow> Command list \<Rightarrow> (string \<Rightarrow> Precision option) \<Rightarrow> bool \<Rightarrow> string \<Rightarrow> BookWorker \<Rightarrow> phase \<Rightarrow> bool" where
  "worker_ok H h L M live t w p \<longleftrightarrow>
     wTicker w = t \<and> M t = Some (wPrecision w) \<and> (live \<longrightarrow> in_phase H h L t w p)"

definition workers_of ::
  "digest \<Rightarrow> held \<Rightarrow> Command list \<Rightarrow> (string \<Rightarrow> Precision option) \<Rightarrow> 's engine \<Rightarrow> bool" where
  "workers_of H h L M n \<longleftrightarrow> (\<forall>t. case gWorkers (nRouter n) t of
      None \<Rightarrow> nPhase n t = Idle \<and> of_ticker t L = []
    | Some w \<Rightarrow> worker_ok H h L M (running (gState (nRouter n))) t w (nPhase n t))"

definition served ::
  "digest \<Rightarrow> (Command list \<Rightarrow> 's \<Rightarrow> bool) \<Rightarrow> ((string \<Rightarrow> Precision option) \<Rightarrow> 's \<Rightarrow> bool) \<Rightarrow> ('s \<Rightarrow> bool) \<Rightarrow>
   ('s \<Rightarrow> held) \<Rightarrow> 's engine \<Rightarrow> bool" where
  "served H log mk sound held n \<longleftrightarrow>
     (\<exists>L M. log L (gWorld (nRouter n)) \<and> mk M (gWorld (nRouter n)) \<and> listed_tickers M L \<and>
        workers_of H (held (gWorld (nRouter n))) L M n) \<and> sound (gWorld (nRouter n))"

lemma servedI:
  "log L (gWorld (nRouter n)) \<Longrightarrow> mk M (gWorld (nRouter n)) \<Longrightarrow> listed_tickers M L \<Longrightarrow>
   workers_of H (held (gWorld (nRouter n))) L M n \<Longrightarrow> sound (gWorld (nRouter n)) \<Longrightarrow>
   served H log mk sound held n"
  unfolding served_def by blast

lemma servedE:
  assumes "served H log mk sound held n"
  obtains L M where "log L (gWorld (nRouter n))" "mk M (gWorld (nRouter n))" "listed_tickers M L"
    "workers_of H (held (gWorld (nRouter n))) L M n" "sound (gWorld (nRouter n))"
  using assms unfolding served_def by blast

lemma workers_ofD:
  assumes "workers_of H h L M n"
  shows "gWorkers (nRouter n) t = Some w \<Longrightarrow> worker_ok H h L M (running (gState (nRouter n))) t w (nPhase n t)"
    "gWorkers (nRouter n) t = None \<Longrightarrow> nPhase n t = Idle \<and> of_ticker t L = []"
  using assms [unfolded workers_of_def, rule_format, of t] by (simp_all split: option.splits)

lemma workers_ofI:
  assumes "\<And>t w. gWorkers (nRouter n) t = Some w \<Longrightarrow> worker_ok H h L M (running (gState (nRouter n))) t w (nPhase n t)"
    "\<And>t. gWorkers (nRouter n) t = None \<Longrightarrow> nPhase n t = Idle \<and> of_ticker t L = []"
  shows "workers_of H h L M n"
  unfolding workers_of_def using assms by (auto split: option.split)

lemma worker_okD:
  assumes "worker_ok H h L M live t w p"
  shows "wTicker w = t" "M t = Some (wPrecision w)" "live \<Longrightarrow> in_phase H h L t w p"
  using assms by (simp_all add: worker_ok_def)

lemma worker_okI:
  "wTicker w = t \<Longrightarrow> M t = Some (wPrecision w) \<Longrightarrow> (live \<Longrightarrow> in_phase H h L t w p) \<Longrightarrow> worker_ok H h L M live t w p"
  by (simp add: worker_ok_def)

text \<open>
  Commands of other tickers, more markets and more in the stores change nothing for a worker, nor
  does a halt.
\<close>

abbreviation holds_more :: "held \<Rightarrow> held \<Rightarrow> bool" where
  "holds_more h h' \<equiv> (\<forall>ls. fst h ls \<longrightarrow> fst h' ls) \<and> (\<forall>vs. snd h vs \<longrightarrow> snd h' vs)"

lemma caught_up_mono: "caught_up H h t p cs w \<Longrightarrow> holds_more h h' \<Longrightarrow> caught_up H h' t p cs w"
  unfolding caught_up_def using history_saved_mono [of H "fst h" "snd h"] by blast

lemma in_phase_mono:
  assumes "in_phase H h L t w p" "of_ticker t L' = of_ticker t L" "holds_more h h'"
  shows "in_phase H h' L' t w p"
proof -
  note mono = caught_up_mono [OF _ assms(3), of H t "wPrecision w"]
  show ?thesis
  proof (cases p)
    case (Applied events)
    obtain cs c v where A: "of_ticker t L = cs @ [c]" "caught_up H h t (wPrecision w) cs v" "rebuild H v [c] = Some w"
      "fst h (command_logs H v c)" "command_events H v c = Some events"
      using assms(1) by (auto simp: in_phase_def Applied simp del: rebuild.simps)
    then show ?thesis
      unfolding in_phase_def Applied phase.case assms(2)
      using mono [OF A(2)] assms(3) by (intro exI [of _ cs] exI [of _ c] exI [of _ v] conjI) simp_all
  qed (use assms(1,2) mono in \<open>auto simp: in_phase_def\<close>)
qed

lemma worker_ok_mono:
  assumes "worker_ok H h L M live t w p" "of_ticker t L' = of_ticker t L" "M \<subseteq>\<^sub>m M'" "live' \<longrightarrow> live" "holds_more h h'"
  shows "worker_ok H h' L' M' live' t w p"
proof (rule worker_okI)
  show "M' t = Some (wPrecision w)" using assms(1,3) by (metis domI map_le_def worker_okD(2))
  show "in_phase H h' L' t w p" if live'
    using in_phase_mono [OF worker_okD(3) [OF assms(1)] assms(2,5)] assms(4) that by blast
qed (rule worker_okD(1) [OF assms(1)])

text \<open>What the steps of an iteration do to the phase.\<close>

lemma phase_journalled:
  "in_phase H h L t w Idle \<Longrightarrow> jTicker c = t \<Longrightarrow> in_phase H h (L @ [c]) t w (Journalled c)"
  by (simp add: in_phase_def of_ticker_def)

lemma phase_applied:
  assumes "in_phase H h L t w (Journalled c)" "rebuild H w [c] = Some w'"
    "fst h (command_logs H w c)" "command_events H w c = Some events"
  shows "in_phase H h L t w' (Applied events)"
  using assms rebuild_fields [OF assms(2)] by (auto simp: in_phase_def simp del: rebuild.simps)

lemma phase_persisted:
  assumes "in_phase H h L t w (Applied events)" "snd h events"
  shows "in_phase H h L t w Idle"
proof -
  obtain cs c v where A: "of_ticker t L = cs @ [c]" "caught_up H h t (wPrecision w) cs v" "rebuild H v [c] = Some w"
    "fst h (command_logs H v c)" "command_events H v c = Some events"
    using assms(1) by (auto simp: in_phase_def simp del: rebuild.simps)
  have "history_saved H (fst h) (snd h) (fresh_worker t (wPrecision w)) (cs @ [c])"
    using history_saved_snoc [of H _ cs v c w "fst h" "snd h"] A assms(2)
    by (simp add: caught_up_def command_saved_def del: rebuild.simps)
  moreover have "rebuild H (fresh_worker t (wPrecision w)) (cs @ [c]) = Some w"
    using A(2,3) by (simp add: caught_up_def rebuild_append del: rebuild.simps)
  ultimately show ?thesis by (simp add: in_phase_def caught_up_def A(1) del: rebuild.simps)
qed

end
