(* ===== verification/Restart.thy ===== *)
theory Restart
  imports Lives
begin

text \<open>
  The contracts of the stores and what the engine proves over them. \<open>engine_stores\<close> is a journal
  with a list of markets beside it; \<open>durable_stores\<close> adds that what a save reports as saved stays
  saved, and that stores that do not fail any more answer. Every step of a life keeps \<open>served\<close>
  and \<open>consistent\<close>, a start that succeeds builds the workers from the log, which are those
  that were lost unless the engine had halted, a start on stores that do not fail succeeds when the
  workers were idle, and no start succeeds on a log that does not build a listed ticker's worker.
\<close>

section \<open>The steps of a worker\<close>

text \<open>An answer to a failure leaves the engine halted.\<close>

lemma answer_halt [simp]:
  "answer (halt_ack err y) =
     (Some (Ack (EngineState_Err (Halt (yState y) (Some err)))), Idle, y\<lparr>yState := Halt (yState y) (Some err)\<rparr>)"
  by (simp add: answer_def halt_ack_def Let_def)

lemma applied_rebuilds:
  assumes "applyCommand H io w c s = (Inr events, book, s')"
  shows "rebuild H w [c] = Some (w\<lparr>wOrderBook := book\<rparr>)"
  using applyCommand_quiet [OF assms] by (simp add: apply_and_persist_def)

lemma apply_journalled_keep:
  assumes "keeps P io" "P (yWorld y)" "apply_journalled H io c y = (a, p, y')"
  shows "P (yWorld y') \<and> wTicker (yWorker y') = wTicker (yWorker y) \<and> wPrecision (yWorker y') = wPrecision (yWorker y) \<and>
    (running (yState y') \<longrightarrow> running (yState y) \<and>
      (\<exists>events book. applyCommand H io (yWorker y) c (yWorld y) = (Inr events, book, yWorld y') \<and>
         p = Applied events \<and> yWorker y' = (yWorker y)\<lparr>wOrderBook := book\<rparr>))"
proof -
  obtain r book s where A: "applyCommand H io (yWorker y) c (yWorld y) = (r, book, s)"
    by (cases "applyCommand H io (yWorker y) c (yWorld y)")
  note k = command_keep [OF assms(1,2) A]
  show ?thesis
  proof (cases r)
    case (Inl err)
    then have "y' = y\<lparr>yWorker := (yWorker y)\<lparr>wOrderBook := book\<rparr>, yWorld := s, yState := Halt (yState y) (Some err)\<rparr>"
      using assms(3) A by (auto simp: apply_journalled_def Let_def)
    then show ?thesis using k by simp
  next
    case (Inr events)
    then have "y' = y\<lparr>yWorker := (yWorker y)\<lparr>wOrderBook := book\<rparr>, yWorld := s\<rparr>" "p = Applied events"
      using assms(3) A by (auto simp: apply_journalled_def Let_def)
    then show ?thesis using k A Inr by simp
  qed
qed

lemma persist_applied_keep:
  assumes "keeps P io" "P (yWorld y)" "persist_applied io events y = (a, p, y')"
  shows "P (yWorld y') \<and> yWorker y' = yWorker y \<and> p = Idle \<and>
    (running (yState y') \<longrightarrow> running (yState y) \<and> persistOrderEvents io events (yWorld y) = (None, yWorld y'))"
proof -
  obtain e s where A: "persistOrderEvents io events (yWorld y) = (e, s)"
    by (cases "persistOrderEvents io events (yWorld y)")
  note k = keepsD(2) [OF assms(1,2) A]
  show ?thesis using assms(3) A k by (cases e) (auto simp: persist_applied_def answer_def Let_def halt_ack_def)
qed

section \<open>The contract\<close>

locale engine_stores = engine_journal append read log saveLogs saveEvents
  for append :: "Command \<Rightarrow> 's \<Rightarrow> (error + AppendResult) \<times> 's"
    and read :: "'s \<Rightarrow> (error + Command list) \<times> 's"
    and log :: "Command list \<Rightarrow> 's \<Rightarrow> bool"
    and saveLogs :: "MatchLog list \<Rightarrow> 's \<Rightarrow> error option \<times> 's"
    and saveEvents :: "OrderEvent list \<Rightarrow> 's \<Rightarrow> error option \<times> 's" +
  fixes addMarket :: "string \<Rightarrow> 's \<Rightarrow> (error + MarketStore.AddResult) \<times> 's"
    and markets :: "'s \<Rightarrow> (error + Market list) \<times> 's"
    and mk :: "(string \<Rightarrow> Precision option) \<Rightarrow> 's \<Rightarrow> bool"
  assumes append_mk: "mk M s \<Longrightarrow> append c s = (a, s') \<Longrightarrow> mk M s'"
    and read_mk: "mk M s \<Longrightarrow> read s = (cs, s') \<Longrightarrow> mk M s'"
    and logs_mk: "mk M s \<Longrightarrow> saveLogs rs s = (r, s') \<Longrightarrow> mk M s'"
    and events_mk: "mk M s \<Longrightarrow> saveEvents vs s = (r, s') \<Longrightarrow> mk M s'"
    and add_log: "log L s \<Longrightarrow> addMarket t s = (added, s') \<Longrightarrow> log L s'"
    and add_mk: "mk M s \<Longrightarrow> addMarket t s = (added, s') \<Longrightarrow> \<exists>M'. mk M' s' \<and> M \<subseteq>\<^sub>m M' \<and>
      (\<forall>a. added = Inr a \<longrightarrow> qTicker (adMarket a) = TrimSpace t \<and>
         M' (TrimSpace t) = Some (qPrecision (adMarket a)))"
    and markets_log: "log L s \<Longrightarrow> markets s = (ls, s') \<Longrightarrow> log L s'"
    and markets_mk: "mk M s \<Longrightarrow> markets s = (ls, s') \<Longrightarrow> mk M s' \<and>
      (\<forall>qs. ls = Inr qs \<longrightarrow> distinct (map qTicker qs) \<and> map_of (map (\<lambda>q. (qTicker q, qPrecision q)) qs) = M)"
    and mk_default: "mk M s \<Longrightarrow> M t = Some p \<Longrightarrow> WithDefaults p = p"
begin

abbreviation st :: "'s stores" where
  "st \<equiv> \<lparr>soMatch = Some saveLogs, soAppend = Some append, soCommands = read,
    soMarket = Some addMarket, soMarkets = markets, soEvents = Some saveEvents\<rparr>"

lemma world_io: "worker_world st = io"
  by (simp add: worker_world_def)

lemma io_mk: "keeps (mk M) io"
proof (rule keepsI)
  fix f ls s r s' assume a: "ioSaveLogs io = Some f" "mk M s" "f ls s = (r, s')"
  then have "saveLogs ls s = (r, s')" by simp
  then show "mk M s'" by (rule logs_mk [OF a(2)])
next
  fix f vs s r s' assume a: "ioSaveEvents io = Some f" "mk M s" "f vs s = (r, s')"
  then have "saveEvents vs s = (r, s')" by simp
  then show "mk M s'" by (rule events_mk [OF a(2)])
qed

lemma read_keeps: "log L s \<Longrightarrow> read s = (cs, s') \<Longrightarrow> log L s'"
  by (cases cs) (use read_commands read_failed in blast)+

text \<open>What taking an event does to the log and to the worker.\<close>

lemma journal_event_log:
  assumes log: "log L (yWorld y)" and mk: "mk M (yWorld y)" and ev: "wire_event ev"
    and E: "journal_event io ev y = (r, p, y')"
  shows "yWorker y' = yWorker y \<and> mk M (yWorld y') \<and>
    (\<exists>new. log (L @ new) (yWorld y') \<and> (\<forall>c \<in> set new. jTicker c = wTicker (yWorker y)) \<and>
      (esCause (yState y') = None \<longrightarrow> esCause (yState y) = None \<and>
        (p = Idle \<and> new = [] \<or> (\<exists>c. p = Journalled c \<and> new = [c]))))"
proof -
  let ?w = "yWorker y"
  have quiet: ?thesis if "y' = y" "p = Idle"
    using that log mk by (auto intro!: exI [of _ "[]"])
  show ?thesis
  proof (cases "commandFromEvent ?w ev")
    case None
    then have "y' = y" "p = Idle" using E by (auto simp: journal_event_def answer_def split: if_splits)
    then show ?thesis by (rule quiet)
  next
    case (Some c)
    note w = commandFromEvent_wire [OF ev Some]
    obtain a s1 where A: "append c (yWorld y) = (a, s1)" by (cases "append c (yWorld y)")
    have mk1: "mk M s1" by (rule append_mk [OF mk A])
    consider "y' = y" "p = Idle"
      | "(r, p, y') = (case a of Inl err \<Rightarrow> answer (halt_ack err (y\<lparr>yWorld := s1\<rparr>))
          | Inr ap \<Rightarrow> if \<not> apInserted ap then answer (Ack None, y\<lparr>yWorld := s1\<rparr>)
              else (None, Journalled (apCommand ap), y\<lparr>yWorld := s1\<rparr>))"
      using E Some A by (auto simp: journal_event_def answer_def split: if_splits)
    then show ?thesis
    proof cases
      case 1
      then show ?thesis by (rule quiet)
    next
      case 2
      show ?thesis
      proof (cases a)
        case (Inl err)
        then have y': "yWorld y' = s1" "yWorker y' = ?w" "esCause (yState y') \<noteq> None" using 2 by auto
        obtain new where new: "log (L @ new) s1" "\<forall>e \<in> set new. journal_entry c e"
          using append_failed [OF log w(1) A [unfolded Inl]] by (metis append_Nil2 empty_iff empty_set set_ConsD)
        then have "\<forall>e \<in> set new. jTicker e = wTicker ?w" using journal_entry_fields(1) w(2) by fastforce
        then show ?thesis using y' new(1) mk1 by (intro conjI exI [of _ new]) auto
      next
        case (Inr ap)
        show ?thesis
        proof (cases "apInserted ap")
          case False
          then have "y' = y\<lparr>yWorld := s1\<rparr>" "p = Idle" using 2 Inr by (simp_all add: answer_def)
          then show ?thesis
            using append_existing [OF log w(1) A [unfolded Inr] False] mk1
            by (intro conjI exI [of _ "[]"]) simp_all
        next
          case True
          then have "y' = y\<lparr>yWorld := s1\<rparr>" "p = Journalled (apCommand ap)" using 2 Inr by simp_all
          then show ?thesis
            using append_inserted [OF log w(1) A [unfolded Inr] True] journal_entry_fields(1) w(2) mk1
            by (intro conjI exI [of _ "[apCommand ap]"]) auto
        qed
      qed
    qed
  qed
qed

end

locale durable_stores = engine_stores append read log saveLogs saveEvents addMarket markets mk
  for append :: "Command \<Rightarrow> 's \<Rightarrow> (error + AppendResult) \<times> 's"
    and read :: "'s \<Rightarrow> (error + Command list) \<times> 's"
    and log :: "Command list \<Rightarrow> 's \<Rightarrow> bool"
    and saveLogs :: "MatchLog list \<Rightarrow> 's \<Rightarrow> error option \<times> 's"
    and saveEvents :: "OrderEvent list \<Rightarrow> 's \<Rightarrow> error option \<times> 's"
    and addMarket :: "string \<Rightarrow> 's \<Rightarrow> (error + MarketStore.AddResult) \<times> 's"
    and markets :: "'s \<Rightarrow> (error + Market list) \<times> 's"
    and mk :: "(string \<Rightarrow> Precision option) \<Rightarrow> 's \<Rightarrow> bool" +
  fixes saved_logs :: "MatchLog list \<Rightarrow> 's \<Rightarrow> bool"
    and saved_events :: "OrderEvent list \<Rightarrow> 's \<Rightarrow> bool"
    and grows :: "'s \<Rightarrow> 's \<Rightarrow> bool"
    and sound :: "'s \<Rightarrow> bool"
    and calm :: "'s \<Rightarrow> bool"
  assumes grows_trans: "grows s s1 \<Longrightarrow> grows s1 s2 \<Longrightarrow> grows s s2"
    and append_grows: "append c s = (a, s') \<Longrightarrow> grows s s'"
    and read_grows: "read s = (cs, s') \<Longrightarrow> grows s s'"
    and logs_grows: "saveLogs rs s = (r, s') \<Longrightarrow> grows s s'"
    and events_grows: "saveEvents vs s = (r, s') \<Longrightarrow> grows s s'"
    and add_grows: "addMarket t s = (added, s') \<Longrightarrow> grows s s'"
    and markets_grows: "markets s = (ls, s') \<Longrightarrow> grows s s'"
    and grows_refl: "grows s s"
    and sound_grows: "grows s s' \<Longrightarrow> sound s \<Longrightarrow> sound s'"
    and calm_grows: "grows s s' \<Longrightarrow> calm s \<Longrightarrow> calm s'"
    and saved_logs_grows: "grows s s' \<Longrightarrow> saved_logs rs s \<Longrightarrow> saved_logs rs s'"
    and saved_events_grows: "grows s s' \<Longrightarrow> saved_events vs s \<Longrightarrow> saved_events vs s'"
    and nothing_saved: "saved_logs [] s" "saved_events [] s"
    and logs_saved: "saveLogs rs s = (None, s') \<Longrightarrow> saved_logs rs s'"
    and events_saved: "saveEvents vs s = (None, s') \<Longrightarrow> saved_events vs s'"
    and logs_again: "calm s \<Longrightarrow> sound s \<Longrightarrow> saved_logs rs s \<Longrightarrow> fst (saveLogs rs s) = None"
    and events_again: "calm s \<Longrightarrow> sound s \<Longrightarrow> saved_events vs s \<Longrightarrow> fst (saveEvents vs s) = None"
    and read_answers: "calm s \<Longrightarrow> log L s \<Longrightarrow> \<exists>cs. fst (read s) = Inr cs"
    and markets_answer: "calm s \<Longrightarrow> sound s \<Longrightarrow> \<exists>qs. fst (markets s) = Inr qs"
    and named: "sound s \<Longrightarrow> mk M s \<Longrightarrow> [] \<notin> dom M"
begin

abbreviation held :: "'s \<Rightarrow> held" where
  "held s \<equiv> (\<lambda>rs. saved_logs rs s, \<lambda>vs. saved_events vs s)"

abbreviation wd :: "'s engine \<Rightarrow> 's" where
  "wd n \<equiv> gWorld (nRouter n)"

abbreviation serving :: "digest \<Rightarrow> 's engine \<Rightarrow> bool" where
  "serving H n \<equiv> served H log mk sound held n"

lemma held_grows: "grows s s' \<Longrightarrow> holds_more (held s) (held s')"
  using saved_logs_grows saved_events_grows by auto

lemma io_grows: "keeps (grows s0) io"
proof (rule keepsI)
  fix f ls s r s' assume a: "ioSaveLogs io = Some f" "grows s0 s" "f ls s = (r, s')"
  then have "saveLogs ls s = (r, s')" by simp
  then show "grows s0 s'" by (rule grows_trans [OF a(2) logs_grows])
next
  fix f vs s r s' assume a: "ioSaveEvents io = Some f" "grows s0 s" "f vs s = (r, s')"
  then have "saveEvents vs s = (r, s')" by simp
  then show "grows s0 s'" by (rule grows_trans [OF a(2) events_grows])
qed

section \<open>What is saved\<close>

lemma logs_persisted: "persistMatchLogs io rs s = (None, s') \<Longrightarrow> saved_logs rs s'"
  using logs_saved nothing_saved(1) by (auto simp: persistMatchLogs_def split: if_splits)

lemma events_persisted: "persistOrderEvents io vs s = (None, s') \<Longrightarrow> saved_events vs s'"
  using events_saved nothing_saved(2) by (auto simp: persistOrderEvents_def split: if_splits)

lemma logs_persist:
  assumes "calm s" "sound s" "saved_logs rs s"
  obtains s' where "persistMatchLogs io rs s = (None, s')" "grows s s'"
proof -
  obtain r s' where P: "persistMatchLogs io rs s = (r, s')" by (cases "persistMatchLogs io rs s")
  have "r = None" using P logs_again [OF assms] by (auto simp: persistMatchLogs_def split: if_splits)
  then show ?thesis using that P keepsD(1) [OF io_grows grows_refl P] by blast
qed

lemma events_persist:
  assumes "calm s" "sound s" "saved_events vs s"
  obtains s' where "persistOrderEvents io vs s = (None, s')" "grows s s'"
proof -
  obtain r s' where P: "persistOrderEvents io vs s = (r, s')" by (cases "persistOrderEvents io vs s")
  have "r = None" using P events_again [OF assms] by (auto simp: persistOrderEvents_def split: if_splits)
  then show ?thesis using that P keepsD(2) [OF io_grows grows_refl P] by blast
qed

lemma command_persisted:
  assumes "apply_and_persist H io w c s = (None, w', s')"
  shows "command_saved H (fst (held s')) (snd (held s')) w c \<and> rebuild H w [c] = Some w'"
proof -
  obtain r book s1 where A: "applyCommand H io w c s = (r, book, s1)" by (cases "applyCommand H io w c s")
  then obtain events where r: "r = Inr events" "persistOrderEvents io events s1 = (None, s')" "w' = w\<lparr>wOrderBook := book\<rparr>"
    using assms by (auto simp: apply_and_persist_def split: sum.splits prod.splits)
  note S = applied_settles [OF A [unfolded r(1)]]
  have "grows s1 s'" using keepsD(2) [OF io_grows grows_refl r(2)] .
  then show ?thesis
    using S logs_persisted [OF S(2)] events_persisted [OF r(2)] saved_logs_grows applied_rebuilds [OF A [unfolded r(1)]] r(3)
    by (simp add: command_saved_def del: rebuild.simps)
qed

lemma command_persists:
  assumes "command_saved H (fst (held s)) (snd (held s)) w c" "rebuild H w [c] = Some w'" "calm s" "sound s"
  obtains s' where "apply_and_persist H io w c s = (None, w', s')" "grows s s'"
proof -
  obtain events book u where Q: "applyCommand H quiet_io w c () = (Inr events, book, u)" "w' = w\<lparr>wOrderBook := book\<rparr>"
    using assms(2) by (auto simp: apply_and_persist_def split: prod.splits sum.splits)
  have saved: "saved_logs (command_logs H w c) s" "saved_events events s"
    using assms(1) Q(1) by (simp_all add: command_saved_def command_events_def)
  obtain s1 where s1: "persistMatchLogs io (command_logs H w c) s = (None, s1)" "grows s s1"
    using logs_persist [OF assms(3,4) saved(1)] .
  have A: "applyCommand H io w c s = (Inr events, book, s1)"
    using applyCommand_settles [OF Q(1), of io s] s1(1) by (simp add: settles_def)
  obtain s2 where s2: "persistOrderEvents io events s1 = (None, s2)" "grows s1 s2"
    using events_persist calm_grows [OF s1(2) assms(3)] sound_grows [OF s1(2) assms(4)]
      saved_events_grows [OF s1(2) saved(2)] .
  show ?thesis
    using that [of s2] A s2 Q(2) grows_trans [OF s1(2) s2(2)] by (simp add: apply_and_persist_def)
qed

text \<open>A replay saves what its commands save; where that is saved and nothing fails, it returns no error.\<close>

lemma replay_saves:
  assumes "replay_from H io i lastSequence cs y = (r, y')"
  shows "grows (yWorld y) (yWorld y') \<and>
    (r = None \<longrightarrow> rebuild H (yWorker y) cs = Some (yWorker y') \<and>
      history_saved H (fst (held (yWorld y'))) (snd (held (yWorld y'))) (yWorker y) cs)"
  using assms
proof (induction cs arbitrary: i lastSequence y)
  case (Cons c cs)
  obtain err w s where A: "apply_and_persist H io (yWorker y) c (yWorld y) = (err, w, s)"
    by (cases "apply_and_persist H io (yWorker y) c (yWorld y)")
  have g: "grows (yWorld y) s" by (rule apply_keep [OF io_grows grows_refl A])
  let ?y = "y\<lparr>yWorker := w, yWorld := s\<rparr>"
  consider "y' = y\<lparr>yState := yState y'\<rparr>" "r \<noteq> None" | "yWorld y' = s" "r \<noteq> None"
    | "err = None" "replay_from H io (i + 1) (jSequence c) cs ?y = (r, y')"
    using Cons.prems A by (auto simp: Let_def split: if_splits option.splits)
  then show ?case
  proof cases
    case 1
    then have "yWorld y' = yWorld y" by (metis sys.select_convs(3) sys.surjective sys.update_convs(2))
    then show ?thesis using 1 grows_refl by (auto simp del: rebuild.simps history_saved.simps)
  next
    case 2
    then show ?thesis using g by (auto simp del: rebuild.simps history_saved.simps)
  next
    case 3
    have i: "grows s (yWorld y')" "r = None \<Longrightarrow> rebuild H w cs = Some (yWorker y')"
      "r = None \<Longrightarrow> history_saved H (fst (held (yWorld y'))) (snd (held (yWorld y'))) w cs"
      using Cons.IH [OF 3(2)] by simp_all
    have c: "command_saved H (fst (held (yWorld y'))) (snd (held (yWorld y'))) (yWorker y) c" "rebuild H (yWorker y) [c] = Some w"
      using command_persisted [OF A [unfolded 3(1)]] held_grows [OF i(1)]
      by (auto simp: command_saved_def simp del: rebuild.simps split: option.splits)
    then show ?thesis
      using i grows_trans [OF g i(1)] rebuild_Cons [of H "yWorker y" c cs] by (simp del: rebuild.simps)
  qed
qed (simp add: grows_refl)

lemma replay_succeeds:
  assumes "rebuild H (yWorker y) cs = Some w" "history_saved H (fst (held (yWorld y))) (snd (held (yWorld y))) (yWorker y) cs"
    "calm (yWorld y)" "sound (yWorld y)" "\<forall>c \<in> set cs. jTicker c = wTicker (yWorker y) \<and> lastSequence < jSequence c"
    "sorted_wrt (\<lambda>c d. jSequence c < jSequence d) cs"
  shows "\<exists>y'. replay_from H io i lastSequence cs y = (None, y')"
  using assms
proof (induction cs arbitrary: i lastSequence y)
  case (Cons c cs)
  obtain v where v: "rebuild H (yWorker y) [c] = Some v" "rebuild H v cs = Some w"
    using Cons.prems(1) rebuild_Cons [of H "yWorker y" c cs] by (auto split: option.splits)
  have saved: "command_saved H (fst (held (yWorld y))) (snd (held (yWorld y))) (yWorker y) c"
    "history_saved H (fst (held (yWorld y))) (snd (held (yWorld y))) v cs"
    using Cons.prems(2) v(1) by (simp_all del: rebuild.simps)
  obtain s where s: "apply_and_persist H io (yWorker y) c (yWorld y) = (None, v, s)" "grows (yWorld y) s"
    using command_persists [OF saved(1) v(1) Cons.prems(3,4)] .
  have "\<exists>y'. replay_from H io (i + 1) (jSequence c) cs (y\<lparr>yWorker := v, yWorld := s\<rparr>) = (None, y')"
  proof (rule Cons.IH)
    show "history_saved H (fst (held (yWorld (y\<lparr>yWorker := v, yWorld := s\<rparr>))))
        (snd (held (yWorld (y\<lparr>yWorker := v, yWorld := s\<rparr>)))) (yWorker (y\<lparr>yWorker := v, yWorld := s\<rparr>)) cs"
      using history_saved_mono [OF saved(2), of "fst (held s)" "snd (held s)"] held_grows [OF s(2)] by simp
    show "\<forall>d \<in> set cs. jTicker d = wTicker (yWorker (y\<lparr>yWorker := v, yWorld := s\<rparr>)) \<and> jSequence c < jSequence d"
      using Cons.prems(5,6) rebuild_fields [OF v(1)] by simp
  qed (use v(2) calm_grows [OF s(2) Cons.prems(3)] sound_grows [OF s(2) Cons.prems(4)] Cons.prems(6) in simp_all)
  then show ?case using Cons.prems(5) s(1) by (simp add: not_le)
qed simp

section \<open>Starting\<close>

abbreviation ready ::
  "digest \<Rightarrow> Command list \<Rightarrow> (string \<Rightarrow> Precision option) \<Rightarrow> 's \<Rightarrow> string \<Rightarrow> BookWorker \<Rightarrow> bool" where
  "ready H L M s t w \<equiv> worker_ok H (held s) L M True t w Idle"

lemma ready_grows: "ready H L M s t w \<Longrightarrow> grows s s' \<Longrightarrow> ready H L M s' t w"
  by (rule worker_ok_mono) (use held_grows in auto)

lemma ready_unique: "ready H L M s t w \<Longrightarrow> ready H L M s' t w' \<Longrightarrow> w = w'"
  by (simp add: worker_ok_def in_phase_def caught_up_def)

text \<open>Registering a ticker: its worker, if there is one, has caught up with the commands read.\<close>

lemma register_served:
  assumes log: "log L (gWorld g)" and mk: "mk M (gWorld g)"
    and q: "qTicker q = t" "M t = Some (qPrecision q)" and cs: "of_ticker t cs = of_ticker t L"
    and R: "registerTicker H st q (commands_of t cs) g = (err, g')"
  shows "log L (gWorld g') \<and> mk M (gWorld g') \<and> grows (gWorld g) (gWorld g') \<and> gState g' = gState g \<and>
    gClosed g' = gClosed g \<and>
    (if err = None
     then \<exists>w. gWorkers g t = None \<and> gWorkers g' = (gWorkers g)(t := Some w) \<and> ready H L M (gWorld g') t w
     else gWorkers g' = gWorkers g)"
proof (cases "t = []")
  case True
  then have "g' = g" "err \<noteq> None" using R q(1) by (auto simp: registerTicker_def)
  then show ?thesis using log mk grows_refl by auto
next
  case False
  let ?y = "\<lparr>yWorker = fresh_worker t (qPrecision q), yState = NewEngineState, yWorld = gWorld g\<rparr>"
  obtain e y where P: "Replay H io (of_ticker t L) ?y = (e, y)"
    by (cases "Replay H io (of_ticker t L) ?y")
  have kept: "log L (yWorld y)" "mk M (yWorld y)"
    using replay_keep [OF io_log, of L ?y] replay_keep [OF io_mk, of M ?y] log mk P
    by (auto simp: Replay_def)
  have g: "grows (gWorld g) (yWorld y)" and S: "e = None \<Longrightarrow>
      rebuild H (fresh_worker t (qPrecision q)) (of_ticker t L) = Some (yWorker y) \<and>
      history_saved H (fst (held (yWorld y))) (snd (held (yWorld y))) (fresh_worker t (qPrecision q)) (of_ticker t L)"
    using replay_saves [OF P [unfolded Replay_def]] by simp_all
  have cs': "commands_of t cs = of_ticker t L" using cs by (simp add: commands_of_def of_ticker_def)
  note R' = R [unfolded registerTicker_def q(1) Let_def world_io cs' P prod.case]
  show ?thesis
  proof (cases e)
    case None
    have p: "WithDefaults (qPrecision q) = qPrecision q" using mk_default [OF mk q(2)] .
    have w: "wTicker (yWorker y) = t" "wPrecision (yWorker y) = qPrecision q"
      using rebuild_fields [OF conjunct1 [OF S [OF None]]] p by simp_all
    then have "ready H L M (yWorld y) t (yWorker y)"
      using S [OF None] q(2) by (simp add: worker_ok_def in_phase_def caught_up_def)
    moreover have "(err, g') = Register t (Some (yWorker y)) (g\<lparr>gWorld := yWorld y\<rparr>)"
      using R' None False by simp
    ultimately consider "err = None" "gWorkers g t = None" "g' = g\<lparr>gWorld := yWorld y, gWorkers := (gWorkers g)(t := Some (yWorker y))\<rparr>"
      | "err \<noteq> None" "g' = g\<lparr>gWorld := yWorld y\<rparr>"
      by (auto simp: Register_def split: if_splits)
    then show ?thesis
    proof cases
      case 1
      then show ?thesis
        using kept g \<open>ready H L M (yWorld y) t (yWorker y)\<close> by (auto intro: exI [of _ "yWorker y"])
    qed (use kept g in auto)
  next
    case (Some e)
    then have "g' = g\<lparr>gWorld := yWorld y\<rparr>" "err \<noteq> None" using R' False by auto
    then show ?thesis using kept g by auto
  qed
qed

lemma register_succeeds:
  assumes "calm (gWorld g)" "sound (gWorld g)" "log L (gWorld g)" "qTicker q = t" "t \<noteq> []" "gWorkers g t = None" "\<not> gClosed g"
    and cs: "of_ticker t cs = of_ticker t L" and w: "caught_up H (held (gWorld g)) t (qPrecision q) (of_ticker t L) w"
  shows "fst (registerTicker H st q (commands_of t cs) g) = None"
proof -
  let ?y = "\<lparr>yWorker = fresh_worker t (qPrecision q), yState = NewEngineState, yWorld = gWorld g\<rparr>"
  have own: "\<forall>c \<in> set (of_ticker t L). jTicker c = t \<and> 0 < jSequence c"
    using log_stored [OF assms(3)] by (auto simp: of_ticker_def stored_command_def)
  obtain y where P: "Replay H io (of_ticker t L) ?y = (None, y)"
    using replay_succeeds [of H ?y "of_ticker t L" w 0 0] w assms(1,2) own sequenced_ticker [OF log_sequenced [OF assms(3)]]
    by (auto simp: Replay_def caught_up_def)
  have "commands_of t cs = of_ticker t L" using cs by (simp add: commands_of_def of_ticker_def)
  then show ?thesis using P assms(4-7) by (simp add: registerTicker_def world_io Register_def)
qed

lemma restore_served:
  assumes "log L (gWorld g)" "mk M (gWorld g)"
    "\<And>t q. (t, q) \<in> set known \<Longrightarrow> qTicker q = t \<and> M t = Some (qPrecision q)"
    "\<And>t. of_ticker t cs = of_ticker t L" "restore_tickers H st cs known g = (err, g')"
    "\<And>t w. gWorkers g t = Some w \<Longrightarrow> ready H L M (gWorld g) t w"
  shows "log L (gWorld g') \<and> mk M (gWorld g') \<and> grows (gWorld g) (gWorld g') \<and> gState g' = gState g \<and>
    gWorkers g \<subseteq>\<^sub>m gWorkers g' \<and> (\<forall>t w. gWorkers g' t = Some w \<longrightarrow> ready H L M (gWorld g') t w) \<and>
    (err = None \<longrightarrow> (\<forall>t \<in> fst ` set known. gWorkers g' t \<noteq> None))"
  using assms(1-3,5,6)
proof (induction known arbitrary: g)
  case Nil
  then show ?case using grows_refl by (auto simp: map_le_def)
next
  case (Cons k known)
  obtain t q where k: "k = (t, q)" by (cases k)
  obtain e g1 where R: "registerTicker H st q (commands_of t cs) g = (e, g1)"
    by (cases "registerTicker H st q (commands_of t cs) g")
  have "qTicker q = t" "M t = Some (qPrecision q)" using Cons.prems(3) [of t q] k by auto
  note r = register_served [OF Cons.prems(1,2) this assms(4) R]
  have g: "log L (gWorld g1)" "mk M (gWorld g1)" "grows (gWorld g) (gWorld g1)" "gState g1 = gState g"
    using r by blast+
  have old: "ready H L M (gWorld g1) s x" if "gWorkers g s = Some x" for s x
    using ready_grows [OF Cons.prems(5) [OF that] g(3)] .
  show ?case
  proof (cases e)
    case None
    then obtain w where w: "gWorkers g t = None" "gWorkers g1 = (gWorkers g)(t := Some w)" "ready H L M (gWorld g1) t w"
      using r by auto
    have R': "restore_tickers H st cs known g1 = (err, g')" using Cons.prems(4) k R None by simp
    have "ready H L M (gWorld g1) s x" if "gWorkers g1 s = Some x" for s x
      using that w(2,3) old by (cases "s = t") simp_all
    note i = Cons.IH [OF g(1,2) _ R' this]
    have i: "log L (gWorld g') \<and> mk M (gWorld g') \<and> grows (gWorld g1) (gWorld g') \<and> gState g' = gState g1 \<and>
      gWorkers g1 \<subseteq>\<^sub>m gWorkers g' \<and> (\<forall>t w. gWorkers g' t = Some w \<longrightarrow> ready H L M (gWorld g') t w) \<and>
      (err = None \<longrightarrow> (\<forall>t \<in> fst ` set known. gWorkers g' t \<noteq> None))"
      by (rule i) (use Cons.prems(3) in auto)
    have m: "gWorkers g \<subseteq>\<^sub>m gWorkers g1" using w(1,2) by (auto simp: map_le_def)
    have "gWorkers g' t = Some w" using i w(2) unfolding map_le_def by (metis domI fun_upd_same)
    then have "err = None \<longrightarrow> (\<forall>t \<in> fst ` set (k # known). gWorkers g' t \<noteq> None)" using i by (simp add: k)
    moreover have "gWorkers g \<subseteq>\<^sub>m gWorkers g'" using map_le_trans [OF m] i by blast
    moreover have "grows (gWorld g) (gWorld g')" using grows_trans [OF g(3)] i by blast
    ultimately show ?thesis using i g(4) by simp
  next
    case (Some e1)
    then have "g' = g1" "err \<noteq> None" using Cons.prems(4) k R by auto
    moreover have "gWorkers g1 = gWorkers g" using r Some by simp
    ultimately show ?thesis using g old by auto
  qed
qed

lemma restore_succeeds:
  assumes "log L (gWorld g)" "mk M (gWorld g)" "calm (gWorld g)" "sound (gWorld g)" "\<not> gClosed g"
    "\<And>t q. (t, q) \<in> set known \<Longrightarrow> qTicker q = t \<and> M t = Some (qPrecision q) \<and> gWorkers g t = None \<and>
      (\<exists>w. caught_up H (held (gWorld g)) t (qPrecision q) (of_ticker t L) w)"
    "distinct (map fst known)" "\<And>t. of_ticker t cs = of_ticker t L"
  shows "fst (restore_tickers H st cs known g) = None"
  using assms(1-7)
proof (induction known arbitrary: g)
  case (Cons k known)
  obtain t q where k: "k = (t, q)" by (cases k)
  obtain e g1 where R: "registerTicker H st q (commands_of t cs) g = (e, g1)"
    by (cases "registerTicker H st q (commands_of t cs) g")
  have q: "qTicker q = t" "M t = Some (qPrecision q)" "gWorkers g t = None"
    using Cons.prems(6) [of t q] k by auto
  obtain w where w: "caught_up H (held (gWorld g)) t (qPrecision q) (of_ticker t L) w"
    using Cons.prems(6) [of t q] k by auto
  have "t \<noteq> []" using named [OF Cons.prems(4,2)] q(2) by (metis domI)
  then have e: "e = None"
    using register_succeeds [OF Cons.prems(3,4,1) q(1) _ q(3) Cons.prems(5) assms(8) w] R by simp
  note r = register_served [OF Cons.prems(1,2) q(1,2) assms(8) R]
  then have g: "log L (gWorld g1)" "mk M (gWorld g1)" "grows (gWorld g) (gWorld g1)" "gClosed g1 = gClosed g"
    by blast+
  obtain x where x: "gWorkers g1 = (gWorkers g)(t := Some x)" using r e by auto
  have "fst (restore_tickers H st cs known g1) = None"
  proof (rule Cons.IH)
    fix s p assume p: "(s, p) \<in> set known"
    then have "s \<noteq> t" using Cons.prems(7) k by (auto dest: in_set_zipE image_eqI simp: rev_image_eqI)
    moreover obtain v where "caught_up H (held (gWorld g)) s (qPrecision p) (of_ticker s L) v"
      using Cons.prems(6) [of s p] p by auto
    then have "caught_up H (held (gWorld g1)) s (qPrecision p) (of_ticker s L) v"
      by (rule caught_up_mono) (rule held_grows [OF g(3)])
    ultimately show "qTicker p = s \<and> M s = Some (qPrecision p) \<and> gWorkers g1 s = None \<and>
      (\<exists>w. caught_up H (held (gWorld g1)) s (qPrecision p) (of_ticker s L) w)"
      using Cons.prems(6) [of s p] p x by auto
  qed (use g calm_grows sound_grows Cons.prems in auto)
  then show ?case using R e k by simp
qed simp

text \<open>Starting: the tickers of a consistent journal are listed, so no market is added.\<close>

lemma add_journal_known:
  "\<forall>c \<in> set cs. map_of known (jTicker c) \<noteq> None \<Longrightarrow>
   add_journal_tickers add cs known s = (Inr known, s)"
  by (induction cs) auto

text \<open>What a start reads before it restores the tickers.\<close>

lemma start_reads:
  assumes log: "log L s" and mk: "mk M s" and listed: "listed_tickers M L"
  obtains (failed) err s' where "startEngine H st s = Inl (err, s')" "log L s'" "mk M s'" "grows s s'" "\<not> (calm s \<and> sound s)"
  | (read) known cs s2 where "log L s2" "mk M s2" "grows s s2" "distinct (map fst known)" "fst ` set known = dom M"
      "\<And>t q. (t, q) \<in> set known \<Longrightarrow> qTicker q = t \<and> M t = Some (qPrecision q)" "\<And>t. of_ticker t cs = of_ticker t L"
      "startEngine H st s = (case restore_tickers H st cs known (NewRouter s2) of
         (Some e, g) \<Rightarrow> Inl (e, gWorld g) | (None, g) \<Rightarrow> Inr g)"
proof -
  obtain ls s1 where ls: "markets s = (ls, s1)" by (cases "markets s")
  have 1: "log L s1" "mk M s1" using markets_log [OF log ls] markets_mk [OF mk ls] by simp_all
  obtain cs s2 where cs: "read s1 = (cs, s2)" by (cases "read s1")
  have 2: "mk M s2" using read_mk [OF 1(2) cs] .
  have 3: "log L s2" using read_keeps [OF 1(1) cs] .
  have g: "grows s s1" "grows s s2" using markets_grows [OF ls] read_grows [OF cs] grows_trans by blast+
  show ?thesis
  proof (cases "\<exists>qs commands. ls = Inr qs \<and> cs = Inr commands")
    case False
    have "\<not> (calm s \<and> sound s)"
      using False markets_answer [of s] read_answers [OF calm_grows [OF g(1)] 1(1)] ls cs by auto
    then show ?thesis using False ls cs 1 2 3 g failed by (cases ls; cases cs) (simp_all add: startEngine_def)
  next
    case True
    then obtain qs commands where ok: "ls = Inr qs" "cs = Inr commands" by blast
    have q: "distinct (map qTicker qs)" "map_of (map (\<lambda>q. (qTicker q, qPrecision q)) qs) = M"
      using markets_mk [OF mk ls] ok(1) by simp_all
    define known where "known = AList.clearjunk (rev (map (\<lambda>q. (qTicker q, q)) qs))"
    have d: "distinct (map fst (rev (map (\<lambda>q. (qTicker q, q)) qs)))"
      using q(1) by (simp add: rev_map [symmetric] o_def)
    then have known: "known = rev (map (\<lambda>q. (qTicker q, q)) qs)"
      unfolding known_def by (rule distinct_clearjunk_id)
    have dom: "fst ` set known = dom M"
      by (auto simp: known q(2) [symmetric] dom_map_of_conv_image_fst image_image)
    have pair: "qTicker q = t \<and> M t = Some (qPrecision q)" if "(t, q) \<in> set known" for t q
      using that q by (auto simp: known q(2) [symmetric] o_def intro!: map_of_is_SomeI)
    have same: "of_ticker t commands = of_ticker t L" for t
      using read_commands [OF 1(1) cs [unfolded ok(2)]] by blast
    have "c \<in> set L" if "c \<in> set commands" for c
    proof -
      have "c \<in> set (of_ticker (jTicker c) commands)" using that by (simp add: of_ticker_def)
      then show ?thesis unfolding same by (simp add: of_ticker_def)
    qed
    then have "map_of known (jTicker c) \<noteq> None" if "c \<in> set commands" for c
      using that listed dom by (auto simp: listed_tickers_def map_of_eq_None_iff)
    then have add: "add_journal_tickers addMarket commands known s2 = (Inr known, s2)"
      by (intro add_journal_known) blast
    have "distinct (map fst known)" using d known by simp
    then have sorted: "distinct (map fst (sort_key fst known))" by (simp add: distinct_map)
    have "startEngine H st s = (case restore_tickers H st commands (sort_key fst known) (NewRouter s2) of
         (Some e, g) \<Rightarrow> Inl (e, gWorld g) | (None, g) \<Rightarrow> Inr g)"
      using add by (simp add: startEngine_def ls cs ok known_def)
    then show ?thesis using read [OF 3 2 g(2) sorted _ _ same] dom pair by simp
  qed
qed

lemma NewRouter_simps [simp]:
  "gWorld (NewRouter s) = s" "gWorkers (NewRouter s) = Map.empty" "gState (NewRouter s) = NewEngineState"
  "\<not> gClosed (NewRouter s)"
  by (simp_all add: NewRouter_def)

lemma start_served:
  assumes "log L s" "mk M s" "listed_tickers M L"
  shows "case startEngine H st s of
      Inl (err, s') \<Rightarrow> log L s' \<and> mk M s' \<and> grows s s'
    | Inr g \<Rightarrow> log L (gWorld g) \<and> mk M (gWorld g) \<and> grows s (gWorld g) \<and> gState g = NewEngineState \<and>
        dom (gWorkers g) = dom M \<and> (\<forall>t w. gWorkers g t = Some w \<longrightarrow> ready H L M (gWorld g) t w)"
  using assms
proof (cases rule: start_reads [where H = H])
  case (read known cs s2)
  obtain err g where R: "restore_tickers H st cs known (NewRouter s2) = (err, g)"
    by (cases "restore_tickers H st cs known (NewRouter s2)")
  have r: "log L (gWorld g) \<and> mk M (gWorld g) \<and> grows s2 (gWorld g) \<and> gState g = NewEngineState \<and>
    (\<forall>t w. gWorkers g t = Some w \<longrightarrow> ready H L M (gWorld g) t w) \<and>
    (err = None \<longrightarrow> (\<forall>t \<in> dom M. gWorkers g t \<noteq> None))"
    using restore_served [of L "NewRouter s2" M known cs H err g] R read by simp
  have "grows s (gWorld g)" using grows_trans [OF read(3)] r by blast
  moreover have "dom (gWorkers g) = dom M" if "err = None" using r that worker_okD(2) by fastforce
  ultimately show ?thesis using r read(8) R by (cases err) simp_all
qed simp

text \<open>A start succeeds on stores that do not fail and that hold what its commands save.\<close>

lemma start_succeeds:
  assumes "log L s" "mk M s" "listed_tickers M L" "calm s" "sound s"
    "\<And>t p. M t = Some p \<Longrightarrow> \<exists>w. caught_up H (held s) t p (of_ticker t L) w"
  shows "\<exists>g. startEngine H st s = Inr g"
  using assms(1-3)
proof (cases rule: start_reads [where H = H])
  case (read known cs s2)
  have "fst (restore_tickers H st cs known (NewRouter s2)) = None"
  proof (rule restore_succeeds [where L = L and M = M])
    fix t q assume q: "(t, q) \<in> set known"
    obtain w where "caught_up H (held s) t (qPrecision q) (of_ticker t L) w"
      using assms(6) read(6) [OF q] by blast
    then have "caught_up H (held s2) t (qPrecision q) (of_ticker t L) w"
      by (rule caught_up_mono) (rule held_grows [OF read(3)])
    then show "qTicker q = t \<and> M t = Some (qPrecision q) \<and> gWorkers (NewRouter s2) t = None \<and>
      (\<exists>w. caught_up H (held (gWorld (NewRouter s2))) t (qPrecision q) (of_ticker t L) w)"
      using read(6) [OF q] by auto
  qed (use read calm_grows sound_grows assms(4,5) in auto)
  then show ?thesis using read(8) by (cases "restore_tickers H st cs known (NewRouter s2)") simp
qed (use assms(4,5) in blast)

section \<open>Steps\<close>

text \<open>
  A worker's step: its new commands are its own, it is in the phase it reached, and nothing
  changed for the others.
\<close>

lemma put_worker_served:
  assumes I: "mk M (yWorld y)" "listed_tickers M L" "workers_of H (held (wd n)) L M n" "sound (wd n)"
    and grows: "grows (wd n) (yWorld y)"
    and w: "gWorkers (nRouter n) t = Some w"
    and new: "log (L @ new) (yWorld y)" "\<forall>c \<in> set new. jTicker c = t"
    and live: "running (yState y) \<longrightarrow> running (gState (nRouter n))"
    and ok: "worker_ok H (held (yWorld y)) (L @ new) M (running (yState y)) t (yWorker y) p"
  shows "serving H (put_worker t (r, p, y) n)"
proof (rule servedI [where L = "L @ new" and M = M])
  show "listed_tickers M (L @ new)"
    using I(2) new(2) worker_okD(2) [OF ok] by (auto simp: listed_tickers_def)
  show "workers_of H (held (wd (put_worker t (r, p, y) n))) (L @ new) M (put_worker t (r, p, y) n)"
  proof (rule workers_ofI; unfold put_worker_simps)
    fix s x assume x: "((gWorkers (nRouter n))(t \<mapsto> yWorker y)) s = Some x"
    show "worker_ok H (held (yWorld y)) (L @ new) M (running (yState y)) s x (((nPhase n)(t := p)) s)"
    proof (cases "s = t")
      case False
      then have "worker_ok H (held (wd n)) L M (running (gState (nRouter n))) s x (nPhase n s)"
        using x workers_ofD(1) [OF I(3)] by simp
      then have "worker_ok H (held (yWorld y)) (L @ new) M (running (yState y)) s x (nPhase n s)"
        by (rule worker_ok_mono [OF _ _ _ live held_grows [OF grows]])
          (use of_ticker_own(2) [OF new(2) False] in simp_all)
      then show ?thesis using False by simp
    qed (use x ok in simp)
  next
    fix s assume "((gWorkers (nRouter n))(t \<mapsto> yWorker y)) s = None"
    then have "s \<noteq> t" "gWorkers (nRouter n) s = None" by (auto split: if_splits)
    then show "((nPhase n)(t := p)) s = Idle \<and> of_ticker s (L @ new) = []"
      using workers_ofD(2) [OF I(3)] of_ticker_own(2) [OF new(2)] by simp
  qed
qed (simp_all add: I(1) new(1) sound_grows [OF grows I(4)])

lemma journal_event_grows:
  assumes "journal_event io ev y = (r, p, y')"
  shows "grows (yWorld y) (yWorld y')"
proof -
  have "yWorld y' = yWorld y \<or> (\<exists>c a. append c (yWorld y) = (a, yWorld y'))"
    using assms by (auto simp: journal_event_def answer_def Let_def halt_ack_def
        split: if_splits option.splits prod.splits sum.splits)
  then show ?thesis using append_grows grows_refl by auto
qed

lemma take_event_served:
  assumes served: "serving H n" and w: "gWorkers (nRouter n) t = Some w" "nPhase n t = Idle"
    and ev: "wire_event ev"
  shows "serving H (put_worker t (journal_event io ev (worker_sys w (nRouter n))) n)"
proof -
  obtain L M where I: "log L (wd n)" "mk M (wd n)" "listed_tickers M L" "workers_of H (held (wd n)) L M n" "sound (wd n)"
    using served by (rule servedE)
  obtain r p y where E: "journal_event io ev (worker_sys w (nRouter n)) = (r, p, y)"
    by (cases "journal_event io ev (worker_sys w (nRouter n))")
  note ok = workers_ofD(1) [OF I(4) w(1), unfolded w(2)]
  have grows: "grows (wd n) (yWorld y)" using journal_event_grows [OF E] by simp
  obtain new where new: "yWorker y = w" "mk M (yWorld y)" "log (L @ new) (yWorld y)" "\<forall>c \<in> set new. jTicker c = t"
    "running (yState y) \<longrightarrow> running (gState (nRouter n)) \<and> (p = Idle \<and> new = [] \<or> (\<exists>c. p = Journalled c \<and> new = [c]))"
    using journal_event_log [of L "worker_sys w (nRouter n)" M ev r p y] I(1,2) ev E worker_okD(1) [OF ok] by auto
  have "worker_ok H (held (yWorld y)) (L @ new) M (running (yState y)) t (yWorker y) p"
  proof (rule worker_okI)
    assume live: "running (yState y)"
    then have "in_phase H (held (wd n)) L t w Idle" using new(5) worker_okD(3) [OF ok] by blast
    then have "in_phase H (held (yWorld y)) L t w Idle" by (rule in_phase_mono) (use held_grows [OF grows] in simp_all)
    then show "in_phase H (held (yWorld y)) (L @ new) t (yWorker y) p"
      using new(1,4,5) live phase_journalled by auto
  qed (use worker_okD(1,2) [OF ok] new(1) in simp_all)
  then show ?thesis
    unfolding E using new(5) by (intro put_worker_served [OF new(2) I(3-5) grows w(1) new(3,4)]) blast+
qed

lemma go_on_served:
  assumes served: "serving H n" and w: "gWorkers (nRouter n) t = Some w" "nPhase n t \<noteq> Idle"
  shows "serving H (put_worker t (continue_phase H io (nPhase n t) (worker_sys w (nRouter n))) n)"
proof -
  obtain L M where I: "log L (wd n)" "mk M (wd n)" "listed_tickers M L" "workers_of H (held (wd n)) L M n" "sound (wd n)"
    using served by (rule servedE)
  let ?y = "worker_sys w (nRouter n)"
  obtain r p y where E: "continue_phase H io (nPhase n t) ?y = (r, p, y)"
    by (cases "continue_phase H io (nPhase n t) ?y")
  note ok = workers_ofD(1) [OF I(4) w(1)]
  note W = worker_okD [OF ok]
  have I': "log L (yWorld ?y)" "mk M (yWorld ?y)" "grows (wd n) (yWorld ?y)" using I(1,2) grows_refl by simp_all
  have "log L (yWorld y) \<and> mk M (yWorld y) \<and> grows (wd n) (yWorld y) \<and>
    (running (yState y) \<longrightarrow> running (gState (nRouter n))) \<and> wTicker (yWorker y) = t \<and>
    wPrecision (yWorker y) = wPrecision w \<and> (running (yState y) \<longrightarrow> in_phase H (held (yWorld y)) L t (yWorker y) p)"
  proof (cases "nPhase n t")
    case (Journalled c)
    then have A: "apply_journalled H io c ?y = (r, p, y)" using E by (simp add: continue_phase_def)
    note k = apply_journalled_keep [OF io_log I'(1) A, simplified] apply_journalled_keep [OF io_mk I'(2) A, simplified]
      apply_journalled_keep [OF io_grows I'(3) A, simplified]
    have "in_phase H (held (yWorld y)) L t (yWorker y) p" if live: "running (yState y)"
    proof -
      obtain events book where C: "applyCommand H io w c (wd n) = (Inr events, book, yWorld y)"
        "p = Applied events" "yWorker y = w\<lparr>wOrderBook := book\<rparr>"
        using k(1) live by auto
      have "in_phase H (held (wd n)) L t w (Journalled c)" using k(1) live W(3) Journalled by auto
      then have "in_phase H (held (yWorld y)) L t w (Journalled c)"
        by (rule in_phase_mono) (use k(3) held_grows in auto)
      then show ?thesis
        using phase_applied applied_rebuilds [OF C(1)] applied_settles [OF C(1)] logs_persisted C(2,3) by simp
    qed
    then show ?thesis using k W(1) by blast
  next
    case (Applied events)
    then have A: "persist_applied io events ?y = (r, p, y)" using E by (simp add: continue_phase_def)
    note k = persist_applied_keep [OF io_log I'(1) A, simplified] persist_applied_keep [OF io_mk I'(2) A, simplified]
      persist_applied_keep [OF io_grows I'(3) A, simplified]
    have "in_phase H (held (yWorld y)) L t (yWorker y) p" if live: "running (yState y)"
    proof -
      have "in_phase H (held (wd n)) L t w (Applied events)" using k(1) live W(3) Applied by auto
      then have "in_phase H (held (yWorld y)) L t w (Applied events)"
        by (rule in_phase_mono) (use k(3) held_grows in auto)
      then show ?thesis using phase_persisted events_persisted [of events "wd n" "yWorld y"] k(1) live by auto
    qed
    then show ?thesis using k W(1) by auto
  qed (use w(2) in simp)
  then show ?thesis
    unfolding E using W(2)
    by (intro put_worker_served [where new = "[]", OF _ I(3-5) _ w(1)]) (auto intro: worker_okI)
qed

lemma AddTicker_changes:
  assumes log: "log L (gWorld g)" and mk: "mk M (gWorld g)" and A: "AddTicker H st t g = (r, g')"
  obtains M' where "log L (gWorld g')" "mk M' (gWorld g')" "M \<subseteq>\<^sub>m M'" "grows (gWorld g) (gWorld g')" "gState g' = gState g"
    "gWorkers g' = gWorkers g \<or> (\<exists>t w. gWorkers g t = None \<and>
       gWorkers g' = (gWorkers g)(t := Some w) \<and> ready H L M' (gWorld g') t w)"
proof -
  let ?t = "TrimSpace t"
  obtain added s1 where a: "addMarket ?t (gWorld g) = (added, s1)" by (cases "addMarket ?t (gWorld g)")
  obtain M' where M': "mk M' s1" "M \<subseteq>\<^sub>m M'" "\<And>a. added = Inr a \<Longrightarrow> qTicker (adMarket a) = ?t"
    "\<And>a. added = Inr a \<Longrightarrow> M' ?t = Some (qPrecision (adMarket a))"
    using add_mk [OF mk a] by auto
  have 1: "log L s1" using add_log [OF log a] .
  obtain cs s2 where c: "read s1 = (cs, s2)" by (cases "read s1")
  have 2: "mk M' s2" using read_mk [OF M'(1) c] .
  have 3: "log L s2" using read_keeps [OF 1 c] .
  have g1: "grows (gWorld g) s1" using add_grows [OF a] .
  have g2: "grows (gWorld g) s2" using grows_trans [OF g1 read_grows [OF c]] .
  let ?g2 = "g\<lparr>gWorld := s2\<rparr>"
  obtain e g3 where R: "registerTicker H st (adMarket (projr added)) (commands_of ?t (projr cs)) ?g2 = (e, g3)"
    by (cases "registerTicker H st (adMarket (projr added)) (commands_of ?t (projr cs)) ?g2")
  consider "g' = g" | "g' = g\<lparr>gWorld := s1\<rparr>" | "g' = ?g2"
    | a commands where "added = Inr a" "cs = Inr commands" "g' = g3"
    using A a c R by (auto simp: AddTicker_def Let_def split: if_splits option.splits sum.splits prod.splits)
  then show ?thesis
  proof cases
    case 1
    then show ?thesis using log mk grows_refl by (intro that [of M]) simp_all
  next
    case 2
    then show ?thesis using M' 1 g1 by (intro that [of M']) simp_all
  next
    case 3
    then show ?thesis using M' \<open>mk M' s2\<close> \<open>log L s2\<close> g2 by (intro that [of M']) simp_all
  next
    case (4 a commands)
    have "of_ticker ?t commands = of_ticker ?t L" using read_commands [OF 1 c [unfolded 4(2)]] by blast
    note register_served [where g = ?g2 and M = M' and L = L, OF _ _ M'(3) [OF 4(1)] M'(4) [OF 4(1)] this, of H e g3]
    then have "log L (gWorld g3)" "mk M' (gWorld g3)" "grows s2 (gWorld g3)" "gState g3 = gState g"
      "gWorkers g3 = gWorkers g \<or> (\<exists>t w. gWorkers g t = None \<and>
         gWorkers g3 = (gWorkers g)(t := Some w) \<and> ready H L M' (gWorld g3) t w)"
      using R 4 2 3 by (auto split: if_splits)
    then show ?thesis using that [OF _ _ M'(2) grows_trans [OF g2]] 4(3) by blast
  qed
qed

lemma ready_ok: "ready H L M s t w \<Longrightarrow> worker_ok H (held s) L M live t w Idle"
  by (simp add: worker_ok_def)

lemma add_ticker_served:
  assumes served: "serving H n" and A: "AddTicker H st t (nRouter n) = (r, g)"
  shows "serving H (n\<lparr>nRouter := g\<rparr>)"
proof -
  obtain L M where I: "log L (wd n)" "mk M (wd n)" "listed_tickers M L" "workers_of H (held (wd n)) L M n" "sound (wd n)"
    using served by (rule servedE)
  obtain M' where M': "log L (gWorld g)" "mk M' (gWorld g)" "M \<subseteq>\<^sub>m M'" "grows (wd n) (gWorld g)"
    "gState g = gState (nRouter n)"
    "gWorkers g = gWorkers (nRouter n) \<or> (\<exists>t w. gWorkers (nRouter n) t = None \<and>
       gWorkers g = (gWorkers (nRouter n))(t := Some w) \<and> ready H L M' (gWorld g) t w)"
    by (rule AddTicker_changes [OF I(1,2) A])
  have old: "worker_ok H (held (gWorld g)) L M' (running (gState g)) s x (nPhase n s)"
    if "gWorkers (nRouter n) s = Some x" for s x
    by (rule worker_ok_mono [OF workers_ofD(1) [OF I(4) that] _ M'(3) _ held_grows [OF M'(4)]]) (simp_all add: M'(5))
  have "workers_of H (held (gWorld g)) L M' (n\<lparr>nRouter := g\<rparr>)"
  proof (rule workers_ofI)
    fix s x assume "gWorkers (nRouter (n\<lparr>nRouter := g\<rparr>)) s = Some x"
    then consider "gWorkers (nRouter n) s = Some x" | "gWorkers (nRouter n) s = None" "ready H L M' (gWorld g) s x"
      using M'(6) by (auto split: if_splits)
    then show "worker_ok H (held (gWorld g)) L M' (running (gState (nRouter (n\<lparr>nRouter := g\<rparr>)))) s x
        (nPhase (n\<lparr>nRouter := g\<rparr>) s)"
    proof cases
      case 2
      then show ?thesis using ready_ok workers_ofD(2) [OF I(4)] by simp
    qed (use old in simp)
  next
    fix s assume "gWorkers (nRouter (n\<lparr>nRouter := g\<rparr>)) s = None"
    then have "gWorkers (nRouter n) s = None" using M'(6) by (auto split: if_splits)
    then show "nPhase (n\<lparr>nRouter := g\<rparr>) s = Idle \<and> of_ticker s L = []" using workers_ofD(2) [OF I(4)] by simp
  qed
  then show ?thesis
    using M'(1,2) listed_tickers_grow [OF I(3) M'(3)] sound_grows [OF M'(4) I(5)]
    by (intro servedI [where L = L and M = M']) simp_all
qed

lemma step_served:
  assumes "engine_step H st n n'" "serving H n"
  shows "serving H n'"
  using assms(1)
proof cases
  case (take_event t w ev)
  then show ?thesis using take_event_served [OF assms(2)] by (simp add: world_io)
next
  case (go_on t w)
  then show ?thesis using go_on_served [OF assms(2)] by (simp add: world_io)
next
  case (add_ticker t r g)
  then show ?thesis using add_ticker_served [OF assms(2)] by simp
next
  case (shut_down routerCtx matchCtx eventCtx errs g)
  then have g: "gWorkers g = gWorkers (nRouter n)" "gState g = gState (nRouter n)" "gWorld g = wd n"
    by (auto simp: runtime_shutdown_def Shutdown_def split: option.splits)
  obtain L M where I: "log L (wd n)" "mk M (wd n)" "listed_tickers M L" "workers_of H (held (wd n)) L M n" "sound (wd n)"
    using assms(2) by (rule servedE)
  have "workers_of H (held (wd n')) L M n'"
    by (rule workers_ofI) (use workers_ofD [OF I(4)] in \<open>simp_all add: shut_down(1) g\<close>)
  then show ?thesis using I by (intro servedI [where L = L and M = M]) (simp_all add: shut_down(1) g)
qed

text \<open>Nothing that is stored is lost by a step.\<close>

lemma step_grows:
  assumes "engine_step H st n n'" "serving H n"
  shows "grows (wd n) (wd n')"
  using assms(1)
proof cases
  case (take_event t w ev)
  obtain r p y where E: "journal_event io ev (worker_sys w (nRouter n)) = (r, p, y)"
    by (cases "journal_event io ev (worker_sys w (nRouter n))")
  then show ?thesis using journal_event_grows [OF E] take_event(1) by (simp add: world_io)
next
  case (go_on t w)
  let ?y = "worker_sys w (nRouter n)"
  obtain r p y where E: "continue_phase H io (nPhase n t) ?y = (r, p, y)"
    by (cases "continue_phase H io (nPhase n t) ?y")
  have refl: "grows (wd n) (yWorld ?y)" using grows_refl by simp
  have "grows (wd n) (yWorld y)"
    using E go_on(3) apply_journalled_keep [OF io_grows refl] persist_applied_keep [OF io_grows refl]
    by (cases "nPhase n t") (auto simp: continue_phase_def)
  then show ?thesis using E go_on(1) by (simp add: world_io)
next
  case (add_ticker t r g)
  obtain L M where I: "log L (wd n)" "mk M (wd n)" "listed_tickers M L" "workers_of H (held (wd n)) L M n" "sound (wd n)"
    using assms(2) by (rule servedE)
  show ?thesis using AddTicker_changes [OF I(1,2) add_ticker(2)] add_ticker(1) by auto
next
  case (shut_down routerCtx matchCtx eventCtx errs g)
  then show ?thesis using grows_refl by (auto simp: runtime_shutdown_def Shutdown_def split: option.splits)
qed

lemma steps_grow:
  assumes "(engine_step H st)\<^sup>*\<^sup>* n n'" "serving H n"
  shows "grows (wd n) (wd n')"
proof -
  have "grows (wd n) (wd n') \<and> serving H n'"
    using assms
  proof induction
    case (step m n')
    then show ?case using grows_trans step_grows step_served by blast
  qed (simp add: grows_refl)
  then show ?thesis by blast
qed

section \<open>Every life\<close>

lemma start_rest:
  assumes "log L (gWorld g)" "mk M (gWorld g)" "listed_tickers M L" "sound (gWorld g)" "dom (gWorkers g) = dom M"
    "\<And>t w. gWorkers g t = Some w \<Longrightarrow> ready H L M (gWorld g) t w"
  shows "serving H (at_rest g)"
proof (rule servedI [where L = L and M = M])
  show "workers_of H (held (wd (at_rest g))) L M (at_rest g)"
  proof (rule workers_ofI)
    fix t assume "gWorkers (nRouter (at_rest g)) t = None"
    then have "M t = None" using assms(5) by auto
    then have "of_ticker t L = []" using assms(3) by (auto simp: of_ticker_def listed_tickers_def filter_empty_conv)
    then show "nPhase (at_rest g) t = Idle \<and> of_ticker t L = []" by simp
  qed (use assms(6) ready_ok in simp)
qed (use assms(1-4) in simp_all)

lemma life_kept:
  assumes "engine_life H st init x" "\<And>s. init s \<Longrightarrow> consistent log mk sound s"
  shows "case x of Inl s \<Rightarrow> consistent log mk sound s | Inr n \<Rightarrow> serving H n"
  using assms(1)
proof induction
  case (life_init s)
  then show ?case using assms(2) by simp
next
  case (life_start s g)
  then obtain L M where I: "log L s" "mk M s" "listed_tickers M L" "sound s" by (auto elim: consistentE)
  have S: "log L (gWorld g)" "mk M (gWorld g)" "grows s (gWorld g)" "dom (gWorkers g) = dom M"
    "\<And>t w. gWorkers g t = Some w \<Longrightarrow> ready H L M (gWorld g) t w"
    using start_served [OF I(1-3), of H] life_start.hyps by simp_all
  have "serving H (at_rest g)" by (rule start_rest [OF S(1,2) I(3) sound_grows [OF S(3) I(4)] S(4,5)])
  then show ?case by simp
next
  case (life_refused s err s')
  then obtain L M where I: "log L s" "mk M s" "listed_tickers M L" "sound s" by (auto elim: consistentE)
  then show ?case
    using start_served [OF I(1-3), of H] life_refused.hyps sound_grows [of s s'] by (auto intro: consistentI)
next
  case (life_step n n')
  then show ?case using step_served [of H n n'] by simp
next
  case (life_stop n)
  then show ?case by (auto elim!: servedE intro: consistentI)
qed

text \<open>
  What a start makes of the stores an engine leaves, halted or not: each worker is what the log
  rebuilds. While the engine was not halted that is the worker as it was, but for the journalled
  command it had not applied, which the start applies.
\<close>

lemma restart_recovers:
  assumes "engine_life H st init (Inr n)" "\<And>s. init s \<Longrightarrow> consistent log mk sound s"
    "startEngine H st (wd n) = Inr g" "gWorkers (nRouter n) t = Some w"
  obtains L w' where "log L (wd n)" "gWorkers g t = Some w'"
    "rebuild H (fresh_worker t (wPrecision w)) (of_ticker t L) = Some w'"
    "running (gState (nRouter n)) \<Longrightarrow> (case nPhase n t of Journalled c \<Rightarrow> rebuild H w [c] = Some w' | _ \<Rightarrow> w' = w)"
proof -
  obtain L M where I: "log L (wd n)" "mk M (wd n)" "listed_tickers M L" "workers_of H (held (wd n)) L M n"
    using life_kept [OF assms(1,2)] by (auto elim: servedE)
  note W = worker_okD [OF workers_ofD(1) [OF I(4) assms(4)]]
  have S: "dom (gWorkers g) = dom M" "\<And>t w. gWorkers g t = Some w \<Longrightarrow> ready H L M (gWorld g) t w"
    using start_served [OF I(1-3), of H] assms(3) by simp_all
  obtain w' where w': "gWorkers g t = Some w'" using S(1) W(2) by blast
  note R = worker_okD [OF S(2) [OF w']]
  have p: "wPrecision w' = wPrecision w" using R(2) W(2) by simp
  have new: "rebuild H (fresh_worker t (wPrecision w)) (of_ticker t L) = Some w'"
    using R(3) p by (simp add: in_phase_def caught_up_def)
  have phase: "case nPhase n t of Journalled c \<Rightarrow> rebuild H w [c] = Some w' | _ \<Rightarrow> w' = w"
    if "running (gState (nRouter n))"
    using W(3) [OF that] new by (cases "nPhase n t")
      (auto simp: in_phase_def caught_up_def rebuild_append simp del: rebuild.simps split: option.splits)
  show ?thesis by (rule that [OF I(1) w' new phase])
qed

text \<open>A log whose commands do not rebuild a listed ticker's worker stops every start for good.\<close>

lemma never_starts:
  assumes "engine_life H st (\<lambda>s'. s' = s) x" "log L s" "mk M s" "listed_tickers M L"
    "M t = Some p" "rebuild H (fresh_worker t p) (of_ticker t L) = None"
  shows "\<exists>s'. x = Inl s' \<and> log L s' \<and> mk M s'"
  using assms(1)
proof induction
  case (life_init s')
  then show ?case using assms(2,3) by blast
next
  case (life_start s1 g)
  then have I: "log L s1" "mk M s1" by simp_all
  have S: "dom (gWorkers g) = dom M" "\<And>t w. gWorkers g t = Some w \<Longrightarrow> ready H L M (gWorld g) t w"
    using start_served [OF I assms(4), of H] life_start.hyps by simp_all
  obtain w where w: "gWorkers g t = Some w" using S(1) assms(5) by blast
  note R = worker_okD [OF S(2) [OF w]]
  have "wPrecision w = p" using R(2) assms(5) by simp
  then have "rebuild H (fresh_worker t p) (of_ticker t L) = Some w"
    using R(3) by (simp add: in_phase_def caught_up_def)
  then show ?case using assms(6) by simp
next
  case (life_refused s1 err s2)
  then have I: "log L s1" "mk M s1" by simp_all
  show ?case using start_served [OF I assms(4), of H] life_refused.hyps by simp
qed simp_all

text \<open>An engine that stopped with its workers idle starts again on stores that do not fail.\<close>

lemma restart_succeeds:
  assumes "engine_life H st init (Inr n)" "\<And>s. init s \<Longrightarrow> consistent log mk sound s"
    "running (gState (nRouter n))" "\<And>t. nPhase n t = Idle" "calm (wd n)"
  shows "\<exists>g. startEngine H st (wd n) = Inr g"
proof -
  obtain L M where I: "log L (wd n)" "mk M (wd n)" "listed_tickers M L" "workers_of H (held (wd n)) L M n" "sound (wd n)"
    using life_kept [OF assms(1,2)] by (auto elim: servedE)
  show ?thesis
  proof (rule start_succeeds [OF I(1-3) assms(5) I(5)])
    fix t p assume p: "M t = Some p"
    show "\<exists>w. caught_up H (held (wd n)) t p (of_ticker t L) w"
    proof (cases "gWorkers (nRouter n) t")
      case None
      then have "of_ticker t L = []" using workers_ofD(2) [OF I(4)] by blast
      then show ?thesis by (simp add: caught_up_def)
    next
      case (Some w)
      note W = worker_okD [OF workers_ofD(1) [OF I(4) Some]]
      have "in_phase H (held (wd n)) L t w Idle" using W(3) assms(3) assms(4) [of t] by simp
      moreover have "wPrecision w = p" using W(2) p by simp
      ultimately show ?thesis by (auto simp: in_phase_def)
    qed
  qed
qed

end

end
