(* ===== verification/Deployment.thy ===== *)
theory Deployment
  imports Restart Persistence
begin

text \<open>
  The engine on its PostgreSQL stores, as \<open>serve\<close> of \<^verbatim>\<open>cmd/server/main.go\<close> connects them, and the
  proof that they satisfy the contracts: saving executions and events leaves the journal and the
  markets alone, the journal and the markets do not touch each other's tables.
\<close>

definition postgres_stores :: "digest \<Rightarrow> Database stores" where
  "postgres_stores H =
     \<lparr>soMatch = Some (persist_request ErrMatchStoreUnavailable (Some SaveMatchLogs)),
      soAppend = Some Append, soCommands = List_journal, soMarket = Some AddMarket,
      soMarkets = List_markets,
      soEvents = Some (persist_request ErrEventStoreUnavailable (Some (SaveEvents H)))\<rparr>"

lemma postgres_world: "worker_world (postgres_stores H) = engine_io H"
  by (simp add: worker_world_def postgres_stores_def engine_io_def)

text \<open>The table of markets gives every ticker one precision.\<close>

definition row_market :: "MarketRow \<Rightarrow> string \<times> Precision" where
  "row_market r = (krTicker r, WithDefaults (krPrecision r))"

definition market_rows :: "(string \<Rightarrow> Precision option) \<Rightarrow> Database \<Rightarrow> bool" where
  "market_rows M db \<longleftrightarrow> distinct (map krTicker (dbMarkets db)) \<and> M = map_of (map row_market (dbMarkets db))"

lemma market_rows_cong: "dbMarkets db' = dbMarkets db \<Longrightarrow> market_rows M db' = market_rows M db"
  by (simp add: market_rows_def)

lemma journal_log_cong:
  "dbScript db' = dbScript db \<Longrightarrow> dbJournal db' = dbJournal db \<Longrightarrow> dbSequences db' = dbSequences db \<Longrightarrow>
   journal_log L db' = journal_log L db"
  by (simp add: journal_log_def honest_def)

lemma row_market_tickers: "map fst (map row_market rows) = map krTicker rows"
  by (simp add: row_market_def)

lemma row_market_find:
  "map_of (map row_market rows) t =
     (case find (\<lambda>r. krTicker r = t) rows of None \<Rightarrow> None | Some r \<Rightarrow> Some (WithDefaults (krPrecision r)))"
  by (induction rows) (auto simp: row_market_def)

section \<open>The saves touch neither the journal nor the markets\<close>

lemma persist_request_untouched:
  assumes "\<And>ls db r db'. save ls db = (r, db') \<Longrightarrow> untouched db db'"
    "persist_request e (Some save) ls db = (r, db')"
  shows "untouched db db'"
proof (cases "ls = []")
  case True
  then show ?thesis
    using assms(2) by (simp add: persist_request_def NewPersistenceRequest_def writer_handle_def Let_def)
qed (use assms persist_request_store [of ls e save] in simp)

lemma saves_untouched:
  "persist_request e (Some SaveMatchLogs) ls db = (r, db') \<Longrightarrow> untouched db db'"
  "persist_request e (Some (SaveEvents H)) vs db = (r, db') \<Longrightarrow> untouched db db'"
proof -
  have s: "SaveMatchLogs ls db = (r, db') \<Longrightarrow> untouched db db'"
    "SaveEvents H vs db = (r, db') \<Longrightarrow> untouched db db'" for ls vs db r db'
    unfolding SaveMatchLogs_def SaveEvents_def
    by (drule ml.save_batch_atomic, simp) (drule oe.save_batch_atomic, simp)
  show "persist_request e (Some SaveMatchLogs) ls db = (r, db') \<Longrightarrow> untouched db db'"
    "persist_request e (Some (SaveEvents H)) vs db = (r, db') \<Longrightarrow> untouched db db'"
    by (rule persist_request_untouched [OF s(1)], assumption+)
      (rule persist_request_untouched [OF s(2)], assumption+)
qed

lemma untouched_laws:
  "untouched db db' \<Longrightarrow> journal_log L db \<Longrightarrow> journal_log L db'"
  "untouched db db' \<Longrightarrow> market_rows M db \<Longrightarrow> market_rows M db'"
  using journal_log_cong [of db' db L] market_rows_cong [of db' db M] by (simp_all add: untouched_def)

section \<open>The journal does not touch the markets\<close>

lemma round_trip_markets:
  assumes "\<And>now d. dbMarkets (snd (f now d)) = dbMarkets d" "round_trip f db = (r, db')"
  shows "dbMarkets db' = dbMarkets db"
  using assms(2)
proof (cases rule: round_trip_cases)
  case (answered now)
  then show ?thesis using assms(1) [of now "tick db"] by simp
next
  case (lost now err)
  then show ?thesis using assms(1) [of now "tick db"] by simp
qed simp

lemma journal_queries_markets:
  "dbMarkets (snd (CreateOrderJournalEntry i t k p v now d)) = dbMarkets d"
  "dbMarkets (snd (GetOrderJournalEntry i now d)) = dbMarkets d"
  "dbMarkets (snd (ListOrderJournalEntries now d)) = dbMarkets d"
  by (simp_all add: CreateOrderJournalEntry_def GetOrderJournalEntry_def ListOrderJournalEntries_def Let_def
      split: option.split)

lemma existing_entry_markets: "existing_entry c db = (r, db') \<Longrightarrow> dbMarkets db' = dbMarkets db"
  using round_trip_markets [OF journal_queries_markets(2)]
  by (auto simp: existing_entry_def split: prod.splits sum.splits if_splits)

lemma Append_markets:
  assumes "Append c db = (r, db')"
  shows "dbMarkets db' = dbMarkets db"
proof (cases "EncodePayload (default_version c)")
  case (Inr payload)
  let ?c = "default_version c"
  let ?create = "CreateOrderJournalEntry (jCommandID ?c) (jTicker ?c) (jType ?c) payload (jMarketConfigVersion ?c)"
  obtain q db1 where Q: "round_trip ?create db = (q, db1)" by (cases "round_trip ?create db")
  have "dbMarkets db1 = dbMarkets db" by (rule round_trip_markets [OF journal_queries_markets(1) Q])
  moreover have "db' = db1 \<or> existing_entry ?c db1 = (r, db')"
    using assms Inr Q by (cases q) (auto simp: Append_def Let_def split: if_splits option.splits prod.splits)
  ultimately show ?thesis using existing_entry_markets by auto
qed (use assms in \<open>simp add: Append_def Let_def\<close>)

lemma List_journal_markets: "List_journal db = (r, db') \<Longrightarrow> dbMarkets db' = dbMarkets db"
  using round_trip_markets [OF journal_queries_markets(3)]
  by (auto simp: List_journal_def split: prod.splits sum.splits)

section \<open>The markets do not touch the journal\<close>

definition same_journal :: "Database \<Rightarrow> Database \<Rightarrow> bool" where
  "same_journal db db' \<longleftrightarrow> dbScript db' = dbScript db \<and> dbJournal db' = dbJournal db \<and>
     dbSequences db' = dbSequences db"

lemma same_journal_refl [simp]: "same_journal db db" "same_journal db (tick db)"
  "same_journal (tick db) db' = same_journal db db'"
  by (simp_all add: same_journal_def)

lemma same_journal_trans: "same_journal a b \<Longrightarrow> same_journal b c \<Longrightarrow> same_journal a c"
  by (simp add: same_journal_def)

lemma same_journal_log: "same_journal db db' \<Longrightarrow> journal_log L db \<Longrightarrow> journal_log L db'"
  using journal_log_cong [of db' db L] by (simp add: same_journal_def)

lemma round_trip_journal:
  assumes "\<And>now d. same_journal d (snd (f now d))" "round_trip f db = (r, db')"
  shows "same_journal db db'"
  using assms(2)
proof (cases rule: round_trip_cases)
  case (answered now)
  then show ?thesis using assms(1) [of "tick db" now] by simp
next
  case (lost now err)
  then show ?thesis using assms(1) [of "tick db" now] by simp
qed simp

lemma market_queries_journal:
  "same_journal d (snd (CreateMarket t now d))" "same_journal d (snd (GetMarket t now d))"
  "same_journal d (snd (ListMarkets now d))"
  by (simp_all add: same_journal_def CreateMarket_def GetMarket_def ListMarkets_def Let_def split: option.split)

lemma AddMarket_journal:
  assumes "AddMarket t db = (r, db')"
  shows "same_journal db db'"
proof (cases "NormalizeTicker t")
  case (Inr n)
  obtain q db1 where Q: "round_trip (CreateMarket n) db = (q, db1)" by (cases "round_trip (CreateMarket n) db")
  obtain e db2 where E: "round_trip (GetMarket n) db1 = (e, db2)" by (cases "round_trip (GetMarket n) db1")
  have "same_journal db db1" "same_journal db1 db2"
    using round_trip_journal [OF market_queries_journal(1) Q] round_trip_journal [OF market_queries_journal(2) E] .
  moreover have "db' = db1 \<or> db' = db2"
    using assms Inr Q E by (auto simp: AddMarket_def split: sum.splits if_splits)
  ultimately show ?thesis using same_journal_trans by blast
qed (use assms in \<open>simp add: AddMarket_def\<close>)

lemma List_markets_journal: "List_markets db = (r, db') \<Longrightarrow> same_journal db db'"
  using round_trip_journal [OF market_queries_journal(3)]
  by (auto simp: List_markets_def split: prod.splits sum.splits)

section \<open>The contracts\<close>

lemma CreateMarket_rows:
  assumes "market_rows M d" "CreateMarket t now d = (q, d')"
  shows "\<exists>M'. market_rows M' d' \<and> M \<subseteq>\<^sub>m M' \<and>
    (\<forall>row. q = Inr row \<longrightarrow> krTicker row = t \<and> M' t = Some (WithDefaults (krPrecision row)))"
proof (cases "t \<in> set (map krTicker (dbMarkets d))")
  case True
  then show ?thesis using assms by (auto simp: CreateMarket_def intro!: exI [of _ M])
next
  case False
  define row where "row = \<lparr>krTicker = t, krCreatedAt = Some now, krPrecision = DefaultPrecision\<rparr>"
  have d: "q = Inr row" "d' = d\<lparr>dbMarkets := dbMarkets d @ [row]\<rparr>"
    using assms(2) False by (simp_all add: CreateMarket_def row_def Let_def)
  have new: "M t = None"
    using assms(1) False by (simp add: market_rows_def map_of_eq_None_iff row_market_tickers [simplified map_map] image_image row_market_def)
  let ?M = "map_of (map row_market (dbMarkets d @ [row]))"
  have M: "?M = map_of [(t, WithDefaults (krPrecision row))] ++ M"
    using assms(1) by (simp add: market_rows_def row_market_def row_def)
  have "market_rows ?M d'" using assms(1) False d by (simp add: market_rows_def row_def)
  moreover have "M \<subseteq>\<^sub>m ?M" unfolding M by (rule map_le_map_add)
  moreover have "?M t = Some (WithDefaults (krPrecision row))" using new unfolding M by (simp add: map_add_def)
  ultimately show ?thesis using d(1) by (intro exI [of _ ?M] conjI) (simp_all add: row_def)
qed

lemma CreateMarket_trip:
  assumes "market_rows M db" "round_trip (CreateMarket t) db = (q, db')"
  shows "\<exists>M'. market_rows M' db' \<and> M \<subseteq>\<^sub>m M' \<and>
    (\<forall>row. q = Inr row \<longrightarrow> krTicker row = t \<and> M' t = Some (WithDefaults (krPrecision row)))"
proof -
  have tick: "market_rows M (tick db)" using assms(1) market_rows_cong [of "tick db" db] by simp
  show ?thesis
    using assms(2)
  proof (cases rule: round_trip_cases)
    case (failed err)
    then show ?thesis using tick by (auto intro!: exI [of _ M])
  next
    case (answered now)
    then show ?thesis by (rule CreateMarket_rows [OF tick])
  next
    case (lost now err)
    then show ?thesis using CreateMarket_rows [OF tick, of t now "fst (CreateMarket t now (tick db))" db'] by auto
  qed
qed

lemma GetMarket_trip:
  assumes "market_rows M db" "round_trip (GetMarket t) db = (q, db')"
  shows "market_rows M db'" "q = Inr row \<Longrightarrow> krTicker row = t \<and> M t = Some (WithDefaults (krPrecision row))"
proof -
  have same: "snd (GetMarket t now d) = d" for now d by (simp add: GetMarket_def split: option.split)
  have "dbMarkets db' = dbMarkets db" using round_trip_markets [OF _ assms(2)] same by simp
  then show "market_rows M db'" using market_rows_cong assms(1) by blast
  show "krTicker row = t \<and> M t = Some (WithDefaults (krPrecision row))" if "q = Inr row"
    using assms(2)
  proof (cases rule: round_trip_cases)
    case (answered now)
    then show ?thesis using that assms(1)
      by (auto simp: GetMarket_def market_rows_def row_market_find dest!: find_SomeD split: option.splits)
  qed (use that in simp_all)
qed

lemma AddMarket_rows:
  assumes mk: "market_rows M db" and A: "AddMarket t db = (added, db')"
  shows "\<exists>M'. market_rows M' db' \<and> M \<subseteq>\<^sub>m M' \<and> (\<forall>a. added = Inr a \<longrightarrow>
    qTicker (adMarket a) = TrimSpace t \<and> M' (TrimSpace t) = Some (qPrecision (adMarket a)))"
proof (cases "TrimSpace t = []")
  case True
  then show ?thesis using A mk by (auto simp: AddMarket_def NormalizeTicker_def Let_def intro!: exI [of _ M])
next
  case False
  obtain q db1 where Q: "round_trip (CreateMarket (TrimSpace t)) db = (q, db1)"
    by (cases "round_trip (CreateMarket (TrimSpace t)) db")
  obtain e db2 where E: "round_trip (GetMarket (TrimSpace t)) db1 = (e, db2)"
    by (cases "round_trip (GetMarket (TrimSpace t)) db1")
  obtain M' where M': "market_rows M' db1" "M \<subseteq>\<^sub>m M'" "\<And>row. q = Inr row \<Longrightarrow>
      krTicker row = TrimSpace t \<and> M' (TrimSpace t) = Some (WithDefaults (krPrecision row))"
    using CreateMarket_trip [OF mk Q] by blast
  note G = GetMarket_trip [OF M'(1) E]
  note A' = A [unfolded AddMarket_def NormalizeTicker_def Let_def if_not_P [OF False] sum.case Q prod.case]
  have "(db' = db1 \<or> db' = db2) \<and> (\<forall>a. added = Inr a \<longrightarrow>
    qTicker (adMarket a) = TrimSpace t \<and> M' (TrimSpace t) = Some (qPrecision (adMarket a)))"
  proof (cases q)
    case (Inr row)
    then show ?thesis using A' M'(3) [OF Inr] registered_row_ok by (auto split: sum.splits)
  next
    case (Inl err)
    show ?thesis
    proof (cases e)
      case (Inr row)
      then show ?thesis using A' Inl E G(2) [OF Inr] registered_row_ok by (auto split: sum.splits if_splits)
    qed (use A' Inl E in \<open>auto split: if_splits\<close>)
  qed
  then show ?thesis using M'(1,2) G(1) by blast
qed

lemma List_markets_rows:
  assumes mk: "market_rows M db" and A: "List_markets db = (ls, db')"
  shows "market_rows M db' \<and> (\<forall>qs. ls = Inr qs \<longrightarrow>
    distinct (map qTicker qs) \<and> map_of (map (\<lambda>q. (qTicker q, qPrecision q)) qs) = M)"
proof -
  obtain q db1 where Q: "round_trip ListMarkets db = (q, db1)" by (cases "round_trip ListMarkets db")
  have m: "dbMarkets db1 = dbMarkets db"
    using round_trip_markets [OF _ Q] by (simp add: ListMarkets_def)
  have rows: "rows = sort_key krTicker (dbMarkets db)" if "q = Inr rows" for rows
    using Q by (cases rule: round_trip_cases) (use that in \<open>auto simp: ListMarkets_def\<close>)
  have "distinct (map qTicker qs) \<and> map_of (map (\<lambda>q. (qTicker q, qPrecision q)) qs) = M"
    if "registered_rows (sort_key krTicker (dbMarkets db)) = Inr qs" for qs
  proof -
    let ?rows = "sort_key krTicker (dbMarkets db)"
    have "map (\<lambda>q. (qTicker q, qPrecision q)) qs = map row_market rows" if "registered_rows rows = Inr qs" for rows qs
      using that
      by (induction rows arbitrary: qs) (auto simp: row_market_def dest: registered_row_ok split: sum.splits)
    then have eq: "map (\<lambda>q. (qTicker q, qPrecision q)) qs = map row_market ?rows" using that by blast
    have d': "distinct (map krTicker (dbMarkets db))" and M: "M = map_of (map row_market (dbMarkets db))"
      using mk by (simp_all add: market_rows_def)
    then have d: "distinct (map krTicker ?rows)" by (simp add: distinct_map)
    have "map_of (map row_market ?rows) = M"
      unfolding M using d d' row_market_tickers by (subst map_of_inject_set) (simp_all only: set_map set_sort)
    then show ?thesis using registered_rows_ok [OF that] d eq by simp
  qed
  then show ?thesis
    using A Q m rows mk market_rows_cong [OF m] by (cases q) (auto simp: List_markets_def)
qed

text \<open>A journal is all the engine relies on of its stores, with the saves that keep it.\<close>

interpretation pgj: engine_journal Append List_journal journal_log
    "persist_request ErrMatchStoreUnavailable (Some SaveMatchLogs)"
    "persist_request ErrEventStoreUnavailable (Some (SaveEvents H))" for H
  by unfold_locales (blast intro: untouched_laws saves_untouched)+

section \<open>What is saved stays saved\<close>

definition listable :: "Database \<Rightarrow> bool" where
  "listable db \<longleftrightarrow> (\<forall>r \<in> set (dbMarkets db). krTicker r \<noteq> [] \<and> krCreatedAt r \<noteq> None \<and>
     ValidatePrecision (WithDefaults (krPrecision r)) = None)"

definition sound_tables :: "Database \<Rightarrow> bool" where
  "sound_tables db \<longleftrightarrow> distinct (map mExecutionID (dbMatchLogs db)) \<and> distinct (map vEventID (dbEvents db)) \<and> listable db"

definition saved_match_logs :: "MatchLog list \<Rightarrow> Database \<Rightarrow> bool" where
  "saved_match_logs ls db \<longleftrightarrow>
     (\<exists>ps. batch_params match_log_params 0 ls = Inr ps \<and> set ps \<subseteq> set (dbMatchLogs db))"

definition saved_order_events :: "digest \<Rightarrow> OrderEvent list \<Rightarrow> Database \<Rightarrow> bool" where
  "saved_order_events H vs db \<longleftrightarrow>
     (\<exists>ps. batch_params (eventParams H) 0 vs = Inr ps \<and> set ps \<subseteq> set (dbEvents db))"

definition db_grows :: "Database \<Rightarrow> Database \<Rightarrow> bool" where
  "db_grows db db' \<longleftrightarrow> dbScript db' = dbScript db \<and> dbStep db \<le> dbStep db' \<and>
     set (dbMatchLogs db) \<subseteq> set (dbMatchLogs db') \<and> set (dbEvents db) \<subseteq> set (dbEvents db') \<and>
     (sound_tables db \<longrightarrow> sound_tables db')"

lemma db_grows_trans: "db_grows a b \<Longrightarrow> db_grows b c \<Longrightarrow> db_grows a c"
  unfolding db_grows_def by (intro conjI impI) (auto elim: order_trans)

text \<open>A change of the journal or of the steps only.\<close>

lemma db_grows_same:
  "dbScript db' = dbScript db \<Longrightarrow> dbStep db \<le> dbStep db' \<Longrightarrow> dbMatchLogs db' = dbMatchLogs db \<Longrightarrow>
   dbEvents db' = dbEvents db \<Longrightarrow> dbMarkets db' = dbMarkets db \<Longrightarrow> db_grows db db'"
  by (simp add: db_grows_def sound_tables_def listable_def)

lemma round_trip_grows:
  assumes "\<And>now d. db_grows d (snd (f now d))" and Q: "round_trip f db = (r, db')"
  shows "db_grows db db'"
proof -
  have tick: "db_grows db (tick db)" by (rule db_grows_same) simp_all
  then have step: "db_grows db (snd (f now (tick db)))" for now by (rule db_grows_trans) (rule assms(1))
  from Q show ?thesis
  proof (cases rule: round_trip_cases)
    case (answered now)
    then show ?thesis using step [of now] by simp
  qed (use tick step in simp_all)
qed

lemma queries_grow:
  "db_grows d (snd (CreateOrderJournalEntry i t k p v now d))" "db_grows d (snd (GetOrderJournalEntry i now d))"
  "db_grows d (snd (ListOrderJournalEntries now d))" "db_grows d (snd (GetMarket t now d))"
  "db_grows d (snd (ListMarkets now d))"
  by (rule db_grows_same; simp add: CreateOrderJournalEntry_def GetOrderJournalEntry_def ListOrderJournalEntries_def
      GetMarket_def ListMarkets_def Let_def split: option.split)+

lemma CreateMarket_grows:
  assumes "t \<noteq> []"
  shows "db_grows d (snd (CreateMarket t now d))"
proof -
  have "ValidatePrecision (WithDefaults DefaultPrecision) = None" by code_simp
  then show ?thesis using assms by (auto simp: CreateMarket_def db_grows_def sound_tables_def listable_def Let_def)
qed

lemma existing_entry_grows: "existing_entry c db = (r, db') \<Longrightarrow> db_grows db db'"
  using round_trip_grows [OF queries_grow(2)]
  by (auto simp: existing_entry_def split: prod.splits sum.splits if_splits)

lemma db_grows_refl: "db_grows db db"
  by (rule db_grows_same) simp_all

lemma Append_grows:
  assumes "Append c db = (r, db')"
  shows "db_grows db db'"
proof (cases "EncodePayload (default_version c)")
  case (Inr payload)
  let ?c = "default_version c"
  let ?create = "CreateOrderJournalEntry (jCommandID ?c) (jTicker ?c) (jType ?c) payload (jMarketConfigVersion ?c)"
  obtain q db1 where Q: "round_trip ?create db = (q, db1)" by (cases "round_trip ?create db")
  have "db_grows db db1" by (rule round_trip_grows [OF queries_grow(1) Q])
  moreover have "db' = db1 \<or> existing_entry ?c db1 = (r, db')"
    using assms Inr Q by (cases q) (auto simp: Append_def Let_def split: if_splits option.splits prod.splits)
  ultimately show ?thesis using existing_entry_grows db_grows_trans by blast
qed (use assms db_grows_refl in \<open>simp add: Append_def Let_def\<close>)

lemma AddMarket_grows:
  assumes "AddMarket t db = (r, db')"
  shows "db_grows db db'"
proof (cases "NormalizeTicker t")
  case (Inr n)
  then have n: "n \<noteq> []" by (auto simp: NormalizeTicker_def Let_def split: if_splits)
  obtain q db1 where Q: "round_trip (CreateMarket n) db = (q, db1)" by (cases "round_trip (CreateMarket n) db")
  obtain e db2 where E: "round_trip (GetMarket n) db1 = (e, db2)" by (cases "round_trip (GetMarket n) db1")
  have "db_grows db db1" "db_grows db1 db2"
    using round_trip_grows [OF CreateMarket_grows [OF n] Q] round_trip_grows [OF queries_grow(4) E] .
  moreover have "db' = db1 \<or> db' = db2"
    using assms Inr Q E by (auto simp: AddMarket_def split: sum.splits if_splits)
  ultimately show ?thesis using db_grows_trans by blast
qed (use assms db_grows_refl in \<open>simp add: AddMarket_def\<close>)

lemma lists_grow:
  "List_journal db = (cs, db') \<Longrightarrow> db_grows db db'" "List_markets db = (ls, db') \<Longrightarrow> db_grows db db'"
  using round_trip_grows [OF queries_grow(3)] round_trip_grows [OF queries_grow(5)]
  by (auto simp: List_journal_def List_markets_def split: prod.splits sum.splits)

lemma stores_save:
  "SaveMatchLogs ls db = (r, db') \<Longrightarrow> db_grows db db' \<and> (r = None \<longrightarrow> saved_match_logs ls db')"
  "SaveEvents H vs db = (r, db') \<Longrightarrow> db_grows db db' \<and> (r = None \<longrightarrow> saved_order_events H vs db')"
proof -
  show "db_grows db db' \<and> (r = None \<longrightarrow> saved_match_logs ls db')" if "SaveMatchLogs ls db = (r, db')"
    using ml.save_batch_atomic [OF that [unfolded SaveMatchLogs_def]] ml.save_batch_others [OF that [unfolded SaveMatchLogs_def]]
    by (auto simp: db_grows_def untouched_def sound_tables_def listable_def ml.identified_def saved_match_logs_def)
  show "db_grows db db' \<and> (r = None \<longrightarrow> saved_order_events H vs db')" if "SaveEvents H vs db = (r, db')"
    using oe.save_batch_atomic [OF that [unfolded SaveEvents_def]] oe.save_batch_others [OF that [unfolded SaveEvents_def]]
    by (auto simp: db_grows_def untouched_def sound_tables_def listable_def oe.identified_def saved_order_events_def)
qed

text \<open>A request to a writer is the store's save, unless there is nothing to save.\<close>

lemma persist_request_eq: "persist_request e (Some save) xs db = (if xs = [] then (None, db) else save xs db)"
  using persist_request_store [of xs e save db]
  by (simp add: persist_request_def NewPersistenceRequest_def writer_handle_def request_wait_def Let_def)

lemma nothing_held: "saved_match_logs [] db" "saved_order_events H [] db"
  by (simp_all add: saved_match_logs_def saved_order_events_def)

lemma requests_save:
  "persist_request e (Some SaveMatchLogs) ls db = (r, db') \<Longrightarrow>
     db_grows db db' \<and> (r = None \<longrightarrow> saved_match_logs ls db')"
  "persist_request e (Some (SaveEvents H)) vs db = (r, db') \<Longrightarrow>
     db_grows db db' \<and> (r = None \<longrightarrow> saved_order_events H vs db')"
  using stores_save nothing_held db_grows_refl by (auto simp: persist_request_eq split: if_splits)

lemma requests_again:
  assumes "unfailing db" "sound_tables db"
  shows "saved_match_logs ls db \<Longrightarrow> fst (persist_request e (Some SaveMatchLogs) ls db) = None"
    "saved_order_events H vs db \<Longrightarrow> fst (persist_request e (Some (SaveEvents H)) vs db) = None"
  using assms ml.save_batch_calm [OF assms(1)] oe.save_batch_calm [OF assms(1)]
  by (auto simp: persist_request_eq SaveMatchLogs_def SaveEvents_def saved_match_logs_def saved_order_events_def
      sound_tables_def ml.identified_def oe.identified_def)

text \<open>Without failures the lists answer.\<close>

lemma List_journal_answers:
  assumes "unfailing db" "journal_log L db"
  shows "\<exists>cs. fst (List_journal db) = Inr cs"
proof -
  let ?sort = "\<lambda>L. sort_key jTicker (sort_key jSequence L)"
  note J = journal_logD [OF assms(2)]
  have rows: "sort_key jrTicker (sort_key jrSequence (map row_of L)) = map row_of (?sort L)"
    by (simp add: sort_key_map o_def)
  have "decode_rows 0 (map row_of (?sort L)) = Inr (?sort L)" by (rule decode_rows_log) (simp add: J(3))
  moreover obtain now where "round_trip ListOrderJournalEntries db = ListOrderJournalEntries now (tick db)"
    using assms(1) by (rule unfailing_trip)
  ultimately show ?thesis by (simp add: List_journal_def ListOrderJournalEntries_def J(2) rows)
qed

lemma registered_rows_answer:
  "\<forall>r \<in> set rows. krCreatedAt r \<noteq> None \<and> ValidatePrecision (WithDefaults (krPrecision r)) = None \<Longrightarrow>
   \<exists>qs. registered_rows rows = Inr qs"
  by (induction rows) (auto simp: registered_row_def toMarket_def Let_def)

lemma List_markets_answers:
  assumes "unfailing db" "sound_tables db"
  shows "\<exists>qs. fst (List_markets db) = Inr qs"
proof -
  obtain now where "round_trip ListMarkets db = ListMarkets now (tick db)" using assms(1) by (rule unfailing_trip)
  then show ?thesis
    using registered_rows_answer [of "sort_key krTicker (dbMarkets db)"] assms(2)
    by (auto simp: List_markets_def ListMarkets_def sound_tables_def listable_def)
qed

section \<open>The interpretations\<close>

interpretation pgs: durable_stores Append List_journal journal_log
    "persist_request ErrMatchStoreUnavailable (Some SaveMatchLogs)"
    "persist_request ErrEventStoreUnavailable (Some (SaveEvents H))" AddMarket List_markets market_rows
    saved_match_logs "saved_order_events H" db_grows sound_tables unfailing for H
proof
  fix M db db'
  show "market_rows M db \<Longrightarrow> Append c db = (a, db') \<Longrightarrow> market_rows M db'" for c a
    using Append_markets market_rows_cong by blast
  show "market_rows M db \<Longrightarrow> List_journal db = (cs, db') \<Longrightarrow> market_rows M db'" for cs
    using List_journal_markets market_rows_cong by blast
  show "market_rows M db \<Longrightarrow> persist_request ErrMatchStoreUnavailable (Some SaveMatchLogs) rs db = (r, db') \<Longrightarrow>
      market_rows M db'" for rs r
    using saves_untouched(1) untouched_laws(2) by blast
  show "market_rows M db \<Longrightarrow> persist_request ErrEventStoreUnavailable (Some (SaveEvents H)) vs db = (r, db') \<Longrightarrow>
      market_rows M db'" for vs r
    using saves_untouched(2) untouched_laws(2) by blast
  show "journal_log L db \<Longrightarrow> AddMarket t db = (added, db') \<Longrightarrow> journal_log L db'" for L t added
    using AddMarket_journal same_journal_log by blast
  show "journal_log L db \<Longrightarrow> List_markets db = (ls, db') \<Longrightarrow> journal_log L db'" for L ls
    using List_markets_journal same_journal_log by blast
  show "market_rows M db \<Longrightarrow> AddMarket t db = (added, db') \<Longrightarrow> \<exists>M'. market_rows M' db' \<and> M \<subseteq>\<^sub>m M' \<and>
      (\<forall>a. added = Inr a \<longrightarrow> qTicker (adMarket a) = TrimSpace t \<and>
         M' (TrimSpace t) = Some (qPrecision (adMarket a)))" for t added
    by (rule AddMarket_rows)
  show "market_rows M db \<Longrightarrow> List_markets db = (ls, db') \<Longrightarrow> market_rows M db' \<and> (\<forall>qs. ls = Inr qs \<longrightarrow>
      distinct (map qTicker qs) \<and> map_of (map (\<lambda>q. (qTicker q, qPrecision q)) qs) = M)" for ls
    by (rule List_markets_rows)
  show "market_rows M db \<Longrightarrow> M t = Some p \<Longrightarrow> WithDefaults p = p" for t p
    using WithDefaults_nonzero by (auto simp: market_rows_def row_market_find intro!: WithDefaults_id split: option.splits)
next
  fix db db1 db'
  show "db_grows db db1 \<Longrightarrow> db_grows db1 db' \<Longrightarrow> db_grows db db'" by (rule db_grows_trans)
  show "db_grows db db" by (rule db_grows_refl)
  show "Append c db = (a, db') \<Longrightarrow> db_grows db db'" for c a by (rule Append_grows)
  show "List_journal db = (cs, db') \<Longrightarrow> db_grows db db'" for cs by (rule lists_grow)
  show "List_markets db = (ls, db') \<Longrightarrow> db_grows db db'" for ls by (rule lists_grow)
  show "AddMarket t db = (added, db') \<Longrightarrow> db_grows db db'" for t added by (rule AddMarket_grows)
  show "persist_request ErrMatchStoreUnavailable (Some SaveMatchLogs) rs db = (r, db') \<Longrightarrow> db_grows db db'" for rs r
    using requests_save(1) by blast
  show "persist_request ErrEventStoreUnavailable (Some (SaveEvents H)) vs db = (r, db') \<Longrightarrow> db_grows db db'" for vs r
    using requests_save(2) by blast
  show "persist_request ErrMatchStoreUnavailable (Some SaveMatchLogs) rs db = (None, db') \<Longrightarrow> saved_match_logs rs db'" for rs
    using requests_save(1) by blast
  show "persist_request ErrEventStoreUnavailable (Some (SaveEvents H)) vs db = (None, db') \<Longrightarrow>
      saved_order_events H vs db'" for vs
    using requests_save(2) by blast
  show "db_grows db db' \<Longrightarrow> sound_tables db \<Longrightarrow> sound_tables db'" by (simp add: db_grows_def)
  show "db_grows db db' \<Longrightarrow> unfailing db \<Longrightarrow> unfailing db'" using unfailing_later by (simp add: db_grows_def)
  show "db_grows db db' \<Longrightarrow> saved_match_logs rs db \<Longrightarrow> saved_match_logs rs db'" for rs
    by (auto simp: db_grows_def saved_match_logs_def)
  show "db_grows db db' \<Longrightarrow> saved_order_events H vs db \<Longrightarrow> saved_order_events H vs db'" for vs
    by (auto simp: db_grows_def saved_order_events_def)
  show "saved_match_logs [] db" "saved_order_events H [] db" by (rule nothing_held)+
  show "unfailing db \<Longrightarrow> sound_tables db \<Longrightarrow> saved_match_logs rs db \<Longrightarrow>
      fst (persist_request ErrMatchStoreUnavailable (Some SaveMatchLogs) rs db) = None" for rs
    by (rule requests_again)
  show "unfailing db \<Longrightarrow> sound_tables db \<Longrightarrow> saved_order_events H vs db \<Longrightarrow>
      fst (persist_request ErrEventStoreUnavailable (Some (SaveEvents H)) vs db) = None" for vs
    by (rule requests_again)
  show "unfailing db \<Longrightarrow> journal_log L db \<Longrightarrow> \<exists>cs. fst (List_journal db) = Inr cs" for L
    by (rule List_journal_answers)
  show "unfailing db \<Longrightarrow> sound_tables db \<Longrightarrow> \<exists>qs. fst (List_markets db) = Inr qs"
    by (rule List_markets_answers)
  show "sound_tables db \<Longrightarrow> market_rows M db \<Longrightarrow> [] \<notin> dom M" for M
    by (auto simp: market_rows_def sound_tables_def listable_def dom_map_of_conv_image_fst row_market_def)
qed

end
