(* ===== verification/History.thy ===== *)
theory History
  imports Recovery
begin

text \<open>
  What the commands of a history make of a book. Orders whose creates have distinct identities
  never share one on the book, so a worker that its commands rebuild from an empty book has its
  book in order (\<open>rebuild_in_order\<close>), every resting order is one of the creates, and a snapshot
  of it is not crossed (\<open>snapshot_in_order\<close>).
\<close>

definition created :: "digest \<Rightarrow> Command list \<Rightarrow> string list" where
  "created H cs = map (GenerateOrderID H) (List.map_filter jCreate cs)"

lemma created_simps [simp]:
  "created H [] = []"
  "created H (c # cs) = (case jCreate c of None \<Rightarrow> created H cs | Some p \<Rightarrow> GenerateOrderID H p # created H cs)"
  "created H (cs @ ds) = created H cs @ created H ds"
  by (simp_all add: created_def List.map_filter_def split: option.split)

lemma created_ids_eq: "created_ids H c = set (created H [c])"
  by (simp add: created_ids_def split: option.split)

section \<open>An empty book\<close>

lemma fresh_book: "engine_book (wOrderBook (NewBookWorkerWithOptions t None p))"
    "side_view (wOrderBook (NewBookWorkerWithOptions t None p)) = (\<lambda>sd. [])"
  by (simp_all add: NewBookWorkerWithOptions_def Let_def new_engine_book new_book_view)

section \<open>The book of a history\<close>

lemma rebuilt_command:
  assumes "rebuild H w [c] = Some w'" "engine_book (wOrderBook w)" "nonblank_digest H" "wire_command c"
    "\<forall>i \<in> set (created H [c]). id_free (side_view (wOrderBook w)) i"
  shows "engine_book (wOrderBook w') \<and> gains_ids (set (created H [c])) (wOrderBook w) (wOrderBook w')"
proof -
  obtain r book u where A: "applyCommand H quiet_io w c () = (r, book, u)"
    by (cases "applyCommand H quiet_io w c ()")
  then have w': "wOrderBook w' = book"
    using assms(1) by (auto simp: apply_and_persist_def split: sum.splits)
  have "fresh_order H c (wOrderBook w)" using assms(5) by (simp add: fresh_created created_ids_eq del: created_simps)
  then show ?thesis
    using apply_command_correct [OF assms(2-4) A] by (simp add: w' created_ids_eq del: created_simps)
qed

lemma rebuild_in_order:
  assumes "rebuild H w cs = Some w'" "engine_book (wOrderBook w)" "nonblank_digest H" "\<forall>c \<in> set cs. wire_command c"
    "distinct (created H cs)" "\<forall>i \<in> set (created H cs). id_free (side_view (wOrderBook w)) i"
  shows "engine_book (wOrderBook w') \<and> gains_ids (set (created H cs)) (wOrderBook w) (wOrderBook w')"
  using assms(1,2,4-6)
proof (induction cs arbitrary: w)
  case Nil
  then show ?case by (simp add: gains_ids_def)
next
  case (Cons c cs)
  have split: "created H (c # cs) = created H [c] @ created H cs"
    using created_simps(3) [of H "[c]" cs] by simp
  obtain v where v: "rebuild H w [c] = Some v" "rebuild H v cs = Some w'"
    using Cons.prems(1) rebuild_append [of H w "[c]" cs] by (auto simp del: rebuild.simps split: option.splits)
  have step: "engine_book (wOrderBook v)" "gains_ids (set (created H [c])) (wOrderBook w) (wOrderBook v)"
    using rebuilt_command [OF v(1) Cons.prems(2) assms(3)] Cons.prems(3,5) unfolding split by simp_all
  have "\<forall>i \<in> set (created H cs). id_free (side_view (wOrderBook v)) i"
    using step(2) Cons.prems(4,5) unfolding split gains_ids_def by auto
  then have IH: "engine_book (wOrderBook w') \<and> gains_ids (set (created H cs)) (wOrderBook v) (wOrderBook w')"
    using Cons.IH [OF v(2) step(1)] Cons.prems(3,4) unfolding split by simp
  then show ?case
    using step(2) unfolding split gains_ids_def by simp
qed

lemma history_in_order:
  assumes "rebuild H (NewBookWorkerWithOptions t None p) cs = Some w" "nonblank_digest H"
    "\<forall>c \<in> set cs. wire_command c" "distinct (created H cs)"
  shows "engine_book (wOrderBook w)" "x \<in> set (side_view (wOrderBook w) sd) \<Longrightarrow> oOrderID x \<in> set (created H cs)"
proof -
  note R = rebuild_in_order [OF assms(1) fresh_book(1) assms(2-4)]
  have free: "id_free (side_view (wOrderBook (NewBookWorkerWithOptions t None p))) i" for i
    by (simp add: fresh_book(2) id_free_def)
  show "engine_book (wOrderBook w)" using R free by blast
  show "oOrderID x \<in> set (created H cs)" if "x \<in> set (side_view (wOrderBook w) sd)"
    using R free that unfolding gains_ids_def id_free_def by blast
qed

section \<open>A snapshot of a book in order\<close>

lemma snapshot_in_order:
  assumes "engine_book ob" "b \<in> set (snBids (Snapshot ob depth))" "a \<in> set (snAsks (Snapshot ob depth))"
  shows "slPrice b < slPrice a"
proof -
  note E = engine_bookD [OF assms(1)]
  have price: "\<exists>x \<in> set (side_view ob sd). oPrice x = slPrice l" if "l \<in> set (abs_levels (side_view ob sd) depth)" for l sd
  proof -
    have "slPrice l \<in> set (map slPrice (abs_levels (side_view ob sd) depth))" using that by simp
    then have "slPrice l \<in> set (remdups_adj (map oPrice (side_view ob sd)))"
      unfolding abs_levels_prices by (auto split: if_splits dest: in_set_takeD)
    then show ?thesis by auto
  qed
  have "b \<in> set (abs_levels (side_view ob BidSide) depth)" "a \<in> set (abs_levels (side_view ob AskSide) depth)"
    using assms(2,3) snapshotLevels_view [OF E(1), of BidSide depth] snapshotLevels_view [OF E(1), of AskSide depth]
    by (simp_all add: Snapshot_def)
  then show ?thesis using price E(3) unfolding uncrossed_def by metis
qed

end
