(* ===== verification/RestartProperties.thy ===== *)
theory RestartProperties
  imports Deployment StoreProperties WorkerProperties History
begin

text \<open>
  The properties of the whole engine on its PostgreSQL stores, for every life it can have from
  an empty journal on: whatever requests and tickers it is given, however often it stops,
  crashes and starts again, and whatever fails on the way. The witnesses run an engine that is
  started on one market (\<open>sample_run\<close>) and given orders (\<open>order_event\<close>).
\<close>

text \<open>
  A database without journalled commands whose tables are as their keys and checks have them. The
  migrations list one market.
\<close>

definition fresh_database :: "Database \<Rightarrow> bool" where
  "fresh_database db \<longleftrightarrow> honest db \<and> dbJournal db = [] \<and> dbSequences db = Map.empty \<and>
     distinct (map krTicker (dbMarkets db)) \<and> sound_tables db"

abbreviation postgres_life :: "digest \<Rightarrow> Database + Database engine \<Rightarrow> bool" where
  "postgres_life H \<equiv> engine_life H (postgres_stores H) fresh_database"

lemma fresh_consistent: "fresh_database db \<Longrightarrow> consistent journal_log market_rows sound_tables db"
  by (auto simp: fresh_database_def consistent_def journal_log_def market_rows_def listed_tickers_def sequenced_def
      intro!: exI [of _ "[]"])

abbreviation held_rows :: "digest \<Rightarrow> Database \<Rightarrow> held" where
  "held_rows H db \<equiv> (\<lambda>rs. saved_match_logs rs db, \<lambda>vs. saved_order_events H vs db)"

lemma postgres_served:
  "postgres_life H (Inr n) \<Longrightarrow> served H journal_log market_rows sound_tables (held_rows H) n"
  "postgres_life H (Inl db) \<Longrightarrow> consistent journal_log market_rows sound_tables db"
  using pgs.life_kept [of H H fresh_database "Inr n"] pgs.life_kept [of H H fresh_database "Inl db"] fresh_consistent
  by (simp_all add: postgres_stores_def)

lemma decoded_log: "journal_log L db \<Longrightarrow> decode_rows 0 (dbJournal db) = Inr L"
  using decode_rows_log [of L 0] journal_logD(2,3) [of L db] by simp

text \<open>The rows, the tickers and the workers of an engine at work.\<close>

lemma postgres_lifeE:
  assumes "postgres_life H (Inr n)"
  obtains L M where "journal_log L (gWorld (nRouter n))" "decode_rows 0 (dbJournal (gWorld (nRouter n))) = Inr L"
    "workers_of H (held_rows H (gWorld (nRouter n))) L M n" "\<forall>t w. gWorkers (nRouter n) t = Some w \<longrightarrow> wTicker w = t"
proof -
  obtain L M where L: "journal_log L (gWorld (nRouter n))" "market_rows M (gWorld (nRouter n))" "listed_tickers M L"
    "workers_of H (held_rows H (gWorld (nRouter n))) L M n" "sound_tables (gWorld (nRouter n))"
    using postgres_served(1) [OF assms] by (rule servedE)
  show ?thesis
    using decoded_log [OF L(1)] worker_okD(1) [OF workers_ofD(1) [OF L(4)]]
    by (intro that [OF L(1) _ L(4)]) simp_all
qed

text \<open>The commands a worker of an engine that is not halted was built from.\<close>

lemma worker_history:
  assumes "postgres_life H (Inr n)" "esCause (gState (nRouter n)) = None" "gWorkers (nRouter n) t = Some w"
  obtains L applied where "journal_log L (gWorld (nRouter n))" "decode_rows 0 (dbJournal (gWorld (nRouter n))) = Inr L"
    "wTicker w = t" "rebuild H (fresh_worker t (wPrecision w)) applied = Some w"
    "of_ticker t L = applied @ (case nPhase n t of Journalled c \<Rightarrow> [c] | _ \<Rightarrow> [])"
proof -
  obtain L M where L: "journal_log L (gWorld (nRouter n))" "decode_rows 0 (dbJournal (gWorld (nRouter n))) = Inr L"
    "workers_of H (held_rows H (gWorld (nRouter n))) L M n" "\<forall>t w. gWorkers (nRouter n) t = Some w \<longrightarrow> wTicker w = t"
    using assms(1) by (rule postgres_lifeE)
  note W = worker_okD [OF workers_ofD(1) [OF L(3) assms(3)]]
  have "\<exists>applied. rebuild H (fresh_worker t (wPrecision w)) applied = Some w \<and>
      of_ticker t L = applied @ (case nPhase n t of Journalled c \<Rightarrow> [c] | _ \<Rightarrow> [])"
    using W(3) assms(2) by (cases "nPhase n t") (auto simp: in_phase_def caught_up_def rebuild_append simp del: rebuild.simps)
  then show ?thesis using that [OF L(1,2) W(1)] by blast
qed

definition market_db :: Database where
  "market_db = calm_db\<lparr>dbMarkets := [\<lparr>krTicker = ''BTC-USD'', krCreatedAt = Some 5, krPrecision = DefaultPrecision\<rparr>]\<rparr>"

lemma market_db_fresh: "fresh_database market_db"
proof -
  have "ValidatePrecision (WithDefaults DefaultPrecision) = None" by code_simp
  then show ?thesis
    by (simp add: fresh_database_def sound_tables_def listable_def market_db_def calm_db_def honest_def)
qed

lemma market_life:
  assumes "startEngine H (postgres_stores H) market_db = Inr g"
  shows "postgres_life H (Inr (at_rest g))"
  by (rule life_start [OF life_init [of fresh_database, OF market_db_fresh] assms])

abbreviation sample_H :: digest where "sample_H \<equiv> \<lambda>s. ''d''"

definition sample_create_event :: EngineEvent where
  "sample_create_event = \<lparr>evType = NewOrder, evTicker = ''BTC-USD'',
     evNewOrder = Some \<lparr>cCommandID = ''k1'', cTicker = ''BTC-USD'', cUserID = ''u'', cOrderType = Limit,
       cPosition = Bid, cPrice = 100, cAmount = 5, cNonce = 1\<rparr>,
     evCancelReq = None, evEditReq = None, evSnapshotDepth = 0\<rparr>"

lemma sample_digest: "nonblank_digest sample_H"
proof -
  have "TrimSpace ''d'' \<noteq> []" by code_simp
  then show ?thesis by (simp add: nonblank_digest_def)
qed

lemma sample_request:
  "case startEngine sample_H (postgres_stores sample_H) market_db of
     Inl _ \<Rightarrow> False
   | Inr g \<Rightarrow>
       (case OrderRouter sample_H (engine_io sample_H) sample_create_event g of
          (r, g1) \<Rightarrow> r = Some None \<and> esCause (gState g1) = None \<and> gWorkers g1 ''BTC-USD'' \<noteq> None \<and>
            map jrCommandID (dbJournal (gWorld g1)) = [''k1''] \<and>
            (case startEngine sample_H (postgres_stores sample_H) (gWorld g1) of
               Inl _ \<Rightarrow> False | Inr g2 \<Rightarrow> True))"
  by code_simp

lemma market_start_calm:
  assumes "startEngine sample_H (postgres_stores sample_H) market_db = Inr g"
  shows "unfailing (gWorld g)"
proof -
  obtain L M where I: "journal_log L market_db" "market_rows M market_db" "listed_tickers M L" "sound_tables market_db"
    by (rule consistentE [OF fresh_consistent [OF market_db_fresh]])
  have "db_grows market_db (gWorld g)"
    using pgs.start_served [OF I(1-3), of sample_H sample_H] assms by (simp add: postgres_stores_def)
  then show ?thesis by (rule pgs.calm_grows) (simp add: market_db_def calm_db_def unfailing_def)
qed

text \<open>The engine of the sample: started, given one order.\<close>

lemma sample_run:
  obtains g g1 g2 where "startEngine sample_H (postgres_stores sample_H) market_db = Inr g"
    "OrderRouter sample_H (engine_io sample_H) sample_create_event g = (Some None, g1)"
    "startEngine sample_H (postgres_stores sample_H) (gWorld g1) = Inr g2"
    "esCause (gState g1) = None" "gWorkers g1 ''BTC-USD'' \<noteq> None"
    "map jrCommandID (dbJournal (gWorld g1)) = [''k1'']"
    "postgres_life sample_H (Inr (at_rest g))" "postgres_life sample_H (Inr (at_rest g1))" "unfailing (gWorld g1)"
proof -
  obtain g where g0: "startEngine sample_H (postgres_stores sample_H) market_db = Inr g"
    using sample_request by (cases "startEngine sample_H (postgres_stores sample_H) market_db") auto
  obtain r g1 where r1: "OrderRouter sample_H (engine_io sample_H) sample_create_event g = (r, g1)"
    by (cases "OrderRouter sample_H (engine_io sample_H) sample_create_event g")
  note S = sample_request [unfolded g0 sum.case r1 prod.case]
  obtain g2 where g2: "startEngine sample_H (postgres_stores sample_H) (gWorld g1) = Inr g2"
    using S by (cases "startEngine sample_H (postgres_stores sample_H) (gWorld g1)") auto
  have r: "OrderRouter sample_H (engine_io sample_H) sample_create_event g = (Some None, g1)"
    "esCause (gState g1) = None" "gWorkers g1 ''BTC-USD'' \<noteq> None"
    "map jrCommandID (dbJournal (gWorld g1)) = [''k1'']"
    using r1 S by blast+
  have g: "postgres_life sample_H (Inr (at_rest g))" by (rule market_life [OF g0])
  have "wire_event sample_create_event" by code_simp
  then have steps: "(engine_step sample_H (postgres_stores sample_H))\<^sup>*\<^sup>* (at_rest g) (at_rest g1)"
    using request_is_schedule [of sample_H "postgres_stores sample_H" sample_create_event "at_rest g" "Some None" g1] r(1)
    by (simp add: postgres_world at_rest_def)
  have "unfailing (gWorld g)" by (rule market_start_calm [OF g0])
  then have "unfailing (gWorld g1)"
    using pgs.steps_grow [OF steps [unfolded postgres_stores_def] postgres_served(1) [OF g]] pgs.calm_grows by simp
  with life_steps [OF steps g] show ?thesis by (rule that [OF g0 r(1) g2 r(2-4) g])
qed

text \<open>Orders given to it one after the other.\<close>

lemma request_life:
  assumes "postgres_life H (Inr (at_rest g))" "wire_event ev" "OrderRouter H (engine_io H) ev g = (r, g')"
  shows "postgres_life H (Inr (at_rest g'))"
  using life_request [OF assms(1,2), of r g'] assms(3) by (simp add: postgres_world at_rest_def)

definition order_event :: "string \<Rightarrow> string \<Rightarrow> int \<Rightarrow> int \<Rightarrow> EngineEvent" where
  "order_event i position price amount = \<lparr>evType = NewOrder, evTicker = ''BTC-USD'',
     evNewOrder = Some \<lparr>cCommandID = i, cTicker = ''BTC-USD'', cUserID = ''u'', cOrderType = Limit,
       cPosition = position, cPrice = price, cAmount = amount, cNonce = 1\<rparr>,
     evCancelReq = None, evEditReq = None, evSnapshotDepth = 0\<rparr>"

lemma order_event_simps [simp]: "evTicker (order_event i position price amount) = ''BTC-USD''"
  by (simp add: order_event_def)

text \<open>What a start that succeeds makes of a ticker that was served.\<close>

lemma postgres_restart:
  assumes "postgres_life H (Inr n)"
    "startEngine H (postgres_stores H) (gWorld (nRouter n)) = Inr g" "gWorkers (nRouter n) t = Some w"
  obtains L w' where "decode_rows 0 (dbJournal (gWorld (nRouter n))) = Inr L" "gWorkers g t = Some w'"
    "rebuild H (fresh_worker t (wPrecision w)) (of_ticker t L) = Some w'"
    "esCause (gState (nRouter n)) = None \<Longrightarrow>
      (case nPhase n t of Journalled c \<Rightarrow> rebuild H w [c] = Some w' | _ \<Rightarrow> w' = w)"
proof (rule pgs.restart_recovers [OF assms(1) [unfolded postgres_stores_def] fresh_consistent
      assms(2) [unfolded postgres_stores_def] assms(3)])
  fix L w'
  assume R: "journal_log L (gWorld (nRouter n))" "gWorkers g t = Some w'"
    "rebuild H (fresh_worker t (wPrecision w)) (of_ticker t L) = Some w'"
    "esCause (gState (nRouter n)) = None \<Longrightarrow>
      (case nPhase n t of Journalled c \<Rightarrow> rebuild H w [c] = Some w' | _ \<Rightarrow> w' = w)"
  show ?thesis by (rule that [OF decoded_log [OF R(1)] R(2-4)])
qed

text \<open>
  C1. A restart restores every book: in any life, whatever order the workers and the runtime take
  their steps in, when an engine stops or crashes, halted or not, each worker idle, about to apply
  the command it journalled or about to persist what it applied, and a start on what its database
  holds succeeds, then every ticker it served is served again, by the worker that the journalled
  commands of the ticker build, in order, from an empty book. If the engine was not halted this is
  the worker that was lost, with the same book, queues and precision, except that the command it
  had journalled is applied. After a halt, which can leave a book with half a command applied, it
  is the journal alone that decides.
\<close>

theorem restart_restores_books:
  assumes "postgres_life H (Inr n)"
    "startEngine H (postgres_stores H) (gWorld (nRouter n)) = Inr g" "gWorkers (nRouter n) t = Some w"
  shows "\<exists>L w'. decode_rows 0 (dbJournal (gWorld (nRouter n))) = Inr L \<and> gWorkers g t = Some w' \<and>
    rebuild H (fresh_worker t (wPrecision w)) (of_ticker t L) = Some w' \<and>
    (esCause (gState (nRouter n)) = None \<longrightarrow>
      (case nPhase n t of Journalled c \<Rightarrow> rebuild H w [c] = Some w' | _ \<Rightarrow> w' = w))"
proof (rule postgres_restart [OF assms])
  fix L w'
  assume "decode_rows 0 (dbJournal (gWorld (nRouter n))) = Inr L" "gWorkers g t = Some w'"
    "rebuild H (fresh_worker t (wPrecision w)) (of_ticker t L) = Some w'"
    "esCause (gState (nRouter n)) = None \<Longrightarrow>
      (case nPhase n t of Journalled c \<Rightarrow> rebuild H w [c] = Some w' | _ \<Rightarrow> w' = w)"
  then show ?thesis by (intro exI conjI impI)
qed

text \<open>A crash after the append, before the match.\<close>

lemma sample_crash:
  "case startEngine sample_H (postgres_stores sample_H) market_db of
     Inl _ \<Rightarrow> False
   | Inr g \<Rightarrow>
       (case gWorkers g ''BTC-USD'' of
          None \<Rightarrow> False
        | Some w \<Rightarrow>
            (case journal_event (engine_io sample_H) sample_create_event (worker_sys w g) of
               (_, p, y) \<Rightarrow> esCause (yState y) = None \<and> (case p of Journalled c \<Rightarrow> True | _ \<Rightarrow> False) \<and>
                 (case startEngine sample_H (postgres_stores sample_H) (yWorld y) of
                    Inl _ \<Rightarrow> False | Inr g2 \<Rightarrow> True)))"
  by code_simp

lemma restart_restores_books_witness:
  "\<exists>n w w' c g. gWorkers (nRouter (n :: Database engine)) ''BTC-USD'' = Some w \<and> nPhase n ''BTC-USD'' = Journalled c \<and>
     startEngine sample_H (postgres_stores sample_H) (gWorld (nRouter n)) = Inr g \<and>
     gWorkers g ''BTC-USD'' = Some w' \<and> rebuild sample_H w [c] = Some w'"
proof -
  obtain g where g: "startEngine sample_H (postgres_stores sample_H) market_db = Inr g"
    using sample_crash by (cases "startEngine sample_H (postgres_stores sample_H) market_db") auto
  note S = sample_crash [unfolded g sum.case]
  obtain w where w: "gWorkers g ''BTC-USD'' = Some w" using S by (cases "gWorkers g ''BTC-USD''") auto
  obtain r p y where E: "journal_event (engine_io sample_H) sample_create_event (worker_sys w g) = (r, p, y)"
    by (cases "journal_event (engine_io sample_H) sample_create_event (worker_sys w g)")
  note S' = S [unfolded w option.case E prod.case]
  obtain c where c: "p = Journalled c" using S' by (cases p) simp_all
  obtain g' where g': "startEngine sample_H (postgres_stores sample_H) (yWorld y) = Inr g'"
    using S' by (cases "startEngine sample_H (postgres_stores sample_H) (yWorld y)") auto
  define n where "n = put_worker ''BTC-USD'' (r, p, y) (at_rest g)"
  have n: "gWorld (nRouter n) = yWorld y" "gState (nRouter n) = yState y"
    "gWorkers (nRouter n) ''BTC-USD'' = Some (yWorker y)" "nPhase n ''BTC-USD'' = Journalled c"
    by (simp_all add: n_def c)
  have "wire_event sample_create_event" by code_simp
  then have "engine_step sample_H (postgres_stores sample_H) (at_rest g) n"
    using take_event [of "at_rest g" "''BTC-USD''" w sample_create_event sample_H "postgres_stores sample_H"] w E
    by (simp add: n_def postgres_world)
  then have life: "postgres_life sample_H (Inr n)"
    by (rule life_step [OF market_life [OF g]])
  obtain w' where "gWorkers g' ''BTC-USD'' = Some w'" "rebuild sample_H (yWorker y) [c] = Some w'"
    using restart_restores_books [OF life _ n(3), of g'] S' g' by (auto simp: n simp del: rebuild.simps)
  then show ?thesis using n g' by (intro exI [of _ n] exI conjI) simp_all
qed

text \<open>
  C2. A clean restart succeeds: in any life, whatever failed before, when an engine that is not
  halted stops with its workers idle and the database fails no more, a start on what the database
  holds returns an engine, in which every ticker is served by the same worker with the same book.
\<close>

theorem clean_restart_succeeds:
  assumes "postgres_life H (Inr n)" "esCause (gState (nRouter n)) = None" "\<And>t. nPhase n t = Idle"
    "unfailing (gWorld (nRouter n))"
  shows "\<exists>g. startEngine H (postgres_stores H) (gWorld (nRouter n)) = Inr g \<and>
    gWorkers (nRouter n) \<subseteq>\<^sub>m gWorkers g"
proof -
  obtain g where g: "startEngine H (postgres_stores H) (gWorld (nRouter n)) = Inr g"
    using pgs.restart_succeeds [of H H fresh_database n] assms fresh_consistent by (auto simp: postgres_stores_def)
  have "gWorkers g t = Some w" if w: "gWorkers (nRouter n) t = Some w" for t w
  proof (rule postgres_restart [OF assms(1) g w])
    fix L w'
    assume "gWorkers g t = Some w'" "esCause (gState (nRouter n)) = None \<Longrightarrow>
        (case nPhase n t of Journalled c \<Rightarrow> rebuild H w [c] = Some w' | _ \<Rightarrow> w' = w)"
    then show ?thesis using assms(2) assms(3) [of t] by simp
  qed
  then show ?thesis using g by (auto simp: map_le_def)
qed

lemma clean_restart_succeeds_witness:
  "\<exists>g w g'. gWorkers (g :: Database Router) ''BTC-USD'' = Some w \<and> map jrCommandID (dbJournal (gWorld g)) = [''k1''] \<and>
     startEngine sample_H (postgres_stores sample_H) (gWorld g) = Inr g' \<and> gWorkers g' ''BTC-USD'' = Some w"
proof -
  obtain g1 where r: "esCause (gState g1) = None" "gWorkers g1 ''BTC-USD'' \<noteq> None"
    "map jrCommandID (dbJournal (gWorld g1)) = [''k1'']" "postgres_life sample_H (Inr (at_rest g1))"
    "unfailing (gWorld g1)"
    by (rule sample_run)
  then obtain g' where g': "startEngine sample_H (postgres_stores sample_H) (gWorld g1) = Inr g'"
    "gWorkers g1 \<subseteq>\<^sub>m gWorkers g'"
    using clean_restart_succeeds [OF r(4)] by auto
  obtain w where w: "gWorkers g1 ''BTC-USD'' = Some w" using r(2) by blast
  then have "gWorkers g' ''BTC-USD'' = Some w" using g'(2) by (auto simp: map_le_def dom_def)
  then show ?thesis using w r(3) g'(1) by (intro exI conjI)
qed

text \<open>
  C4. The journal determines the books: in any life, while the engine is not halted, the worker
  of a ticker is what the journal's commands of that ticker rebuild from an empty book, but for
  the last of them while the worker has journalled it and not applied it. The journal's rows
  decode to commands that validate, no two of them share a command identity, and the sequences of
  a ticker rise, so however often a command is sent it is applied once at most.
\<close>

theorem book_is_journal:
  assumes "postgres_life H (Inr n)" "esCause (gState (nRouter n)) = None" "gWorkers (nRouter n) t = Some w"
  shows "\<exists>L. decode_rows 0 (dbJournal (gWorld (nRouter n))) = Inr L \<and> (\<forall>c \<in> set L. ValidateCommand c = None) \<and>
    distinct (map jCommandID L) \<and> sorted_wrt (<) (map jSequence (of_ticker t L)) \<and> wTicker w = t \<and>
    (\<exists>applied. rebuild H (fresh_worker t (wPrecision w)) applied = Some w \<and>
      of_ticker t L = applied @ (case nPhase n t of Journalled c \<Rightarrow> [c] | _ \<Rightarrow> []))"
proof -
  obtain L applied where W: "journal_log L (gWorld (nRouter n))" "decode_rows 0 (dbJournal (gWorld (nRouter n))) = Inr L"
    "wTicker w = t" "rebuild H (fresh_worker t (wPrecision w)) applied = Some w"
    "of_ticker t L = applied @ (case nPhase n t of Journalled c \<Rightarrow> [c] | _ \<Rightarrow> [])"
    using assms by (rule worker_history)
  have "sorted_wrt (<) (map jSequence (of_ticker t L))" "distinct (map jCommandID L)"
    using sequenced_ticker [OF journal_logD(4) [OF W(1)]] journal_logD(5) [OF W(1)] by (simp_all add: sorted_wrt_map)
  then show ?thesis
    using W(2-5) journal_logD(3) [OF W(1)] by (intro exI [of _ L]) (auto simp: stored_command_def)
qed

lemma book_is_journal_witness:
  "\<exists>g w L. gWorkers (g :: Database Router) ''BTC-USD'' = Some w \<and> map jrCommandID (dbJournal (gWorld g)) = [''k1''] \<and>
     decode_rows 0 (dbJournal (gWorld g)) = Inr L \<and>
     rebuild sample_H (fresh_worker ''BTC-USD'' (wPrecision w)) (of_ticker ''BTC-USD'' L) = Some w"
proof -
  obtain g1 where r: "esCause (gState g1) = None" "gWorkers g1 ''BTC-USD'' \<noteq> None"
    "map jrCommandID (dbJournal (gWorld g1)) = [''k1'']" "postgres_life sample_H (Inr (at_rest g1))"
    by (rule sample_run)
  obtain w where w: "gWorkers g1 ''BTC-USD'' = Some w" using r(2) by blast
  then obtain L where "decode_rows 0 (dbJournal (gWorld g1)) = Inr L"
    "rebuild sample_H (fresh_worker ''BTC-USD'' (wPrecision w)) (of_ticker ''BTC-USD'' L) = Some w"
    using book_is_journal [OF r(4), of "''BTC-USD''" w] r(1) by auto
  then show ?thesis using r(3) w by (intro exI conjI)
qed

text \<open>
  C3. A book an engine serves is in order: in any life, while the engine is not halted, if the
  creates the journal has of a ticker have distinct order identities, which the program does not
  ensure, and the digest that makes identities is never blank, then the ticker's book is correct,
  holds sound limit orders only, each of them one of these creates, and is not crossed. What a
  client is shown of it has falling bids, rising asks, and every bid below every ask.
\<close>

theorem served_books_in_order:
  assumes "postgres_life H (Inr n)" "esCause (gState (nRouter n)) = None" "gWorkers (nRouter n) t = Some w"
    "nonblank_digest H" "decode_rows 0 (dbJournal (gWorld (nRouter n))) = Inr L" "distinct (created H (of_ticker t L))"
    "OrderBookSnapshot_of H (engine_io H) t depth (nRouter n) = Some (Inr s)"
  shows "engine_book (wOrderBook w) \<and>
    (\<forall>sd. \<forall>x \<in> set (side_view (wOrderBook w) sd). oOrderID x \<in> set (created H (of_ticker t L))) \<and>
    s = Snapshot (wOrderBook w) depth \<and> (\<forall>b \<in> set (snBids s). \<forall>a \<in> set (snAsks s). slPrice b < slPrice a)"
proof -
  obtain L' applied where W: "journal_log L' (gWorld (nRouter n))" "decode_rows 0 (dbJournal (gWorld (nRouter n))) = Inr L'"
    "wTicker w = t" "rebuild H (fresh_worker t (wPrecision w)) applied = Some w"
    "of_ticker t L' = applied @ (case nPhase n t of Journalled c \<Rightarrow> [c] | _ \<Rightarrow> [])"
    using assms(1-3) by (rule worker_history)
  have L: "of_ticker t L = applied @ (case nPhase n t of Journalled c \<Rightarrow> [c] | _ \<Rightarrow> [])" "L' = L"
    using W(2,5) assms(5) by simp_all
  have "\<forall>c \<in> set (of_ticker t L). wire_command c"
    using journal_logD(3) [OF W(1)] L(2) by (auto simp: stored_command_def of_ticker_def)
  then have "\<forall>c \<in> set applied. wire_command c" "distinct (created H applied)" using assms(6) L(1) by auto
  note B = history_in_order [OF W(4) assms(4) this]
  have ids: "oOrderID x \<in> set (created H (of_ticker t L))" if "x \<in> set (side_view (wOrderBook w) sd)" for x sd
    using B(2) [OF that] L(1) by simp
  have "s = Snapshot (wOrderBook w) depth"
    using assms(3,7) W(3)
    by (auto simp: OrderBookSnapshot_of_def workerLocked_def worker_step_def handle_event_def snapshot_event_def
        isCommandEvent_def split: if_splits)
  then show ?thesis using B(1) ids snapshot_in_order [OF B(1)] by blast
qed

lemma sample_shown:
  "case startEngine sample_H (postgres_stores sample_H) market_db of
     Inl _ \<Rightarrow> False
   | Inr g \<Rightarrow>
       (case OrderRouter sample_H (engine_io sample_H) sample_create_event g of
          (_, g1) \<Rightarrow>
            (case OrderBookSnapshot_of sample_H (engine_io sample_H) ''BTC-USD'' 0 g1 of
               Some (Inr s) \<Rightarrow> map slPrice (snBids s) = [100] | _ \<Rightarrow> False) \<and>
            (case decode_rows 0 (dbJournal (gWorld g1)) of
               Inr L \<Rightarrow> distinct (created sample_H (of_ticker ''BTC-USD'' L)) | _ \<Rightarrow> False))"
  by code_simp

lemma served_books_in_order_witness:
  "\<exists>g w s. gWorkers (g :: Database Router) ''BTC-USD'' = Some w \<and> engine_book (wOrderBook w) \<and>
     OrderBookSnapshot_of sample_H (engine_io sample_H) ''BTC-USD'' 0 g = Some (Inr s) \<and> map slPrice (snBids s) = [100]"
proof -
  obtain g g1 where g: "startEngine sample_H (postgres_stores sample_H) market_db = Inr g"
    "OrderRouter sample_H (engine_io sample_H) sample_create_event g = (Some None, g1)"
    and r: "esCause (gState g1) = None" "gWorkers g1 ''BTC-USD'' \<noteq> None" "postgres_life sample_H (Inr (at_rest g1))"
    by (rule sample_run)
  note S = sample_shown [unfolded g sum.case prod.case]
  obtain s where s: "OrderBookSnapshot_of sample_H (engine_io sample_H) ''BTC-USD'' 0 g1 = Some (Inr s)"
    "map slPrice (snBids s) = [100]"
    using S by (auto split: option.splits sum.splits)
  obtain L where L: "decode_rows 0 (dbJournal (gWorld g1)) = Inr L" "distinct (created sample_H (of_ticker ''BTC-USD'' L))"
    using S by (auto split: option.splits sum.splits)
  obtain w where w: "gWorkers g1 ''BTC-USD'' = Some w" using r(2) by blast
  have "engine_book (wOrderBook w)"
    using served_books_in_order [OF r(3), of "''BTC-USD''" w L 0 s] r(1) w L s(1) sample_digest by simp
  then show ?thesis using w s by (intro exI conjI)
qed

lemma entry_same_payload: "journal_entry c e \<Longrightarrow> SamePayload (default_version c) e"
proof -
  have "SamePayload d (d\<lparr>jSequence := n, jRecordedAt := t\<rparr>)" for d n t
    by (simp add: SamePayload_def effectiveConfigVersion_def)
  then show "journal_entry c e \<Longrightarrow> ?thesis" unfolding journal_entry_def by metis
qed

text \<open>
  A command that is acknowledged as successful has its payload in the journal, also when it is a
  retry, and the engine goes on with a worker of the same precision.
\<close>

lemma routed_success_journalled:
  assumes "postgres_life H (Inr n)" "wire_event ev" "OrderRouter H (engine_io H) ev (nRouter n) = (Some None, g')"
    "\<And>w. gWorkers (nRouter n) (evTicker ev) = Some w \<Longrightarrow> wTicker w = evTicker ev \<Longrightarrow> commandFromEvent w ev \<noteq> None"
  obtains w c w' L e where "gWorkers (nRouter n) (evTicker ev) = Some w" "wTicker w = evTicker ev"
    "commandFromEvent w ev = Some c" "journal_log L (gWorld g')" "e \<in> set L" "SamePayload (default_version c) e"
    "gWorkers g' (evTicker ev) = Some w'" "wPrecision w' = wPrecision w" "esCause (gState g') = None"
proof -
  let ?g = "nRouter n"
  obtain L M where L: "journal_log L (gWorld ?g)" "\<forall>t w. gWorkers ?g t = Some w \<longrightarrow> wTicker w = t"
    using assms(1) by (rule postgres_lifeE)
  obtain w where w: "gWorkers ?g (evTicker ev) = Some w" "worker_step H (engine_io H) (evTicker ev) w ev ?g = (Ack None, g')"
    using assms(3) by (auto simp: OrderRouter_def workerLocked_def split: if_splits option.splits sum.splits prod.splits reply.splits)
  let ?y = "\<lparr>yWorker = w, yState = gState ?g, yWorld = gWorld ?g\<rparr>"
  obtain y where E: "handle_event H (engine_io H) ev ?y = (Ack None, y)"
    "gWorld g' = yWorld y" "gWorkers g' (evTicker ev) = Some (yWorker y)" "gState g' = yState y"
    using w(2) by (auto simp: worker_step_def split: prod.splits)
  have t: "wTicker w = evTicker ev" using L(2) w(1) by blast
  obtain c where c: "commandFromEvent w ev = Some c" using assms(4) [OF w(1) t] by blast
  have wire: "wire_command c" using commandFromEvent_wire(1) [OF assms(2) c] .
  obtain a s1 where A: "Append c (gWorld ?g) = (Inr a, s1)"
    "if apInserted a then apply_and_persist H (engine_io H) w (apCommand a) s1 = (None, yWorker y, yWorld y)
     else yWorker y = w \<and> yWorld y = s1"
    and state: "EngineState_Err (gState ?g) = None" "yState y = gState ?g"
    using success_entry [OF _ E(1), of c] c by (auto simp: engine_io_def split: if_splits)
  have running: "esCause (gState g') = None" using state E(4) by (simp add: EngineState_Err_cause)
  show ?thesis
  proof (cases "apInserted a")
    case True
    note I = pg.append_inserted [OF L(1) wire A(1) True]
    have P: "apply_and_persist H (engine_io H) w (apCommand a) s1 = (None, yWorker y, yWorld y)" using A(2) True by simp
    have "journal_log (L @ [apCommand a]) (gWorld g')"
      using apply_keep [OF pgj.io_log conjunct2 [OF I], of H H w "apCommand a" None "yWorker y" "yWorld y"] P E(2)
      by (simp add: engine_io_def)
    moreover have "SamePayload (default_version c) (apCommand a)"
      using conjunct1 [OF I] by (rule entry_same_payload)
    ultimately show ?thesis
      using apply_fields(2) [OF P] by (intro that [OF w(1) t c _ _ _ E(3) _ running, of "L @ [apCommand a]" "apCommand a"]) simp_all
  next
    case False
    note X = pg.append_existing [OF L(1) wire A(1) False]
    then show ?thesis
      using A(2) False E(2) by (intro that [OF w(1) t c _ _ _ E(3) _ running, of L "apCommand a"]) simp_all
  qed
qed

text \<open>
  C26. Success means durable: in any life, when a worker that is idle acknowledges a command as
  successful, be the command new or a retry of one the journal has, the journal holds an entry
  with its payload, every row of the journal decodes, the database holds every execution that
  matching the entry's order makes on the book the entries of the ticker before it build, and it
  holds every order event that the entry's application returns.
\<close>

theorem success_is_durable:
  assumes "postgres_life H (Inr n)" "nPhase n (evTicker ev) = Idle" "wire_event ev"
    "gWorkers (nRouter n) (evTicker ev) = Some w" "commandFromEvent w ev = Some c"
    "OrderRouter H (engine_io H) ev (nRouter n) = (Some None, g')"
  shows "\<exists>L cs e ds v vs book.
    decode_rows 0 (dbJournal (gWorld g')) = Inr L \<and> of_ticker (evTicker ev) L = cs @ e # ds \<and>
    SamePayload (default_version c) e \<and>
    rebuild H (fresh_worker (evTicker ev) (wPrecision w)) cs = Some v \<and>
    saved_match_logs (executions H (wOrderBook v) e) (gWorld g') \<and>
    applyCommand H quiet_io v e () = (Inr vs, book, ()) \<and> saved_order_events H vs (gWorld g')"
proof -
  let ?t = "evTicker ev" and ?n = "n\<lparr>nRouter := g'\<rparr>"
  obtain w1 c1 w' L e where J: "gWorkers (nRouter n) ?t = Some w1" "wTicker w1 = ?t" "commandFromEvent w1 ev = Some c1"
    "journal_log L (gWorld g')" "e \<in> set L" "SamePayload (default_version c1) e"
    "gWorkers g' ?t = Some w'" "wPrecision w' = wPrecision w1" "esCause (gState g') = None"
    using assms(1,3,6) by (rule routed_success_journalled) (use assms(4,5) in auto)
  have eqs: "w1 = w" "c1 = c" using J(1,3) assms(4,5) by simp_all
  have life: "postgres_life H (Inr ?n)"
    using life_request [OF assms(1,3,2)] assms(6) by (simp add: postgres_world)
  have nrt: "nRouter ?n = g'" by simp
  obtain L' M where S: "journal_log L' (gWorld g')" "workers_of H (held_rows H (gWorld g')) L' M ?n"
    by (rule postgres_lifeE [OF life, unfolded nrt]) (rule that)
  have "L' = L" using decoded_log [OF J(4)] decoded_log [OF S(1)] by simp
  then have "caught_up H (held_rows H (gWorld g')) ?t (wPrecision w') (of_ticker ?t L) w'"
    using worker_okD(3) [OF workers_ofD(1) [OF S(2), of ?t w']] J(7,9) assms(2) by (simp add: in_phase_def)
  moreover have "jTicker e = ?t"
    using J(6) commandFromEvent_wire(2) [OF assms(3) J(3)] J(2) by (simp add: SamePayload_def default_version_def split: if_splits)
  then obtain cs ds where split: "of_ticker ?t L = cs @ e # ds"
    using J(5) split_list [of e "of_ticker ?t L"] by (auto simp: of_ticker_def)
  ultimately have "history_saved H (\<lambda>ls. saved_match_logs ls (gWorld g')) (\<lambda>vs. saved_order_events H vs (gWorld g'))
      (fresh_worker ?t (wPrecision w)) (cs @ e # ds)"
    by (simp add: caught_up_def J(8) eqs(1) del: history_saved.simps)
  then obtain v vs book where "rebuild H (fresh_worker ?t (wPrecision w)) cs = Some v"
    "applyCommand H quiet_io v e () = (Inr vs, book, ())"
    "saved_match_logs (executions H (wOrderBook v) e) (gWorld g')" "saved_order_events H vs (gWorld g')"
    by (rule history_saved_each)
  then show ?thesis using J(6) [unfolded eqs(2)] decoded_log [OF J(4)] split by (intro exI conjI)
qed

lemma sample_trade:
  "case startEngine (\<lambda>s. s) (postgres_stores (\<lambda>s. s)) market_db of
     Inl _ \<Rightarrow> False
   | Inr g \<Rightarrow>
       (case OrderRouter (\<lambda>s. s) (engine_io (\<lambda>s. s)) (order_event ''k1'' Bid 100 5) g of
          (_, g1) \<Rightarrow>
            (case gWorkers g1 ''BTC-USD'' of
               None \<Rightarrow> False
             | Some w \<Rightarrow> commandFromEvent w (order_event ''k2'' Ask 100 2) \<noteq> None) \<and>
            (case OrderRouter (\<lambda>s. s) (engine_io (\<lambda>s. s)) (order_event ''k2'' Ask 100 2) g1 of
               (r, g2) \<Rightarrow> r = Some None \<and> length (dbMatchLogs (gWorld g2)) = 1))"
  by code_simp

lemma success_is_durable_witness:
  "\<exists>g g' v e vs book.
     OrderRouter (\<lambda>s. s) (engine_io (\<lambda>s. s)) (order_event ''k2'' Ask 100 2) g = (Some None, g') \<and>
     length (dbMatchLogs (gWorld g')) = 1 \<and> saved_match_logs (executions (\<lambda>s. s) (wOrderBook v) e) (gWorld g') \<and>
     applyCommand (\<lambda>s. s) quiet_io v e () = (Inr vs, book, ()) \<and> saved_order_events (\<lambda>s. s) vs (gWorld g')"
proof -
  let ?H = "\<lambda>s :: string. s" and ?ev = "order_event ''k2'' Ask 100 2"
  obtain g where g: "startEngine ?H (postgres_stores ?H) market_db = Inr g"
    using sample_trade by (cases "startEngine ?H (postgres_stores ?H) market_db") auto
  obtain r g1 where g1: "OrderRouter ?H (engine_io ?H) (order_event ''k1'' Bid 100 5) g = (r, g1)"
    by (cases "OrderRouter ?H (engine_io ?H) (order_event ''k1'' Bid 100 5) g")
  obtain q g2 where g2: "OrderRouter ?H (engine_io ?H) ?ev g1 = (q, g2)" by (cases "OrderRouter ?H (engine_io ?H) ?ev g1")
  note S = sample_trade [unfolded g sum.case g1 prod.case g2]
  obtain w c where w: "gWorkers g1 ''BTC-USD'' = Some w" "commandFromEvent w ?ev = Some c"
    using S by (auto split: option.splits)
  have q: "q = Some None" "length (dbMatchLogs (gWorld g2)) = 1" using S by simp_all
  have ev: "wire_event ?ev" "wire_event (order_event ''k1'' Bid 100 5)" by code_simp+
  have life: "postgres_life ?H (Inr (at_rest g1))" by (rule request_life [OF market_life [OF g] ev(2) g1])
  obtain e v vs book where s: "saved_match_logs (executions ?H (wOrderBook v) e) (gWorld g2)"
    "applyCommand ?H quiet_io v e () = (Inr vs, book, ())" "saved_order_events ?H vs (gWorld g2)"
    using success_is_durable [OF life _ ev(1), of w c g2] g2 q(1) w by auto
  then show ?thesis using g2 q by blast
qed

text \<open>
  C36. An overflowing create ends the service for good: in any life, when an idle worker of an
  engine that is neither halted nor shut down takes a create the journal had not, and the matching
  of the order reports an error, as it does when a quote amount does not fit \<^verbatim>\<open>int64\<close>, then the
  create is journalled all the same, the client is answered with an error and the engine halts.
  From then on no start on the database ever succeeds, however often it is tried and whatever
  fails on the way, no matter which tickers are listed beside it, and the journal keeps the create.
\<close>

theorem overflow_ends_service:
  assumes "postgres_life H (Inr n)" "nPhase n (evTicker ev) = Idle" "wire_event ev"
    "esCause (gState (nRouter n)) = None" "\<not> gClosed (nRouter n)"
    "gWorkers (nRouter n) (evTicker ev) = Some w" "commandFromEvent w ev = Some c" "jCreate c = Some p"
    "Append c (gWorld (nRouter n)) = (Inr a, s1)" "apInserted a"
    "rErr (fst (Match H (wOrderBook w) (CreateOrderAt H p (jRecordedAt (apCommand a))))) = Some err"
    "OrderRouter H (engine_io H) ev (nRouter n) = (r, g')"
  shows "dbJournal (gWorld g') = dbJournal (gWorld (nRouter n)) @ [row_of (apCommand a)] \<and>
    (\<exists>e. r = Some (Some e)) \<and> esCause (gState g') \<noteq> None \<and>
    (\<forall>x. engine_life H (postgres_stores H) (\<lambda>db. db = gWorld g') x \<longrightarrow>
      (\<exists>db. x = Inl db \<and> dbJournal db = dbJournal (gWorld g')))"
proof -
  let ?t = "evTicker ev" and ?g = "nRouter n"
  obtain L M where L: "journal_log L (gWorld ?g)" "market_rows M (gWorld ?g)" "listed_tickers M L"
    "workers_of H (held_rows H (gWorld ?g)) L M n" "sound_tables (gWorld ?g)"
    using postgres_served(1) [OF assms(1)] by (rule servedE)
  note W = worker_okD [OF workers_ofD(1) [OF L(4) assms(6)]]
  have built: "rebuild H (fresh_worker ?t (wPrecision w)) (of_ticker ?t L) = Some w"
    using W(3) assms(2,4) by (simp add: in_phase_def caught_up_def)
  have wire: "wire_command c" "jTicker c = ?t" using commandFromEvent_wire [OF assms(3,7)] W(1) by simp_all
  note I = pg.append_inserted [OF L(1) wire(1) assms(9,10)]
  note F = journal_entry_fields [OF conjunct1 [OF I]]
  note fails = overflow_fails [OF trans [OF F(4) assms(8)] assms(11)]
  obtain e w' s2 where P: "apply_and_persist H (engine_io H) w (apCommand a) s1 = (e, w', s2)"
    by (cases "apply_and_persist H (engine_io H) w (apCommand a) s1")
  obtain err' where e: "e = Some err'" using fails [of "engine_io H" s1] P by (cases e) simp_all
  have E: "handle_event H (engine_io H) ev \<lparr>yWorker = w, yState = gState ?g, yWorld = gWorld ?g\<rparr> =
      halt_ack err' \<lparr>yWorker = w', yState = gState ?g, yWorld = s2\<rparr>"
    using handle_event_command [of "\<lparr>yWorker = w, yState = gState ?g, yWorld = gWorld ?g\<rparr>" ev c H "engine_io H"]
      assms(4,7,9,10) P W(1) e by (auto simp: engine_io_def EngineState_Err_cause Let_def)
  have "?t \<noteq> []" using pgs.named [OF L(5,2)] W(2) by (metis domI)
  then have R: "r = Some (EngineState_Err (Halt (gState ?g) (Some err')))" "gState g' = Halt (gState ?g) (Some err')"
    "gWorld g' = s2"
    using assms(12) E assms(4,5,6) W(1)
    by (auto simp: OrderRouter_def workerLocked_def worker_step_def halt_ack_def Let_def EngineState_Err_cause)
  have log: "journal_log (L @ [apCommand a]) s2"
    using apply_keep [OF pgj.io_log conjunct2 [OF I], of H H w "apCommand a" e w' s2] P by (simp add: engine_io_def)
  have mk: "market_rows M s2"
    using apply_keep [OF pgs.io_mk pgs.append_mk [OF L(2) assms(9)], of H H w "apCommand a" e w' s2] P by (simp add: engine_io_def)
  have listed: "listed_tickers M (L @ [apCommand a])"
    using L(3) W(2) F(1) wire(2) by (auto simp: listed_tickers_def)
  have "rebuild H w [apCommand a] = None"
    using fails [of quiet_io "()"] by (auto split: prod.splits option.splits)
  then have stuck: "rebuild H (fresh_worker ?t (wPrecision w)) (of_ticker ?t (L @ [apCommand a])) = None"
    using built F(1) wire(2) by (simp add: of_ticker_def rebuild_append del: rebuild.simps)
  have "\<exists>db. x = Inl db \<and> dbJournal db = dbJournal (gWorld g')"
    if "engine_life H (postgres_stores H) (\<lambda>db. db = gWorld g') x" for x
    using pgs.never_starts [of H H s2 x, OF _ log mk listed W(2) stuck] that journal_logD(2) [OF log]
    by (auto simp: R(3) postgres_stores_def dest: journal_logD(2))
  then show ?thesis
    using R journal_logD(2) [OF L(1)] journal_logD(2) [OF log] by (simp add: EngineState_Err_cause)
qed
lemma sample_overflow:
  "case startEngine sample_H (postgres_stores sample_H) market_db of
     Inl _ \<Rightarrow> False
   | Inr g \<Rightarrow>
       (case OrderRouter sample_H (engine_io sample_H) (order_event ''k1'' Ask max_int64 max_int64) g of
          (_, g1) \<Rightarrow> esCause (gState g1) = None \<and> \<not> gClosed g1 \<and>
            (case gWorkers g1 ''BTC-USD'' of
               None \<Rightarrow> False
             | Some w \<Rightarrow>
                 (case commandFromEvent w (order_event ''k2'' Bid max_int64 max_int64) of
                    None \<Rightarrow> False
                  | Some c \<Rightarrow>
                      (case Append c (gWorld g1) of
                         (Inl _, _) \<Rightarrow> False
                       | (Inr a, _) \<Rightarrow> apInserted a \<and>
                           (case jCreate c of
                              None \<Rightarrow> False
                            | Some p \<Rightarrow>
                                rErr (fst (Match sample_H (wOrderBook w)
                                  (CreateOrderAt sample_H p (jRecordedAt (apCommand a))))) \<noteq> None)))))"
  by code_simp

lemma overflow_ends_service_witness:
  "\<exists>g e g' row. OrderRouter sample_H (engine_io sample_H) (order_event ''k2'' Bid max_int64 max_int64) g = (Some (Some e), g') \<and>
     esCause (gState g) = None \<and> dbJournal (gWorld g') = dbJournal (gWorld g) @ [row] \<and>
     (\<exists>err db. startEngine sample_H (postgres_stores sample_H) (gWorld g') = Inl (err, db))"
proof -
  let ?ev = "order_event ''k2'' Bid max_int64 max_int64"
  obtain g where g: "startEngine sample_H (postgres_stores sample_H) market_db = Inr g"
    using sample_overflow by (cases "startEngine sample_H (postgres_stores sample_H) market_db") auto
  obtain r g1 where g1: "OrderRouter sample_H (engine_io sample_H) (order_event ''k1'' Ask max_int64 max_int64) g = (r, g1)"
    by (cases "OrderRouter sample_H (engine_io sample_H) (order_event ''k1'' Ask max_int64 max_int64) g")
  note S = sample_overflow [unfolded g sum.case g1 prod.case]
  obtain w c where w: "gWorkers g1 ''BTC-USD'' = Some w" "commandFromEvent w ?ev = Some c"
    using S by (auto split: option.splits)
  obtain a s1 where A: "Append c (gWorld g1) = (Inr a, s1)" "apInserted a"
    using S w by (auto split: prod.splits sum.splits)
  obtain p err where p: "jCreate c = Some p"
    "rErr (fst (Match sample_H (wOrderBook w) (CreateOrderAt sample_H p (jRecordedAt (apCommand a))))) = Some err"
    using S w A by (auto split: option.splits)
  obtain q g' where q: "OrderRouter sample_H (engine_io sample_H) ?ev g1 = (q, g')"
    by (cases "OrderRouter sample_H (engine_io sample_H) ?ev g1")
  have ev: "wire_event ?ev" "wire_event (order_event ''k1'' Ask max_int64 max_int64)" by code_simp+
  have life: "postgres_life sample_H (Inr (at_rest g1))" by (rule request_life [OF market_life [OF g] ev(2) g1])
  have state: "esCause (gState g1) = None" "\<not> gClosed g1" using S by simp_all
  note overflow_ends_service [OF life _ ev(1) _ _ _ w(2) p(1), unfolded at_rest_simps order_event_simps,
      OF refl state w(1) A p(2) q]
  then have T: "dbJournal (gWorld g') = dbJournal (gWorld g1) @ [row_of (apCommand a)]" "\<exists>e. q = Some (Some e)"
    "\<And>x. engine_life sample_H (postgres_stores sample_H) (\<lambda>db. db = gWorld g') x \<Longrightarrow> \<exists>db. x = Inl db"
    by blast+
  have "\<exists>err db. startEngine sample_H (postgres_stores sample_H) (gWorld g') = Inl (err, db)"
    using T(3) [OF life_start [OF life_init [of "\<lambda>db. db = gWorld g'" "gWorld g'", OF refl]]]
    by (cases "startEngine sample_H (postgres_stores sample_H) (gWorld g')") auto
  then show ?thesis using T(1,2) q state(1) by blast
qed

text \<open>
  C29. One request is one command at most: it changes no worker but its ticker's and leaves the
  rows of the journal as they are, behind which it adds rows of its ticker only, and a request
  the engine refuses because it is halted changes nothing.
\<close>

theorem request_is_local:
  assumes "postgres_life H (Inr n)" "wire_event ev" "OrderRouter H (engine_io H) ev (nRouter n) = (r, g')"
  shows "(\<forall>t. t \<noteq> evTicker ev \<longrightarrow> gWorkers g' t = gWorkers (nRouter n) t) \<and>
    (\<exists>new. dbJournal (gWorld g') = dbJournal (gWorld (nRouter n)) @ new \<and>
      (\<forall>row \<in> set new. jrTicker row = evTicker ev)) \<and>
    (esCause (gState (nRouter n)) \<noteq> None \<longrightarrow> g' = nRouter n)"
proof (cases "g' = nRouter n")
  case False
  obtain L M where L: "journal_log L (gWorld (nRouter n))" "decode_rows 0 (dbJournal (gWorld (nRouter n))) = Inr L"
    "workers_of H (held_rows H (gWorld (nRouter n))) L M n" "\<forall>t w. gWorkers (nRouter n) t = Some w \<longrightarrow> wTicker w = t"
    using assms(1) by (rule postgres_lifeE)
  obtain w where w: "gWorkers (nRouter n) (evTicker ev) = Some w" "EngineState_Err (gState (nRouter n)) = None"
    "g' = snd (worker_step H (engine_io H) (evTicker ev) w ev (nRouter n))"
    by (rule OrderRouter_changes [OF assms(3) False])
  let ?y = "\<lparr>yWorker = w, yState = gState (nRouter n), yWorld = gWorld (nRouter n)\<rparr>"
  obtain q y where E: "handle_event H (engine_io H) ev ?y = (q, y)" by (cases "handle_event H (engine_io H) ev ?y")
  obtain new where new: "journal_log (L @ new) (yWorld y)" "\<forall>c \<in> set new. jTicker c = evTicker ev"
    using pgj.handle_event_log [of L ?y ev H H q y] E L(1) assms(2) L(4) w(1)
    by (auto simp: engine_io_def)
  have "gWorld g' = yWorld y" "gWorkers g' = (gWorkers (nRouter n))(evTicker ev := Some (yWorker y))"
    using w(3) E by (simp_all add: worker_step_def)
  moreover have "dbJournal (gWorld g') = dbJournal (gWorld (nRouter n)) @ map row_of new"
    using journal_logD(2) [OF L(1)] journal_logD(2) [OF new(1)] calculation(1) by simp
  ultimately show ?thesis
    using new(2) w(2) by (auto simp: EngineState_Err_cause intro!: exI [of _ "map row_of new"])
qed simp

lemma request_is_local_witness:
  "\<exists>g g' new. OrderRouter sample_H (engine_io sample_H) sample_create_event g = (Some None, g') \<and>
     dbJournal (gWorld g') = dbJournal (gWorld g) @ new \<and> map jrCommandID (dbJournal (gWorld g')) = [''k1'']"
proof -
  obtain g g1 where r: "OrderRouter sample_H (engine_io sample_H) sample_create_event g = (Some None, g1)"
    "map jrCommandID (dbJournal (gWorld g1)) = [''k1'']" "postgres_life sample_H (Inr (at_rest g))"
    by (rule sample_run)
  have "wire_event sample_create_event" by code_simp
  from request_is_local [OF r(3) this, of "Some None" g1] r(1)
  obtain new where "dbJournal (gWorld g1) = dbJournal (gWorld g) @ new" by auto
  then show ?thesis using r(1,2) by (intro exI conjI)
qed

text \<open>
  C30. A start serves every listed market and no other ticker, with an engine that is not halted,
  and no two markets share a ticker.
\<close>

theorem start_serves_markets:
  assumes "postgres_life H (Inl db)" "startEngine H (postgres_stores H) db = Inr g"
  shows "dom (gWorkers g) = krTicker ` set (dbMarkets (gWorld g)) \<and> esCause (gState g) = None \<and>
    distinct (map krTicker (dbMarkets (gWorld g)))"
proof -
  obtain L M where I: "journal_log L db" "market_rows M db" "listed_tickers M L"
    using postgres_served(2) [OF assms(1)] by (auto simp: consistent_def)
  have "market_rows M (gWorld g)" "dom (gWorkers g) = dom M" "gState g = NewEngineState"
    using pgs.start_served [OF I, of H H] assms(2) by (simp_all add: postgres_stores_def)
  then show ?thesis
    by (auto simp: market_rows_def dom_map_of_conv_image_fst row_market_def image_image NewEngineState_def)
qed

lemma start_serves_markets_witness:
  "\<exists>g. startEngine sample_H (postgres_stores sample_H) market_db = Inr g \<and>
     dom (gWorkers g) = krTicker ` set (dbMarkets (gWorld g))"
proof -
  obtain g where "startEngine sample_H (postgres_stores sample_H) market_db = Inr g" by (rule sample_run)
  with start_serves_markets [OF life_init [of fresh_database, OF market_db_fresh]] show ?thesis by blast
qed




section \<open>Markets\<close>

text \<open>
  C40. Adding a market normalises and lists it: an answer is the market of the trimmed, non-empty
  ticker with the precision that is stored for it, which validates; markets that were listed
  stay as they are, and no two share a ticker, also when the addition fails.
\<close>

theorem add_market_listed:
  assumes "distinct (map krTicker (dbMarkets db))" "AddMarket t db = (r, db')"
  shows "distinct (map krTicker (dbMarkets db')) \<and>
    map_of (map row_market (dbMarkets db)) \<subseteq>\<^sub>m map_of (map row_market (dbMarkets db')) \<and>
    (\<forall>a. r = Inr a \<longrightarrow> qTicker (adMarket a) = TrimSpace t \<and> TrimSpace t \<noteq> [] \<and>
       ValidatePrecision (qPrecision (adMarket a)) = None \<and>
       map_of (map row_market (dbMarkets db')) (TrimSpace t) = Some (qPrecision (adMarket a)))"
proof -
  have "market_rows (map_of (map row_market (dbMarkets db))) db" using assms(1) by (simp add: market_rows_def)
  from AddMarket_rows [OF this assms(2)]
  obtain M' where M': "market_rows M' db'" "map_of (map row_market (dbMarkets db)) \<subseteq>\<^sub>m M'"
    "\<And>a. r = Inr a \<Longrightarrow> qTicker (adMarket a) = TrimSpace t \<and> M' (TrimSpace t) = Some (qPrecision (adMarket a))"
    by auto
  have "TrimSpace t \<noteq> [] \<and> ValidatePrecision (qPrecision (adMarket a)) = None" if "r = Inr a" for a
    using assms(2) that registered_row_ok(2)
    by (auto simp: AddMarket_def NormalizeTicker_def Let_def split: if_splits sum.splits prod.splits)
  then show ?thesis using M' by (simp add: market_rows_def)
qed

lemma add_market_listed_witness:
  "case AddMarket '' ETH-USD '' market_db of
     (Inr a, db') \<Rightarrow> adInserted a \<and> qTicker (adMarket a) = ''ETH-USD'' \<and>
       map_of (map row_market (dbMarkets db')) ''ETH-USD'' = Some (qPrecision (adMarket a))
   | _ \<Rightarrow> False"
proof -
  have "case AddMarket '' ETH-USD '' market_db of (Inr a, db') \<Rightarrow> adInserted a | _ \<Rightarrow> False" by code_simp
  then obtain a db' where a: "AddMarket '' ETH-USD '' market_db = (Inr a, db')" "adInserted a"
    by (auto split: prod.splits sum.splits)
  have t: "TrimSpace '' ETH-USD '' = ''ETH-USD''" by code_simp
  have "distinct (map krTicker (dbMarkets market_db))" using market_db_fresh by (simp add: fresh_database_def)
  from add_market_listed [OF this a(1)] show ?thesis using a t by simp
qed

end
