(* ===== verification/Api.thy ===== *)
theory Api
  imports Router
begin

text \<open>
  The HTTP handlers of \<^verbatim>\<open>internal/api/handler.go\<close>. A request's body is the JSON values it spells
  and whether it ends cleanly after them (no syntax error, not over the size limit); a query
  string is its two parameters. A handler returns the status and the body it writes; \<open>None\<close> is
  a handler that never answers. The text of the responses is the standard library's.
\<close>

record Body =
  hValues :: "json list"
  hClean :: bool

record createOrderRequest =
  rcCommandID :: string
  rcTicker :: string
  rcUserID :: string
  rcOrderType :: OrderType
  rcPosition :: Position
  rcPrice :: string
  rcAmount :: string
  rcNonce :: int

record editOrderRequest =
  reCommandID :: string
  reTicker :: string
  reOrderID :: string
  rePrice :: string
  reAmount :: "string option"

record orderBookLevelResponse =
  olPrice :: string
  olAmount :: string
  olCumulativeAmount :: string

record orderBookResponse =
  obTicker :: string
  obBids :: "orderBookLevelResponse list"
  obAsks :: "orderBookLevelResponse list"

datatype response_body = StatusBody string | ErrorBody string | BookBody orderBookResponse

record Response =
  stStatus :: int
  stBody :: response_body

definition writeJSON :: "int \<Rightarrow> response_body \<Rightarrow> Response" where
  "writeJSON status value = \<lparr>stStatus = status, stBody = value\<rparr>"

lemma writeJSON_fields [simp]: "stStatus (writeJSON status value) = status" "stBody (writeJSON status value) = value"
  by (simp_all add: writeJSON_def)

definition writeError :: "int \<Rightarrow> string \<Rightarrow> Response" where
  "writeError status message = writeJSON status (ErrorBody message)"

definition invalid_request :: Response where
  "invalid_request = writeError 400 ''invalid request''"

text \<open>\<open>errors.Is\<close> against the engine's sentinels.\<close>

definition writeEngineError :: "error \<Rightarrow> Response" where
  "writeEngineError err =
     (case error_root err of
        ErrUnknownTicker _ \<Rightarrow> writeError 404 ''unknown ticker''
      | ErrTickerExists _ \<Rightarrow> writeError 409 ''ticker already exists''
      | ErrEmptyTicker \<Rightarrow> invalid_request
      | ErrEngineHalted _ \<Rightarrow> writeError 503 ''engine halted''
      | ErrHaltedSentinel \<Rightarrow> writeError 503 ''engine halted''
      | ErrRouterClosed \<Rightarrow> writeError 503 ''engine unavailable''
      | _ \<Rightarrow> writeError 500 ''internal error'')"

section \<open>Decoding\<close>

text \<open>The second \<open>Decode\<close> has to find the end of the body.\<close>

definition decodeJSON :: "'a field list \<Rightarrow> 'a \<Rightarrow> Body \<Rightarrow> 'a option" where
  "decodeJSON fs zero body =
     (case hValues body of
        [] \<Rightarrow> None
      | v # vs \<Rightarrow>
          (case unmarshal_object True fs v zero of
             None \<Rightarrow> None
           | Some x \<Rightarrow> if vs = [] \<and> hClean body then Some x else None))"

definition create_request_fields :: "createOrderRequest field list" where
  "create_request_fields =
     [(''command_id'', string_field (\<lambda>s r. r\<lparr>rcCommandID := s\<rparr>)),
      (''ticker'', string_field (\<lambda>s r. r\<lparr>rcTicker := s\<rparr>)),
      (''user_id'', string_field (\<lambda>s r. r\<lparr>rcUserID := s\<rparr>)),
      (''order_type'', string_field (\<lambda>s r. r\<lparr>rcOrderType := s\<rparr>)),
      (''position'', string_field (\<lambda>s r. r\<lparr>rcPosition := s\<rparr>)),
      (''price'', string_field (\<lambda>s r. r\<lparr>rcPrice := s\<rparr>)),
      (''amount'', string_field (\<lambda>s r. r\<lparr>rcAmount := s\<rparr>)),
      (''nonce'', uint_field (\<lambda>n r. r\<lparr>rcNonce := n\<rparr>))]"

definition zero_create_request :: createOrderRequest where
  "zero_create_request = \<lparr>rcCommandID = [], rcTicker = [], rcUserID = [], rcOrderType = [],
     rcPosition = [], rcPrice = [], rcAmount = [], rcNonce = 0\<rparr>"

definition edit_request_fields :: "editOrderRequest field list" where
  "edit_request_fields =
     [(''command_id'', string_field (\<lambda>s r. r\<lparr>reCommandID := s\<rparr>)),
      (''ticker'', string_field (\<lambda>s r. r\<lparr>reTicker := s\<rparr>)),
      (''order_id'', string_field (\<lambda>s r. r\<lparr>reOrderID := s\<rparr>)),
      (''price'', string_field (\<lambda>s r. r\<lparr>rePrice := s\<rparr>)),
      (''amount'', string_ptr_field (\<lambda>s r. r\<lparr>reAmount := s\<rparr>))]"

definition zero_edit_request :: editOrderRequest where
  "zero_edit_request = \<lparr>reCommandID = [], reTicker = [], reOrderID = [], rePrice = [], reAmount = None\<rparr>"

section \<open>Validating and parsing\<close>

definition validRawCreateOrder :: "createOrderRequest \<Rightarrow> bool" where
  "validRawCreateOrder raw =
     (if TrimSpace (rcCommandID raw) = [] \<or> TrimSpace (rcTicker raw) = [] \<or>
         TrimSpace (rcUserID raw) = [] \<or> TrimSpace (rcAmount raw) = [] then False
      else if (rcOrderType raw \<noteq> Limit \<and> rcOrderType raw \<noteq> Market) \<or>
              (rcPosition raw \<noteq> Bid \<and> rcPosition raw \<noteq> Ask) then False
      else if \<not> IsPositiveDecimal (rcAmount raw) then False
      else if rcPrice raw = [] then rcOrderType raw = Market
      else case DecimalSign (rcPrice raw) of
             Inl _ \<Rightarrow> False
           | Inr sign \<Rightarrow> if rcOrderType raw = Limit then sign > 0 else sign = 0)"

definition validRawEditOrder :: "editOrderRequest \<Rightarrow> bool" where
  "validRawEditOrder raw =
     (if TrimSpace (reCommandID raw) = [] \<or> TrimSpace (reTicker raw) = [] \<or>
         TrimSpace (reOrderID raw) = [] then False
      else if \<not> IsPositiveDecimal (rePrice raw) then False
      else case reAmount raw of None \<Rightarrow> True | Some amount \<Rightarrow> IsPositiveDecimal amount)"

definition validCreateOrder :: "CreateOrderRequest \<Rightarrow> bool" where
  "validCreateOrder r =
     (let validPrice = (if cOrderType r = Limit then cPrice r > 0
                        else if cOrderType r = Market then cPrice r = 0 else False)
      in TrimSpace (cCommandID r) \<noteq> [] \<and> TrimSpace (cTicker r) \<noteq> [] \<and> TrimSpace (cUserID r) \<noteq> [] \<and>
         (cOrderType r = Limit \<or> cOrderType r = Market) \<and> (cPosition r = Bid \<or> cPosition r = Ask) \<and>
         validPrice \<and> cAmount r > 0)"

definition validEditOrder :: "EditOrderRequest \<Rightarrow> bool" where
  "validEditOrder r \<longleftrightarrow>
     TrimSpace (eCommandID r) \<noteq> [] \<and> TrimSpace (eTicker r) \<noteq> [] \<and> TrimSpace (eOrderID r) \<noteq> [] \<and>
     ePrice r > 0 \<and> (case eAmount r of None \<Rightarrow> True | Some amount \<Rightarrow> amount > 0)"

text \<open>The price of a request: absent is zero; a limit price has to be valid, a market's zero.\<close>

definition parse_price :: "Precision \<Rightarrow> createOrderRequest \<Rightarrow> error + PriceTicks" where
  "parse_price precision raw =
     (case (if rcPrice raw = [] then Inr 0 else ParseScaled (rcPrice raw) (PriceScale precision)) of
        Inl err \<Rightarrow> Inl (NumericError err)
      | Inr price \<Rightarrow>
          if rcOrderType raw = Limit then
            (if price \<le> 0 then Inl (PlainError ''limit price is required'')
             else case validatePrice precision price of
                    Some err \<Rightarrow> Inl (NumericError err) | None \<Rightarrow> Inr price)
          else if rcOrderType raw = Market \<and> price \<noteq> 0
          then Inl (PlainError ''market order price must be zero'')
          else Inr price)"

definition parseCreateOrder :: "'w Router \<Rightarrow> createOrderRequest \<Rightarrow> error + CreateOrderRequest" where
  "parseCreateOrder g raw =
     (case MarketPrecision g (TrimSpace (rcTicker raw)) of
        Inl err \<Rightarrow> Inl err
      | Inr precision \<Rightarrow>
          (case parse_price precision raw of
             Inl err \<Rightarrow> Inl err
           | Inr price \<Rightarrow>
               (case ParseQuantity precision (rcAmount raw) of
                  Inl err \<Rightarrow> Inl (NumericError err)
                | Inr amount \<Rightarrow>
                    let r = \<lparr>cCommandID = rcCommandID raw, cTicker = TrimSpace (rcTicker raw),
                             cUserID = rcUserID raw, cOrderType = rcOrderType raw,
                             cPosition = rcPosition raw, cPrice = price, cAmount = amount,
                             cNonce = rcNonce raw\<rparr>
                    in if \<not> validCreateOrder r then Inl (PlainError ''invalid create order'')
                       else Inr r)))"

definition parse_edit_amount :: "Precision \<Rightarrow> string option \<Rightarrow> error + QuantityLots option" where
  "parse_edit_amount precision amount =
     (case amount of
        None \<Rightarrow> Inr None
      | Some raw \<Rightarrow>
          (case ParseQuantity precision raw of
             Inl err \<Rightarrow> Inl (NumericError err) | Inr q \<Rightarrow> Inr (Some q)))"

definition parseEditOrder :: "'w Router \<Rightarrow> editOrderRequest \<Rightarrow> error + EditOrderRequest" where
  "parseEditOrder g raw =
     (case MarketPrecision g (TrimSpace (reTicker raw)) of
        Inl err \<Rightarrow> Inl err
      | Inr precision \<Rightarrow>
          (case ParsePrice precision (rePrice raw) of
             Inl err \<Rightarrow> Inl (NumericError err)
           | Inr price \<Rightarrow>
               (case parse_edit_amount precision (reAmount raw) of
                  Inl err \<Rightarrow> Inl err
                | Inr amount \<Rightarrow>
                    let r = \<lparr>eCommandID = reCommandID raw, eTicker = TrimSpace (reTicker raw),
                             eOrderID = reOrderID raw, ePrice = price, eAmount = amount\<rparr>
                    in if \<not> validEditOrder r then Inl (PlainError ''invalid edit order'')
                       else Inr r)))"

section \<open>The order book response\<close>

definition formatLevels :: "OrderBookLevel list \<Rightarrow> Precision \<Rightarrow> orderBookLevelResponse list" where
  "formatLevels levels precision =
     map (\<lambda>l. \<lparr>olPrice = FormatPrice precision (slPrice l),
                olAmount = FormatQuantity precision (slAmount l),
                olCumulativeAmount = FormatQuantity precision (slCumulativeAmount l)\<rparr>) levels"

definition formatOrderBook :: "OrderBookSnapshot \<Rightarrow> Precision \<Rightarrow> orderBookResponse" where
  "formatOrderBook s precision =
     \<lparr>obTicker = snTicker s, obBids = formatLevels (snBids s) precision,
      obAsks = formatLevels (snAsks s) precision\<rparr>"

section \<open>The handlers\<close>

definition ready :: "'w Router \<Rightarrow> Response" where
  "ready g = (case Ready g of
     Some err \<Rightarrow> writeEngineError err | None \<Rightarrow> writeJSON 200 (StatusBody ''ready''))"

definition orderBook ::
  "digest \<Rightarrow> 'w worker_io \<Rightarrow> string \<Rightarrow> string \<Rightarrow> 'w Router \<Rightarrow> Response option" where
  "orderBook H io ticker depth g =
     (let ticker = TrimSpace ticker in
      case ParseInt depth of
        None \<Rightarrow> Some invalid_request
      | Some depth \<Rightarrow>
          if ticker = [] \<or> depth \<le> 0 then Some invalid_request
          else case OrderBookSnapshot_of H io ticker depth g of
                 None \<Rightarrow> None
               | Some (Inl err) \<Rightarrow> Some (writeEngineError err)
               | Some (Inr s) \<Rightarrow>
                   (case MarketPrecision g ticker of
                      Inl err \<Rightarrow> Some (writeEngineError err)
                    | Inr precision \<Rightarrow>
                        Some (writeJSON 200 (BookBody (formatOrderBook s precision)))))"

definition acceptCommand ::
  "digest \<Rightarrow> 'w worker_io \<Rightarrow> EngineEvent \<Rightarrow> 'w Router \<Rightarrow> Response option \<times> 'w Router" where
  "acceptCommand H io ev g =
     (case OrderRouter H io ev g of
        (None, g) \<Rightarrow> (None, g)
      | (Some (Some err), g) \<Rightarrow> (Some (writeEngineError err), g)
      | (Some None, g) \<Rightarrow> (Some (writeJSON 202 (StatusBody ''accepted'')), g))"

text \<open>A request that does not parse: the engine's answer for two errors, an invalid request else.\<close>

definition parse_error_response :: "error \<Rightarrow> Response" where
  "parse_error_response err =
     (case error_root err of
        ErrUnknownTicker _ \<Rightarrow> writeEngineError err
      | ErrRouterClosed \<Rightarrow> writeEngineError err
      | _ \<Rightarrow> invalid_request)"

definition command_event :: "EventType \<Rightarrow> string \<Rightarrow> EngineEvent" where
  "command_event t ticker =
     \<lparr>evType = t, evTicker = ticker, evNewOrder = None, evCancelReq = None, evEditReq = None,
      evSnapshotDepth = 0\<rparr>"

definition createOrder ::
  "digest \<Rightarrow> 'w worker_io \<Rightarrow> Body \<Rightarrow> 'w Router \<Rightarrow> Response option \<times> 'w Router" where
  "createOrder H io body g =
     (case decodeJSON create_request_fields zero_create_request body of
        None \<Rightarrow> (Some invalid_request, g)
      | Some raw \<Rightarrow>
          if \<not> validRawCreateOrder raw then (Some invalid_request, g)
          else case parseCreateOrder g raw of
                 Inl err \<Rightarrow> (Some (parse_error_response err), g)
               | Inr r \<Rightarrow>
                   acceptCommand H io
                     ((command_event NewOrder (cTicker r))\<lparr>evNewOrder := Some r\<rparr>) g)"

definition amendOrder ::
  "digest \<Rightarrow> 'w worker_io \<Rightarrow> Body \<Rightarrow> 'w Router \<Rightarrow> Response option \<times> 'w Router" where
  "amendOrder H io body g =
     (case decodeJSON edit_request_fields zero_edit_request body of
        None \<Rightarrow> (Some invalid_request, g)
      | Some raw \<Rightarrow>
          if \<not> validRawEditOrder raw then (Some invalid_request, g)
          else case parseEditOrder g raw of
                 Inl err \<Rightarrow> (Some (parse_error_response err), g)
               | Inr r \<Rightarrow>
                   acceptCommand H io
                     ((command_event EditOrder (eTicker r))\<lparr>evEditReq := Some r\<rparr>) g)"

definition cancelOrder ::
  "digest \<Rightarrow> 'w worker_io \<Rightarrow> Body \<Rightarrow> 'w Router \<Rightarrow> Response option \<times> 'w Router" where
  "cancelOrder H io body g =
     (case decodeJSON cancel_fields zero_cancel body of
        None \<Rightarrow> (Some invalid_request, g)
      | Some r \<Rightarrow>
          if TrimSpace (xCommandID r) = [] \<or> TrimSpace (xTicker r) = [] \<or> TrimSpace (xOrderID r) = []
          then (Some invalid_request, g)
          else acceptCommand H io ((command_event CancelOrder (xTicker r))\<lparr>evCancelReq := Some r\<rparr>) g)"

definition ticker_fields :: "string field list" where
  "ticker_fields = [(''ticker'', string_field (\<lambda>s _. s))]"

definition addTicker ::
  "(string \<Rightarrow> 'w Router \<Rightarrow> error option \<times> 'w Router) option \<Rightarrow> Body \<Rightarrow> 'w Router \<Rightarrow>
   Response \<times> 'w Router" where
  "addTicker adder body g =
     (case decodeJSON ticker_fields [] body of
        None \<Rightarrow> (invalid_request, g)
      | Some ticker \<Rightarrow>
          if TrimSpace ticker = [] then (invalid_request, g)
          else case adder of
                 None \<Rightarrow> (writeError 503 ''ticker management unavailable'', g)
               | Some add \<Rightarrow>
                   (case add (TrimSpace ticker) g of
                      (Some err, g) \<Rightarrow> (writeEngineError err, g)
                    | (None, g) \<Rightarrow> (writeJSON 201 (StatusBody ''added''), g)))"

end
