(* ===== verification/Http.thy ===== *)
theory Http
  imports Api
begin

text \<open>
  The routing of requests to the handlers, \<open>newHandler\<close> of \<^verbatim>\<open>internal/api/handler.go\<close>, over the
  \<^verbatim>\<open>ServeMux\<close> of \<^verbatim>\<open>net/http\<close> as its documentation has it for patterns without hosts and
  wildcards. A request is its verb, its path as it is escaped in the URL, the two parameters
  of its query and its body; its target is a path. A path that is not clean is redirected to the
  clean one; a pat matches a path whose segments unescape to its own, and the verb
  \<^verbatim>\<open>GET\<close> matches \<^verbatim>\<open>HEAD\<close> as well.
\<close>

record HttpRequest =
  rqMethod :: string
  rqPath :: string
  rqTicker :: string
  rqDepth :: string
  rqBody :: Body

section \<open>Paths\<close>

fun clean_segments :: "string list \<Rightarrow> string list \<Rightarrow> string list" where
  "clean_segments kept [] = rev kept"
| "clean_segments kept (s # ss) =
     (if s = [] \<or> s = ''.'' then clean_segments kept ss
      else if s = ''..'' then clean_segments (tl kept) ss
      else clean_segments (s # kept) ss)"

definition cleanPath :: "string \<Rightarrow> string" where
  "cleanPath p =
     (if p = [] then ''/''
      else let segments = clean_segments [] (Split p (CHR ''/''));
               np = (if segments = [] then ''/'' else concat (map (\<lambda>s. CHR ''/'' # s) segments))
           in if last p = CHR ''/'' \<and> np \<noteq> ''/'' then np @ ''/'' else np)"

definition hex_digit :: "char \<Rightarrow> nat option" where
  "hex_digit c =
     (let n = of_char c :: nat in
      if 48 \<le> n \<and> n \<le> 57 then Some (n - 48)
      else if 65 \<le> n \<and> n \<le> 70 then Some (n - 55)
      else if 97 \<le> n \<and> n \<le> 102 then Some (n - 87)
      else None)"

fun PathUnescape :: "string \<Rightarrow> string option" where
  "PathUnescape [] = Some []"
| "PathUnescape (c # s) =
     (if c = CHR ''%'' then
        (case s of
           a # b # s \<Rightarrow>
             (case (hex_digit a, hex_digit b, PathUnescape s) of
                (Some m, Some n, Some s) \<Rightarrow> Some (char_of (16 * m + n) # s)
              | _ \<Rightarrow> None)
         | _ \<Rightarrow> None)
      else map_option ((#) c) (PathUnescape s))"

definition unescape_segment :: "string \<Rightarrow> string" where
  "unescape_segment s = (case PathUnescape s of None \<Rightarrow> s | Some s \<Rightarrow> s)"

text \<open>The segments behind the first slash; a slash at the end leaves an empty one.\<close>

definition path_segments :: "string \<Rightarrow> string list" where
  "path_segments path = map unescape_segment (Split (tl path) (CHR ''/''))"

section \<open>The multiplexer\<close>

type_synonym 'w route = "string \<times> string \<times> (HttpRequest \<Rightarrow> 'w Router \<Rightarrow> Response option \<times> 'w Router)"

datatype http_answer = Answered Response | Redirected string | MethodNotAllowed "string list" | PageNotFound

definition method_matches :: "string \<Rightarrow> string \<Rightarrow> bool" where
  "method_matches pat verb \<longleftrightarrow> verb = pat \<or> pat = ''GET'' \<and> verb = ''HEAD''"

definition path_matches :: "string \<Rightarrow> string \<Rightarrow> bool" where
  "path_matches pat path \<longleftrightarrow> path_segments path = Split (tl pat) (CHR ''/'')"

definition allowed_methods :: "'w route list \<Rightarrow> string \<Rightarrow> string list" where
  "allowed_methods routes path =
     concat (map (\<lambda>(verb, pat, _).
       if path_matches pat path then (if verb = ''GET'' then [''GET'', ''HEAD''] else [verb]) else []) routes)"

definition serveHTTP :: "'w route list \<Rightarrow> HttpRequest \<Rightarrow> 'w Router \<Rightarrow> http_answer option \<times> 'w Router" where
  "serveHTTP routes rq g =
     (let path = (if rqMethod rq = ''CONNECT'' then rqPath rq else cleanPath (rqPath rq)) in
      if path \<noteq> rqPath rq then (Some (Redirected path), g)
      else case find (\<lambda>(verb, pat, _). method_matches verb (rqMethod rq) \<and> path_matches pat path) routes of
             Some (_, _, handle) \<Rightarrow>
               (case handle rq g of (resp, g) \<Rightarrow> (map_option Answered resp, g))
           | None \<Rightarrow>
               (case allowed_methods routes path of
                  [] \<Rightarrow> (Some PageNotFound, g)
                | methods \<Rightarrow> (Some (MethodNotAllowed methods), g)))"

section \<open>The routes\<close>

definition newHandler ::
  "digest \<Rightarrow> 'w worker_io \<Rightarrow> (string \<Rightarrow> 'w Router \<Rightarrow> error option \<times> 'w Router) option \<Rightarrow> 'w route list" where
  "newHandler H io adder =
     [(''GET'', ''/ready'', \<lambda>_ g. (Some (ready g), g)),
      (''GET'', ''/queries/orderbook'', \<lambda>rq g. (orderBook H io (rqTicker rq) (rqDepth rq) g, g)),
      (''POST'', ''/commands/orders/create'', \<lambda>rq. createOrder H io (rqBody rq)),
      (''POST'', ''/commands/orders/amend'', \<lambda>rq. amendOrder H io (rqBody rq)),
      (''POST'', ''/commands/orders/cancel'', \<lambda>rq. cancelOrder H io (rqBody rq)),
      (''POST'', ''/commands/tickers/add'', \<lambda>rq g. (case addTicker adder (rqBody rq) g of (resp, g) \<Rightarrow> (Some resp, g)))]"

definition NewHandler :: "digest \<Rightarrow> 'w worker_io \<Rightarrow> 'w route list" where
  "NewHandler H io = newHandler H io None"

definition NewHandlerWithTickerAdder ::
  "digest \<Rightarrow> 'w worker_io \<Rightarrow> (string \<Rightarrow> 'w Router \<Rightarrow> error option \<times> 'w Router) option \<Rightarrow> 'w route list" where
  "NewHandlerWithTickerAdder H io adder = newHandler H io adder"

text \<open>What becomes of a request: a route's handler takes it, or it is answered and nothing changes.\<close>

lemma serveHTTP_cases:
  assumes "serveHTTP routes rq g = (r, g')"
  obtains (handled) verb pat handle resp where "(verb, pat, handle) \<in> set routes"
      "method_matches verb (rqMethod rq)" "path_matches pat (rqPath rq)" "handle rq g = (resp, g')"
      "r = map_option Answered resp"
    | (refused) answer where "r = Some answer" "g' = g" "\<And>resp. answer \<noteq> Answered resp"
proof -
  let ?P = "\<lambda>(verb, pat, _). method_matches verb (rqMethod rq) \<and> path_matches pat (rqPath rq)"
  have found: "x \<in> set xs \<and> P x" if "find P xs = Some x" for P x and xs :: "'a route list"
    using that by (auto simp: find_Some_iff)
  show ?thesis
  proof (cases "(if rqMethod rq = ''CONNECT'' then rqPath rq else cleanPath (rqPath rq)) = rqPath rq")
    case True
    note A = assms [unfolded serveHTTP_def Let_def True, simplified]
    show ?thesis
    proof (cases "find ?P routes")
      case None
      then show ?thesis using A refused by (cases "allowed_methods routes (rqPath rq)") auto
    next
      case (Some x)
      then show ?thesis using A found [OF Some] handled by (cases x) (auto split: prod.splits)
    qed
  qed (use assms refused in \<open>auto simp: serveHTTP_def Let_def\<close>)
qed

end
