(* ===== verification/Utf8.thy ===== *)
theory Utf8
  imports Json
begin

text \<open>
  Trimming white space keeps a string valid UTF-8: no rune straddles the end of a leading space
  or the start of a trailing one.
\<close>

text \<open>The first byte decides how many bytes of continuation a rune has.\<close>

lemma first_byte:
  obtains (one) "byte_in 0 127 c" "\<And>cs. rune_len (c # cs) = 1"
  | (two) "\<And>cs. rune_len (c # cs) = (if continuation cs 1 then 2 else 0)"
  | (three) "\<And>cs. rune_len (c # cs) = (if continuation cs 2 \<and> (byte_in 224 224 c \<longrightarrow> byte_in 160 191 (hd cs)) \<and>
      (byte_in 237 237 c \<longrightarrow> byte_in 128 159 (hd cs)) then 3 else 0)"
  | (four) "\<And>cs. rune_len (c # cs) = (if continuation cs 3 \<and> (byte_in 240 240 c \<longrightarrow> byte_in 144 191 (hd cs)) \<and>
      (byte_in 244 244 c \<longrightarrow> byte_in 128 143 (hd cs)) then 4 else 0)"
  | (none) "\<And>cs. rune_len (c # cs) = 0"
proof -
  consider "byte_in 0 127 c" | "\<not> byte_in 0 127 c" "byte_in 194 223 c"
    | "\<not> byte_in 0 127 c" "\<not> byte_in 194 223 c" "byte_in 224 239 c"
    | "\<not> byte_in 0 127 c" "\<not> byte_in 194 223 c" "\<not> byte_in 224 239 c" "byte_in 240 244 c"
    | "\<not> byte_in 0 127 c" "\<not> byte_in 194 223 c" "\<not> byte_in 224 239 c" "\<not> byte_in 240 244 c"
    by blast
  then show ?thesis
  proof cases
    case 1
    then show ?thesis by (intro one) (simp_all add: rune_len_def)
  next
    case 2
    then show ?thesis by (intro two) (simp add: rune_len_def)
  next
    case 3
    then show ?thesis by (intro three) (simp add: rune_len_def)
  next
    case 4
    then show ?thesis by (intro four) (simp add: rune_len_def)
  next
    case 5
    then show ?thesis by (intro none) (simp add: rune_len_def)
  qed
qed

lemma continuation_append:
  "continuation s n \<Longrightarrow> continuation (s @ t) n"
  "n \<le> length s \<Longrightarrow> continuation (s @ t) n = continuation s n"
  by (simp_all add: continuation_def)

lemma continuation_hd:
  "n \<le> length s \<Longrightarrow> 0 < n \<Longrightarrow> hd (s @ t) = hd s" "continuation s n \<Longrightarrow> 0 < n \<Longrightarrow> hd (s @ t) = hd s"
  by (cases s, simp, simp) (cases s, simp_all add: continuation_def)

lemma rune_len_append:
  assumes "0 < rune_len s"
  shows "rune_len (s @ t) = rune_len s"
proof (cases s)
  case (Cons c cs)
  show ?thesis
    by (rule first_byte [of c])
      (use assms Cons continuation_append(1) [of cs _ t] continuation_hd(2) [of cs _ t] in \<open>auto split: if_splits\<close>)
qed (use assms in \<open>simp add: rune_len_def\<close>)

lemma rune_len_prefix:
  assumes "0 < rune_len (s @ t)" "rune_len (s @ t) \<le> length s"
  shows "rune_len s = rune_len (s @ t)"
proof (cases s)
  case (Cons c cs)
  show ?thesis
    by (rule first_byte [of c])
      (use assms Cons continuation_append(2) [of _ cs t] continuation_hd(1) [of _ cs t] in \<open>auto split: if_splits\<close>)
qed (use assms in simp)

lemma rune_len_continuation:
  assumes "0 < i" "i < rune_len s"
  shows "byte_in 128 191 (s ! i)"
proof (cases s)
  case (Cons c cs)
  have k: "byte_in 128 191 (cs ! j)" if "continuation cs n" "j < n" for j n
    using that by (auto simp: continuation_def list_all_length)
  obtain j where i: "i = Suc j" using assms(1) by (cases i) auto
  show ?thesis
    by (rule first_byte [of c])
      (use assms(2) k [of 1 j] k [of 2 j] k [of 3 j] Cons i in \<open>auto split: if_splits\<close>)
qed (use assms in \<open>simp add: rune_len_def\<close>)

lemma valid_utf8_rune:
  "s \<noteq> [] \<Longrightarrow> valid_utf8 s = (rune_len s \<noteq> 0 \<and> valid_utf8 (drop (rune_len s) s))"
  by (cases s) (simp_all add: valid_utf8.simps(2) Let_def)

lemma space_rune:
  assumes "t \<in> set space_runes"
  shows "rune_len t = length t" "t \<noteq> []" "\<not> byte_in 128 191 (hd t)"
proof -
  have "list_all (\<lambda>t. rune_len t = length t \<and> t \<noteq> [] \<and> \<not> byte_in 128 191 (hd t)) space_runes" by code_simp
  then show "rune_len t = length t" "t \<noteq> []" "\<not> byte_in 128 191 (hd t)"
    using assms by (simp_all add: list_all_iff)
qed

lemma valid_utf8_drop_space: "valid_utf8 (t @ s) \<Longrightarrow> t \<in> set space_runes \<Longrightarrow> valid_utf8 s"
  using space_rune [of t] rune_len_append [of t s] valid_utf8_rune [of "t @ s"] by simp

lemma valid_utf8_cut_space:
  assumes "t \<in> set space_runes"
  shows "valid_utf8 (s @ t) \<Longrightarrow> valid_utf8 s"
proof (induction s rule: length_induct)
  case (1 s)
  note T = space_rune [OF assms]
  show ?case
  proof (cases "s = []")
    case False
    have v: "rune_len (s @ t) \<noteq> 0" "valid_utf8 (drop (rune_len (s @ t)) (s @ t))"
      using 1 False valid_utf8_rune [of "s @ t"] by simp_all
    have le: "rune_len (s @ t) \<le> length s"
    proof (rule ccontr)
      assume "\<not> rune_len (s @ t) \<le> length s"
      then have "byte_in 128 191 ((s @ t) ! length s)" using False by (intro rune_len_continuation) auto
      then show False using T(2,3) by (simp add: nth_append hd_conv_nth)
    qed
    then have "valid_utf8 (drop (rune_len (s @ t)) s)"
      using 1 v False by auto
    then show ?thesis using v(1) le False valid_utf8_rune [of s] rune_len_prefix [OF _ le] by simp
  qed simp
qed

lemma head_len_prefix: "head_len ts s \<noteq> 0 \<Longrightarrow> \<exists>t \<in> set ts. prefix t s \<and> head_len ts s = length t"
  by (induction ts) (auto split: if_splits)

lemma trim_front_inv:
  assumes "\<And>t s. t \<in> set ts \<Longrightarrow> P (t @ s) \<Longrightarrow> P s"
  shows "P s \<Longrightarrow> P (trim_front ts s)"
  using assms
proof (induction ts s rule: trim_front.induct)
  case (1 ts s)
  show ?case
  proof (cases "head_len ts s = 0 \<or> s = []")
    case True
    then show ?thesis using 1(2) trim_front_stop by metis
  next
    case False
    then obtain t s' where t: "t \<in> set ts" "s = t @ s'" "head_len ts s = length t"
      using head_len_prefix [of ts s] by (auto simp: prefix_def)
    then have "P (drop (head_len ts s) s)" using 1(2,3) by simp
    then show ?thesis using 1(1) [OF False] 1(3) False by (subst trim_front.simps) simp
  qed
qed

lemma valid_utf8_TrimSpace:
  assumes "valid_utf8 s"
  shows "valid_utf8 (TrimSpace s)"
proof -
  have "valid_utf8 (trim_front space_runes s)"
    by (rule trim_front_inv [where P = valid_utf8]) (use assms valid_utf8_drop_space in blast)+
  moreover have "valid_utf8 (rev r)" if "t \<in> set (map rev space_runes)" "valid_utf8 (rev (t @ r))" for t r
    using that valid_utf8_cut_space by auto
  ultimately show ?thesis
    unfolding TrimSpace_def by (intro trim_front_inv [where P = "\<lambda>r. valid_utf8 (rev r)"]) auto
qed

end
