(* ===== verification/ApiProperties.thy ===== *)
theory ApiProperties
  imports Http RestartProperties Utf8
begin

text \<open>
  The properties of the HTTP boundary, alone and over the engine on its PostgreSQL stores: every
  request is answered, a client's error changes nothing, what the handlers parse is what the
  journal accepts, and a create that is accepted is journalled.
\<close>

section \<open>Answers\<close>

lemma handle_event_ack:
  assumes "isCommandEvent (evType ev)" "handle_event H io ev y = (r, y')"
  shows "\<exists>e. r = Ack e \<and> (e \<noteq> None \<longrightarrow> y' = y \<or> (\<exists>cause. e = Some (ErrEngineHalted cause)))"
proof (cases "commandFromEvent (yWorker y) ev \<noteq> None \<and> EngineState_Err (yState y) = None \<and>
    (evTicker ev = [] \<or> evTicker ev = wTicker (yWorker y))")
  case False
  then have "y' = y" using handle_event_guards [OF assms(2)] by blast
  moreover have "evType ev \<noteq> snapshotOrderBook" using assms(1) by (auto simp: isCommandEvent_def)
  then have "\<exists>e. r = Ack e"
    using assms False by (cases "commandFromEvent (yWorker y) ev") (auto simp: handle_event_def split: if_splits)
  ultimately show ?thesis by blast
next
  case True
  then obtain c where c: "commandFromEvent (yWorker y) ev = Some c" by blast
  have halted: "\<exists>e. r = Ack e \<and> (e \<noteq> None \<longrightarrow> y' = y \<or> (\<exists>cause. e = Some (ErrEngineHalted cause)))"
    if "(r, y') = halt_ack err x" for err x
    using that Halt_some [of "yState x" "Some err"] by (auto simp: halt_ack_def Let_def EngineState_Err_cause haltedError_def)
  note E = assms(2) [unfolded handle_event_command [OF c conjunct1 [OF conjunct2 [OF True]] conjunct2 [OF conjunct2 [OF True]]], symmetric]
  show ?thesis
  proof (cases "ioAppend io")
    case None
    then show ?thesis using E by (intro halted) simp
  next
    case (Some f)
    obtain a s1 where A: "f c (yWorld y) = (a, s1)" by (cases "f c (yWorld y)")
    show ?thesis
    proof (cases a)
      case (Inl err)
      then show ?thesis using E Some A by (intro halted) simp
    next
      case (Inr ap)
      obtain err w s2 where P: "apply_and_persist H io (yWorker y) (apCommand ap) s1 = (err, w, s2)"
        by (cases "apply_and_persist H io (yWorker y) (apCommand ap) s1")
      show ?thesis
      proof (cases "apInserted ap \<and> err \<noteq> None")
        case True
        then have "(r, y') = halt_ack (the err) (y\<lparr>yWorker := w, yWorld := s2\<rparr>)"
          using E Some A Inr P by (auto simp: Let_def)
        then show ?thesis by (rule halted)
      next
        case False
        then have "r = Ack None" using E Some A Inr P by (auto simp: Let_def split: if_splits)
        then show ?thesis by blast
      qed
    qed
  qed
qed

lemma OrderRouter_answers:
  assumes "isCommandEvent (evType ev)" "OrderRouter H io ev g = (r, g')"
  shows "\<exists>e. r = Some e \<and> (e \<noteq> None \<longrightarrow> g' = g \<or> (\<exists>cause. e = Some (ErrEngineHalted cause)))"
proof (cases "gClosed g \<or> EngineState_Err (gState g) \<noteq> None \<or> isl (workerLocked g (evTicker ev))")
  case True
  then show ?thesis using assms(2) by (auto simp: OrderRouter_def split: sum.splits option.splits if_splits)
next
  case False
  then obtain w where w: "workerLocked g (evTicker ev) = Inr w" by (cases "workerLocked g (evTicker ev)") auto
  then have worker: "gWorkers g (evTicker ev) = Some w"
    by (auto simp: workerLocked_def split: if_splits option.splits)
  let ?y = "\<lparr>yWorker = w, yState = gState g, yWorld = gWorld g\<rparr>"
  obtain q y where E: "handle_event H io ev ?y = (q, y)" by (cases "handle_event H io ev ?y")
  obtain e where e: "q = Ack e" "e \<noteq> None \<longrightarrow> y = ?y \<or> (\<exists>cause. e = Some (ErrEngineHalted cause))"
    using handle_event_ack [OF assms(1) E] by blast
  have R: "r = Some e" "g' = g\<lparr>gWorkers := (gWorkers g)(evTicker ev := Some (yWorker y)), gState := yState y, gWorld := yWorld y\<rparr>"
    using assms(2) False w E e(1) by (simp_all add: OrderRouter_def worker_step_def)
  have "g' = g" if "y = ?y"
    using R(2) worker that by (simp add: fun_upd_idem)
  then show ?thesis using R(1) e(2) by blast
qed

lemma acceptCommand_answers:
  assumes "isCommandEvent (evType ev)" "acceptCommand H io ev g = (r, g')"
  shows "\<exists>resp. r = Some resp \<and> (400 \<le> stStatus resp \<and> stStatus resp < 500 \<longrightarrow> g' = g) \<and>
    (stStatus resp = 202 \<longrightarrow> OrderRouter H io ev g = (Some None, g'))"
proof -
  obtain q g1 where Q: "OrderRouter H io ev g = (q, g1)" by (cases "OrderRouter H io ev g")
  obtain e where e: "q = Some e" "e \<noteq> None \<longrightarrow> g1 = g \<or> (\<exists>cause. e = Some (ErrEngineHalted cause))"
    using OrderRouter_answers [OF assms(1) Q] by blast
  have "stStatus (writeEngineError x) \<noteq> 202" for x
    by (auto simp: writeEngineError_def writeError_def invalid_request_def split: error.splits)
  moreover have "stStatus (writeEngineError (ErrEngineHalted c)) = 503" for c
    by (simp add: writeEngineError_def writeError_def)
  ultimately show ?thesis using assms(2) Q e by (cases e) (auto simp: acceptCommand_def)
qed

lemma invalid_request_status [simp]: "stStatus invalid_request = 400"
  by (simp add: invalid_request_def writeError_def)

lemma parse_error_status [simp]: "stStatus (parse_error_response err) \<noteq> 202"
  by (auto simp: parse_error_response_def writeEngineError_def writeError_def split: error.splits)

lemma command_event_type [simp]:
  "evType (command_event t ticker) = t" "evTicker (command_event t ticker) = ticker"
  by (simp_all add: command_event_def)

lemma command_event_commands:
  "isCommandEvent (evType ((command_event NewOrder a)\<lparr>evNewOrder := b\<rparr>))"
  "isCommandEvent (evType ((command_event EditOrder a)\<lparr>evEditReq := c\<rparr>))"
  "isCommandEvent (evType ((command_event CancelOrder a)\<lparr>evCancelReq := d\<rparr>))"
  by (simp_all add: isCommandEvent_def)

text \<open>What a handler of a command does: it refuses the request and changes nothing, or routes its event.\<close>

lemma createOrder_cases:
  assumes "createOrder H io body g = (r, g')"
  obtains (refused) resp where "r = Some resp" "g' = g" "stStatus resp \<noteq> 202"
    | (routed) raw p where "decodeJSON create_request_fields zero_create_request body = Some raw"
      "validRawCreateOrder raw" "parseCreateOrder g raw = Inr p"
      "acceptCommand H io ((command_event NewOrder (cTicker p))\<lparr>evNewOrder := Some p\<rparr>) g = (r, g')"
  using assms by (auto simp: createOrder_def split: option.splits sum.splits if_splits)

lemma amendOrder_cases:
  assumes "amendOrder H io body g = (r, g')"
  obtains (refused) resp where "r = Some resp" "g' = g" "stStatus resp \<noteq> 202"
    | (routed) p where "acceptCommand H io ((command_event EditOrder (eTicker p))\<lparr>evEditReq := Some p\<rparr>) g = (r, g')"
  using assms by (auto simp: amendOrder_def split: option.splits sum.splits if_splits)

lemma cancelOrder_cases:
  assumes "cancelOrder H io body g = (r, g')"
  obtains (refused) resp where "r = Some resp" "g' = g" "stStatus resp \<noteq> 202"
    | (routed) p where "acceptCommand H io ((command_event CancelOrder (xTicker p))\<lparr>evCancelReq := Some p\<rparr>) g = (r, g')"
  using assms by (auto simp: cancelOrder_def split: option.splits if_splits)

text \<open>The handlers of commands answer, and where they blame the client they changed nothing.\<close>

lemma commands_answered:
  "list_all (\<lambda>handler. \<exists>resp g'. handler = (Some resp, g') \<and>
      \<not> (400 \<le> stStatus resp \<and> stStatus resp < 500 \<and> g' \<noteq> g))
    [createOrder H io body g, amendOrder H io body g, cancelOrder H io body g]"
proof -
  have answered: "\<exists>resp g'. handler = (Some resp, g') \<and> \<not> (400 \<le> stStatus resp \<and> stStatus resp < 500 \<and> g' \<noteq> g)"
    if "handler = (r, g')" "(\<exists>resp. r = Some resp \<and> g' = g) \<or>
      (\<exists>ev. isCommandEvent (evType ev) \<and> acceptCommand H io ev g = (r, g'))" for handler r g'
    using that acceptCommand_answers [of _ H io g r g'] by blast
  have "\<exists>resp g'. createOrder H io body g = (Some resp, g') \<and> \<not> (400 \<le> stStatus resp \<and> stStatus resp < 500 \<and> g' \<noteq> g)"
  proof (cases "createOrder H io body g")
    case (Pair r g')
    then show ?thesis by (rule answered) (use createOrder_cases [OF Pair] command_event_commands in metis)
  qed
  moreover have "\<exists>resp g'. amendOrder H io body g = (Some resp, g') \<and> \<not> (400 \<le> stStatus resp \<and> stStatus resp < 500 \<and> g' \<noteq> g)"
  proof (cases "amendOrder H io body g")
    case (Pair r g')
    then show ?thesis by (rule answered) (use amendOrder_cases [OF Pair] command_event_commands in metis)
  qed
  moreover have "\<exists>resp g'. cancelOrder H io body g = (Some resp, g') \<and> \<not> (400 \<le> stStatus resp \<and> stStatus resp < 500 \<and> g' \<noteq> g)"
  proof (cases "cancelOrder H io body g")
    case (Pair r g')
    then show ?thesis by (rule answered) (use cancelOrder_cases [OF Pair] command_event_commands in metis)
  qed
  ultimately show ?thesis by simp
qed

lemma orderBook_answers:
  assumes "\<forall>t w. gWorkers g t = Some w \<longrightarrow> wTicker w = t"
  shows "orderBook H io ticker depth g \<noteq> None"
proof -
  have [simp]: "(OrderBookSnapshot_of H io t d g = None) = False" for t d
    using assms
    by (auto simp: OrderBookSnapshot_of_def workerLocked_def worker_step_def handle_event_def snapshot_event_def
        isCommandEvent_def split: option.splits)
  then show ?thesis by (auto simp: orderBook_def Let_def split: option.splits sum.splits)
qed

definition order_commands :: "string list" where
  "order_commands = [''/commands/orders/create'', ''/commands/orders/amend'', ''/commands/orders/cancel'']"

text \<open>
  C38. Every request is answered: whatever its method, path, query and body, the state of the engine
  and the stores, as long as every worker is registered under its own ticker, the server answers,
  and what the engine is only changes by a \<^verbatim>\<open>POST\<close> to one of the four command paths. An order
  command that is answered with a client's error, a status from 400 to 499, changed nothing.
\<close>

theorem requests_answered:
  assumes "\<forall>t w. gWorkers g t = Some w \<longrightarrow> wTicker w = t" "serveHTTP (newHandler H io adder) rq g = (r, g')"
  shows "r \<noteq> None \<and> (g' = g \<or> rqMethod rq = ''POST'' \<and>
    (path_matches ''/commands/tickers/add'' (rqPath rq) \<or>
     (\<exists>p \<in> set order_commands. path_matches p (rqPath rq)) \<and>
     (\<exists>resp. r = Some (Answered resp) \<and> \<not> (400 \<le> stStatus resp \<and> stStatus resp < 500))))"
  using assms(2)
proof (cases rule: serveHTTP_cases)
  case (handled verb pat handle resp)
  note commands = commands_answered [where H = H and io = io and body = "rqBody rq" and g = g, unfolded list.pred_inject]
  consider "handle = (\<lambda>_ g. (Some (ready g), g))"
    | "handle = (\<lambda>rq g. (orderBook H io (rqTicker rq) (rqDepth rq) g, g))"
    | "verb = ''POST''" "pat = ''/commands/tickers/add''" "resp \<noteq> None"
    | "verb = ''POST''" "pat \<in> set order_commands"
      "handle rq g \<in> {createOrder H io (rqBody rq) g, amendOrder H io (rqBody rq) g, cancelOrder H io (rqBody rq) g}"
    using handled(1,4) by (auto simp: newHandler_def order_commands_def split: prod.splits)
  then show ?thesis
  proof cases
    case 4
    then obtain a where "resp = Some a" "\<not> (400 \<le> stStatus a \<and> stStatus a < 500 \<and> g' \<noteq> g)"
      using commands handled(4) by auto
    then show ?thesis using 4 handled(2,3,5) by (auto simp: method_matches_def)
  next
    case 3
    then show ?thesis using handled(2,3,5) by (auto simp: method_matches_def)
  next
    case 2
    then show ?thesis using handled(4,5) orderBook_answers [OF assms(1)] by auto
  next
    case 1
    then show ?thesis using handled(4,5) by auto
  qed
qed simp

lemma requests_answered_witness:
  "list_all (\<lambda>(verb, path). fst (serveHTTP (newHandler sample_H (engine_io sample_H) None)
       \<lparr>rqMethod = verb, rqPath = path, rqTicker = ''BTC-USD'', rqDepth = ''5'', rqBody = \<lparr>hValues = [], hClean = True\<rparr>\<rparr>
       (NewRouter market_db)) \<noteq> None)
     [(''GET'', ''/queries/orderbook''), (''POST'', ''/commands/orders/create''), (''HEAD'', ''/re%61dy''),
      (''DELETE'', ''/ready''), (''GET'', ''/a/..//ready'')]"
proof -
  have "fst (serveHTTP (newHandler sample_H (engine_io sample_H) None) rq (NewRouter market_db)) \<noteq> None" for rq
    using requests_answered [of "NewRouter market_db" sample_H "engine_io sample_H" None rq]
    by (cases "serveHTTP (newHandler sample_H (engine_io sample_H) None) rq (NewRouter market_db)") (auto simp: NewRouter_def)
  then show ?thesis by simp
qed

section \<open>What the handlers parse\<close>

lemma ParseScaled_int64: "ParseScaled raw scale = Inr v \<Longrightarrow> int64 v"
  by (auto simp: ParseScaled_def ParseInt_def Let_def int64_def min_int64_def max_int64_def
      split: if_splits option.splits)

lemma parse_precision:
  assumes "MarketPrecision g t = Inr p" "gWorkers g t = Some w"
  shows "p = wPrecision w"
  using assms by (auto simp: MarketPrecision_def workerLocked_def split: if_splits)

lemma parseCreateOrder_ok:
  assumes "parseCreateOrder g raw = Inr p"
  obtains precision where "MarketPrecision g (cTicker p) = Inr precision" "validCreateOrder p"
    "ParseQuantity precision (rcAmount raw) = Inr (cAmount p)" "parse_price precision raw = Inr (cPrice p)"
    "cOrderType p = rcOrderType raw" "cTicker p = TrimSpace (rcTicker raw)" "cCommandID p = rcCommandID raw"
    "cUserID p = rcUserID raw" "cNonce p = rcNonce raw"
  using assms that by (auto simp: parseCreateOrder_def Let_def split: sum.splits if_splits)

lemma parseEditOrder_ok:
  assumes "parseEditOrder g raw = Inr p"
  obtains precision where "MarketPrecision g (eTicker p) = Inr precision" "validEditOrder p"
    "ParsePrice precision (rePrice raw) = Inr (ePrice p)" "parse_edit_amount precision (reAmount raw) = Inr (eAmount p)"
  using assms that by (auto simp: parseEditOrder_def Let_def split: sum.splits if_splits)

lemma parse_price_ok:
  assumes "parse_price precision raw = Inr price"
  shows "int64 price" "rcOrderType raw = Limit \<Longrightarrow> validatePrice precision price = None"
proof -
  have "int64 0" by (simp add: int64_def min_int64_def max_int64_def)
  then show "int64 price"
    using assms ParseScaled_int64 by (auto simp: parse_price_def split: sum.splits if_splits option.splits)
  show "rcOrderType raw = Limit \<Longrightarrow> validatePrice precision price = None"
    using assms by (auto simp: parse_price_def split: sum.splits if_splits option.splits)
qed

lemma ParseQuantity_ok:
  "ParseQuantity precision raw = Inr q \<Longrightarrow> int64 q \<and> validateQuantity precision q = None"
  "ParsePrice precision raw = Inr q \<Longrightarrow> int64 q \<and> validatePrice precision q = None"
  using ParseScaled_int64 by (auto simp: ParseQuantity_def ParsePrice_def split: sum.splits option.splits)

lemma trimmed_ne: "TrimSpace s \<noteq> [] \<Longrightarrow> s \<noteq> []"
  by auto

text \<open>
  C39. What the handlers parse is well typed for the engine: a create or an amend that parses for
  a served ticker becomes a command that the journal's validation accepts, its numbers fit
  \<open>int64\<close> and they respect the market's tick, lot and limits.
\<close>

theorem parsed_requests_typed:
  assumes "gWorkers g t = Some w" "wTicker w = t" "0 \<le> ConfigVersion (wPrecision w)"
  shows "(\<forall>raw p. parseCreateOrder g raw = Inr p \<and> cTicker p = t \<longrightarrow>
      (\<exists>c. commandFromEvent w ((command_event NewOrder t)\<lparr>evNewOrder := Some p\<rparr>) = Some c \<and>
        ValidateCommand c = None) \<and> int64 (cPrice p) \<and> int64 (cAmount p) \<and>
      validateQuantity (wPrecision w) (cAmount p) = None \<and>
      (cOrderType p = Limit \<longrightarrow> validatePrice (wPrecision w) (cPrice p) = None)) \<and>
    (\<forall>raw p. parseEditOrder g raw = Inr p \<and> eTicker p = t \<longrightarrow>
      (\<exists>c. commandFromEvent w ((command_event EditOrder t)\<lparr>evEditReq := Some p\<rparr>) = Some c \<and>
        ValidateCommand c = None) \<and> int64 (ePrice p) \<and> validatePrice (wPrecision w) (ePrice p) = None \<and>
      (\<forall>q. eAmount p = Some q \<longrightarrow> int64 q \<and> validateQuantity (wPrecision w) q = None))"
proof (intro conjI allI impI; elim conjE)
  fix raw p assume p: "parseCreateOrder g raw = Inr p" "cTicker p = t"
  obtain precision where P: "MarketPrecision g (cTicker p) = Inr precision" "validCreateOrder p"
    "ParseQuantity precision (rcAmount raw) = Inr (cAmount p)" "parse_price precision raw = Inr (cPrice p)"
    "cOrderType p = rcOrderType raw"
    using p(1) by (rule parseCreateOrder_ok)
  have prec: "precision = wPrecision w" using parse_precision P(1) p(2) assms(1) by simp
  show "\<exists>c. commandFromEvent w ((command_event NewOrder t)\<lparr>evNewOrder := Some p\<rparr>) = Some c \<and> ValidateCommand c = None"
    using P(2) p(2) assms(2,3) trimmed_ne
    by (auto simp: commandFromEvent_def blank_command_def ValidateCommand_def payload_identity_def
        valid_create_payload_def validCreateOrder_def Let_def)
  show "int64 (cPrice p)" using parse_price_ok(1) [OF P(4)] .
  show "int64 (cAmount p)" "validateQuantity (wPrecision w) (cAmount p) = None"
    using ParseQuantity_ok(1) [OF P(3)] prec by simp_all
  show "validatePrice (wPrecision w) (cPrice p) = None" if "cOrderType p = Limit"
    using parse_price_ok(2) [OF P(4)] P(5) prec that by simp
next
  fix raw p assume p: "parseEditOrder g raw = Inr p" "eTicker p = t"
  obtain precision where P: "MarketPrecision g (eTicker p) = Inr precision" "validEditOrder p"
    "ParsePrice precision (rePrice raw) = Inr (ePrice p)" "parse_edit_amount precision (reAmount raw) = Inr (eAmount p)"
    using p(1) by (rule parseEditOrder_ok)
  have prec: "precision = wPrecision w" using parse_precision P(1) p(2) assms(1) by simp
  show "\<exists>c. commandFromEvent w ((command_event EditOrder t)\<lparr>evEditReq := Some p\<rparr>) = Some c \<and> ValidateCommand c = None"
    using P(2) p(2) assms(2,3) trimmed_ne
    by (auto simp: commandFromEvent_def blank_command_def ValidateCommand_def payload_identity_def
        valid_amend_payload_def validEditOrder_def AmendCommand_def CreateCommand_def split: option.splits)
  show "int64 (ePrice p)" "validatePrice (wPrecision w) (ePrice p) = None"
    using ParseQuantity_ok(2) [OF P(3)] prec by simp_all
  show "int64 q" "validateQuantity (wPrecision w) q = None" if "eAmount p = Some q" for q
    using P(4) ParseQuantity_ok(1) prec that by (auto simp: parse_edit_amount_def split: option.splits sum.splits)
qed

definition sample_raw :: createOrderRequest where
  "sample_raw = \<lparr>rcCommandID = ''k1'', rcTicker = '' BTC-USD'', rcUserID = ''u'', rcOrderType = Limit,
     rcPosition = Bid, rcPrice = ''101.5'', rcAmount = ''2'', rcNonce = 1\<rparr>"

definition sample_router :: "unit Router" where
  "sample_router = (NewRouter ())\<lparr>gWorkers := [''BTC-USD'' \<mapsto> fresh_worker ''BTC-USD'' DefaultPrecision]\<rparr>"

lemma parsed_requests_typed_witness:
  "case parseCreateOrder sample_router sample_raw of
     Inr p \<Rightarrow> cPrice p = 10150000000 \<and> validatePrice DefaultPrecision (cPrice p) = None
   | Inl _ \<Rightarrow> False"
proof -
  have w: "gWorkers sample_router ''BTC-USD'' = Some (fresh_worker ''BTC-USD'' DefaultPrecision)"
    by (simp add: sample_router_def)
  have d: "WithDefaults DefaultPrecision = DefaultPrecision" "0 \<le> ConfigVersion DefaultPrecision" by code_simp+
  have "case parseCreateOrder sample_router sample_raw of
      Inr p \<Rightarrow> cPrice p = 10150000000 \<and> cTicker p = ''BTC-USD'' \<and> cOrderType p = Limit | Inl _ \<Rightarrow> False"
    by code_simp
  then obtain p where p: "parseCreateOrder sample_router sample_raw = Inr p" "cPrice p = 10150000000"
    "cTicker p = ''BTC-USD''" "cOrderType p = Limit"
    by (auto split: sum.splits)
  have "validatePrice (wPrecision (fresh_worker ''BTC-USD'' DefaultPrecision)) (cPrice p) = None"
    using parsed_requests_typed [OF w] p(1,3,4) d by simp
  then show ?thesis using p(1,2) d(1) by simp
qed

section \<open>An accepted create is journalled\<close>

text \<open>The strings of a decoded JSON document are valid UTF-8; only an object's members matter here.\<close>

definition utf8_member :: "json \<Rightarrow> bool" where
  "utf8_member v = (case v of JStr s \<Rightarrow> valid_utf8 s | _ \<Rightarrow> True)"

definition utf8_body :: "Body \<Rightarrow> bool" where
  "utf8_body body \<longleftrightarrow>
     list_all (\<lambda>v. case v of JObj ms \<Rightarrow> list_all (\<lambda>(_, x). utf8_member x) ms | _ \<Rightarrow> True) (hValues body)"

lemma unmarshal_members_inv:
  assumes "\<And>n upd v x x'. (n, upd) \<in> set fs \<Longrightarrow> utf8_member v \<Longrightarrow> P x \<Longrightarrow> upd v x = Some x' \<Longrightarrow> P x'"
  shows "list_all (\<lambda>(_, x). utf8_member x) ms \<Longrightarrow> P x \<Longrightarrow> unmarshal_members strict fs ms x = Some x' \<Longrightarrow> P x'"
proof (induction ms arbitrary: x)
  case (Cons m ms)
  obtain name v where m: "m = (name, v)" by (cases m)
  show ?case
  proof (cases "find_field fs name")
    case None
    then show ?thesis using Cons m by (auto split: if_splits)
  next
    case (Some upd)
    then obtain n where n: "(n, upd) \<in> set fs"
      by (auto simp: find_field_def dest!: map_of_SomeD find_SomeD split: option.splits)
    obtain x1 where x1: "upd v x = Some x1" "unmarshal_members strict fs ms x1 = Some x'"
      using Cons.prems(3) m Some by (auto split: option.splits)
    have "P x1" using assms [OF n _ Cons.prems(2) x1(1)] Cons.prems(1) m by simp
    then show ?thesis using Cons.IH x1(2) Cons.prems(1) m by simp
  qed
qed simp

lemma decodeJSON_inv:
  assumes "\<And>n upd v x x'. (n, upd) \<in> set fs \<Longrightarrow> utf8_member v \<Longrightarrow> P x \<Longrightarrow> upd v x = Some x' \<Longrightarrow> P x'"
    "P zero" "utf8_body body" "decodeJSON fs zero body = Some x"
  shows "P x"
proof -
  obtain v vs where v: "hValues body = v # vs" using assms(4) by (cases "hValues body") (auto simp: decodeJSON_def)
  then have U: "unmarshal_object True fs v zero = Some x"
    using assms(4) by (auto simp: decodeJSON_def split: option.splits if_splits)
  show ?thesis
  proof (cases v)
    case (JObj ms)
    then have "list_all (\<lambda>(_, x). utf8_member x) ms" "unmarshal_members True fs ms zero = Some x"
      using assms(3) v U by (simp_all add: utf8_body_def unmarshal_object_def)
    then show ?thesis using unmarshal_members_inv [of fs P ms zero True x] assms(1,2) by blast
  qed (use U assms(2) in \<open>simp_all add: unmarshal_object_def\<close>)
qed

definition wire_raw :: "createOrderRequest \<Rightarrow> bool" where
  "wire_raw r \<longleftrightarrow> valid_utf8 (rcCommandID r) \<and> valid_utf8 (rcTicker r) \<and> valid_utf8 (rcUserID r) \<and>
     0 \<le> rcNonce r \<and> rcNonce r \<le> max_uint64"

lemma uint64_literal_range: "uint64_literal v = Some n \<Longrightarrow> 0 \<le> n \<and> n \<le> max_uint64"
  by (cases v) (auto simp: uint64_literal_def dec_val_nonneg split: if_splits)

lemma decode_wire_raw:
  assumes "utf8_body body" "decodeJSON create_request_fields zero_create_request body = Some raw"
  shows "wire_raw raw"
proof (rule decodeJSON_inv [where P = wire_raw, OF _ _ assms])
  show "wire_raw zero_create_request"
    by (simp add: wire_raw_def zero_create_request_def max_uint64_def)
  show "wire_raw r'" if "(n, upd) \<in> set create_request_fields" "utf8_member v" "wire_raw r" "upd v r = Some r'"
    for n upd v r r'
    using that uint64_literal_range
    by (auto simp: create_request_fields_def string_field_def uint_field_def wire_raw_def utf8_member_def
        split: json.splits if_splits option.splits)
qed

text \<open>
  C5. A create that the API accepts is durable: in any life of the engine on its database, when
  the handler answers 202 to a request, the journal holds a command with the request's identity,
  its trimmed ticker and the order the request parses to, and every row of the journal decodes.
\<close>

theorem accepted_create_journalled:
  assumes "postgres_life H (Inr n)" "utf8_body body"
    "createOrder H (engine_io H) body (nRouter n) = (Some resp, g')" "stStatus resp = 202"
  shows "\<exists>raw p L c. decodeJSON create_request_fields zero_create_request body = Some raw \<and>
    parseCreateOrder (nRouter n) raw = Inr p \<and> decode_rows 0 (dbJournal (gWorld g')) = Inr L \<and> c \<in> set L \<and>
    jCommandID c = rcCommandID raw \<and> jTicker c = TrimSpace (rcTicker raw) \<and> jCreate c = Some p"
  using assms(3)
proof (cases rule: createOrder_cases)
  case (refused r)
  then show ?thesis using assms(4) by simp
next
  case (routed raw p)
  let ?ev = "(command_event NewOrder (cTicker p))\<lparr>evNewOrder := Some p\<rparr>"
  obtain precision where P: "ParseQuantity precision (rcAmount raw) = Inr (cAmount p)"
    "parse_price precision raw = Inr (cPrice p)" "cTicker p = TrimSpace (rcTicker raw)"
    "cCommandID p = rcCommandID raw" "cUserID p = rcUserID raw" "cNonce p = rcNonce raw"
    using routed(3) by (rule parseCreateOrder_ok)
  have "wire_raw raw" using decode_wire_raw assms(2) routed(1) by blast
  then have ev: "wire_event ?ev"
    using P parse_price_ok(1) [OF P(2)] ParseQuantity_ok(1) [OF P(1)] valid_utf8_TrimSpace
    by (simp add: wire_event_def wire_command_def wire_raw_def command_event_def)
  have R: "OrderRouter H (engine_io H) ?ev (nRouter n) = (Some None, g')"
    using acceptCommand_answers [OF command_event_commands(1) routed(4)] assms(4) by auto
  obtain w c w' L e where J: "commandFromEvent w ?ev = Some c" "wTicker w = evTicker ?ev"
    "journal_log L (gWorld g')" "e \<in> set L" "SamePayload (default_version c) e"
    using assms(1) ev R by (rule routed_success_journalled) (use that in \<open>auto simp: commandFromEvent_def\<close>)
  have "c = (blank_command w (cCommandID p) CreateCommand)\<lparr>jCreate := Some p\<rparr>"
    using J(1,2) by (simp add: commandFromEvent_def)
  then have "jCommandID e = cCommandID p \<and> jTicker e = cTicker p \<and> jCreate e = Some p"
    using J(2,5) by (simp add: SamePayload_def default_version_def blank_command_def split: if_splits)
  then show ?thesis
    using routed(1,3) J(4) P decoded_log [OF J(3)]
    by (intro exI [of _ raw] exI [of _ p] exI [of _ L] exI [of _ e]) simp
qed

definition sample_body :: Body where
  "sample_body = \<lparr>hValues = [JObj [(''command_id'', JStr ''k1''), (''ticker'', JStr '' BTC-USD ''),
     (''user_id'', JStr ''u''), (''order_type'', JStr Limit), (''position'', JStr Bid),
     (''price'', JStr ''101.5''), (''amount'', JStr ''2''), (''nonce'', JNum ''7'')]], hClean = True\<rparr>"

lemma sample_accepted:
  "case startEngine sample_H (postgres_stores sample_H) market_db of
     Inl _ \<Rightarrow> False
   | Inr g \<Rightarrow>
       (case createOrder sample_H (engine_io sample_H) sample_body g of
          (Some resp, g1) \<Rightarrow> stStatus resp = 202 | (None, g1) \<Rightarrow> False)"
  by code_simp

lemma accepted_create_journalled_witness:
  "case startEngine sample_H (postgres_stores sample_H) market_db of
     Inl _ \<Rightarrow> False
   | Inr g \<Rightarrow>
       (case createOrder sample_H (engine_io sample_H) sample_body g of
          (_, g1) \<Rightarrow> \<exists>L c p. decode_rows 0 (dbJournal (gWorld g1)) = Inr L \<and> c \<in> set L \<and>
            jCommandID c = ''k1'' \<and> jCreate c = Some p)"
proof -
  obtain g where g: "startEngine sample_H (postgres_stores sample_H) market_db = Inr g" "postgres_life sample_H (Inr (at_rest g))"
    by (rule sample_run)
  obtain r g1 where C: "createOrder sample_H (engine_io sample_H) sample_body g = (r, g1)"
    by (cases "createOrder sample_H (engine_io sample_H) sample_body g")
  obtain resp where r: "r = Some resp" "stStatus resp = 202"
    using sample_accepted g(1) C by (cases r) auto
  have "utf8_body sample_body" by code_simp
  from accepted_create_journalled [OF g(2) this _ r(2), unfolded at_rest_simps, OF C [unfolded r(1)]]
  obtain raw p L c where x: "decodeJSON create_request_fields zero_create_request sample_body = Some raw"
    "decode_rows 0 (dbJournal (gWorld g1)) = Inr L" "c \<in> set L" "jCommandID c = rcCommandID raw" "jCreate c = Some p"
    by blast
  have "map_option rcCommandID (decodeJSON create_request_fields zero_create_request sample_body) = Some ''k1''"
    by code_simp
  then have "jCommandID c = ''k1''" using x(1,4) by simp
  then show ?thesis using g(1) C x by auto
qed

end
