(* ===== verification/Spec2Isabelle.thy ===== *)
theory Spec2Isabelle
  imports Numeric BookProperties WorkerProperties StoreProperties JournalProperties RestartProperties ApiProperties Config
begin

text \<open>
  Verification of a central limit order book engine: a Go server that keeps one order book per
  ticker, journals every command in PostgreSQL before it applies it, persists what the command
  did, and rebuilds its books from the journal when it starts.

  \<^bold>\<open>The parts and how they interact.\<close> A request enters \<^verbatim>\<open>internal/api\<close>, which decodes it, parses its
  decimals with \<^verbatim>\<open>internal/numeric\<close> at the market's precision and hands an event to the router of
  \<^verbatim>\<open>internal/engine\<close>. The router passes it to the ticker's worker (\<^verbatim>\<open>bookworker.go\<close>), which appends
  a command to the journal (\<^verbatim>\<open>internal/journal\<close>), applies it to its book (\<^verbatim>\<open>order.go\<close>, over the
  heaps, levels and queues of \<^verbatim>\<open>internal/util\<close>) and to the matching loop (\<^verbatim>\<open>match.go\<close>), sends the
  executions and the order events to the writers of \<^verbatim>\<open>internal/matchlog\<close> and
  \<^verbatim>\<open>internal/orderevent\<close>, and answers. \<^verbatim>\<open>cmd/server\<close> starts all this from the markets of
  \<^verbatim>\<open>internal/market\<close> and the journal, and adds tickers while it serves.

  \<^bold>\<open>The theories and the code they model.\<close>
  \<^item> \<open>Prelude\<close>: \<open>int64\<close> as \<open>int\<close> with the wrap-around written out, and shared lemmas;
    \<open>GoStrings\<close>: the functions of \<^verbatim>\<open>strings\<close> and \<^verbatim>\<open>strconv\<close> on bytes; \<open>Json\<close>: \<^verbatim>\<open>encoding/json\<close> on JSON
    values; \<open>Utf8\<close>: trimming keeps a string valid UTF-8; \<open>Errors\<close>: the program's errors.
  \<^item> \<open>Numeric\<close>: \<^verbatim>\<open>internal/numeric/numeric.go\<close>; \<open>Models\<close>: \<^verbatim>\<open>internal/models\<close> and the order identity
    of \<^verbatim>\<open>internal/util/utils.go\<close>; \<open>Config\<close>: \<^verbatim>\<open>internal/config/config.go\<close>.
  \<^item> \<open>PriceHeap\<close>: levels and the two heaps of \<^verbatim>\<open>internal/util\<close> over \<^verbatim>\<open>container/heap\<close>; \<open>OrderBook\<close>:
    \<^verbatim>\<open>internal/util/queue.go\<close> and \<^verbatim>\<open>internal/engine/order.go\<close>; \<open>MatchLog\<close> and \<open>Matching\<close>: the
    execution record and \<^verbatim>\<open>internal/engine/match.go\<close>.
  \<^item> \<open>PriceTime\<close>: the abstract book, a list of orders in price-time priority for each side;
    \<open>BookInvariant\<close>, \<open>BookRefinement\<close>, \<open>BookSnapshot\<close>, \<open>MatchingCorrect\<close>: the invariant of the
    concrete book and the refinement of each operation; \<open>BookProperties\<close>: their properties.
  \<^item> \<open>Journal\<close>: \<^verbatim>\<open>internal/journal/journal.go\<close>; \<open>OrderEvent\<close> and \<open>EventBuilder\<close>:
    \<^verbatim>\<open>internal/orderevent/event.go\<close> and \<^verbatim>\<open>internal/engine/order_events.go\<close>; \<open>BookWorker\<close>:
    \<^verbatim>\<open>bookworker.go\<close>, \<^verbatim>\<open>event.go\<close> and \<^verbatim>\<open>state.go\<close>; \<open>WorkerBook\<close> and \<open>WorkerCorrect\<close>: what a command
    does to the book and which events it makes; \<open>WorkerProperties\<close>: their properties.
  \<^item> \<open>Database\<close>: the tables and the queries that the generated files under
    \<^verbatim>\<open>internal/*/postgres/db\<close> carry; \<open>JournalStore\<close>, \<open>BatchStore\<close>, \<open>MarketStore\<close>: the stores of
    \<^verbatim>\<open>internal/*/postgres/store.go\<close>; \<open>Persistence\<close>: the writers; \<open>StoreProperties\<close> and
    \<open>JournalProperties\<close>: their properties.
  \<^item> \<open>Router\<close>: \<^verbatim>\<open>internal/engine/router.go\<close>; \<open>Server\<close>: the runtime of \<^verbatim>\<open>cmd/server/main.go\<close>; \<open>Api\<close>:
    \<^verbatim>\<open>internal/api/handler.go\<close> and \<open>Http\<close>: its routes, over the multiplexer of \<^verbatim>\<open>net/http\<close>.
  \<^item> \<open>Interleaving\<close>: the steps of the workers' iterations in any order; \<open>Lives\<close>: the lives of the
    engine, \<open>serve\<close> and \<open>main\<close> of \<^verbatim>\<open>cmd/server/main.go\<close>, and what holds of a worker in each phase; \<open>Durability\<close>:
    what a command saves, and that its replay saves the same; \<open>History\<close>: what a history of commands
    makes of a book.
  \<^item> \<open>JournalContract\<close>, \<open>Recovery\<close>, \<open>Restart\<close>: the contracts of the stores as locales and what the
    engine proves over them; \<open>Deployment\<close>: the engine on PostgreSQL; \<open>RestartProperties\<close> and
    \<open>ApiProperties\<close>: the properties of the whole.

  \<^bold>\<open>How state corresponds.\<close> A struct is a record with a prefix on its fields, a string constant of
  the source is a string. Levels and list elements are pointers in Go and shared between maps,
  heaps and queues, so the book holds stores of them and references (\<open>PriceHeap\<close>, \<open>OrderBook\<close>).
  Everything outside a worker is one value, the world, that the operations of \<open>worker_io\<close> and
  \<open>stores\<close> change; a nil store or channel is \<open>None\<close>. Sending to a channel and waiting for the
  answer is one call, and a routed command is one step of its worker, since the sender waits
  and a worker takes one event at a time. \<open>Interleaving\<close> takes that step apart, at each call that
  reaches the stores, and lets the workers' parts follow each other in any order. The engine state
  is shared by all workers and passed beside them. Errors are values; a panic is an error value;
  \<open>None\<close> as the result of a router's or a handler's call is a call that never
  returns.

  \<^bold>\<open>What the groups of lemmas show.\<close>
  \<^item> The book: the invariant \<open>book_ok\<close> (heap order, index and levels agree, totals are sums) holds
    after every operation, and each operation is the abstract one on the price-time view.
    Matching is the walk of the incoming order over the other side's view: price-time priority,
    conservation of quantity, no cross left, the behaviour on overflow, at most one execution
    more than there are resting orders.
  \<^item> The worker: a command whose new order's identity does not rest already keeps the book sound
    and uncrossed, the events of a command validate, and a halted engine stays halted.
  \<^item> The stores: batches are atomic and idempotent under unique identities, appending to the
    journal is idempotent, an identity names one payload.
  \<^item> The whole: \<open>engine_life\<close> is every sequence of starts, steps, shutdowns and
    crashes of the engine, where the steps of the workers' iterations and added tickers follow
    each other in any order (\<open>engine_step\<close>), on a database that may fail at any
    statement or lose any answer. In all of them the journal determines the books and holds no
    command twice, every book that is served is correct and uncrossed when its orders' identities
    are distinct, a restart after a crash anywhere restores them and applies what a worker had
    journalled and not applied (after a halt the journal alone decides), a start after a clean stop
    succeeds when the database fails no more, a halted engine journals nothing more, a start serves
    the listed markets, a create answered with 202 is in the journal, and a command that is
    acknowledged as successful has its executions and events in the database. A create whose quote
    amount overflows is journalled, halts the engine and lets no later start succeed.
    Where the code fails: an order whose identity repeats orphans the one that rests, an execution
    of quote amount zero is stored with another amount, and \<^verbatim>\<open>math.MinInt64\<close> does not print.
  \<^item> The boundary: parsing is exact, what the handlers parse is what the journal accepts, every
    request is answered and a client's error changes nothing.

  \<^bold>\<open>Interfaces.\<close> \<open>heap_order\<close> (what \<^verbatim>\<open>container/heap\<close> needs of \<open>Less\<close>) is interpreted on both heaps;
  \<open>keyed_table\<close> (a table of rows with identities) on executions and events; \<open>command_journal\<close>,
  \<open>engine_journal\<close>, \<open>engine_stores\<close> and \<open>durable_stores\<close> (what the worker, the router and the
  runtime rely on of their stores: the log and the markets they keep, and that what is saved
  stays saved and can be saved again) on the PostgreSQL model.

  \<^bold>\<open>Parameters and hypotheses.\<close> SHA-256 is an argument \<open>H\<close>; where an event has to validate, \<open>H\<close> gives
  a non-blank string (\<open>nonblank_digest\<close>). What the database does with each statement is the
  script \<open>dbScript\<close>: it proceeds, fails without effect, or takes effect and the
  answer is lost; \<open>honest\<close> says that a failure is not the driver's report of an empty
  result. A constraint the database checks and the program does not is such a failure;
  \<open>unfailing\<close> says that no later statement fails. A life begins on a
  \<open>fresh_database\<close>: no command journalled, identities and tickers unique, the listed
  markets named and with valid precisions, as the schema's keys and checks have it. The strings of
  a decoded JSON document are valid UTF-8 (\<open>utf8_body\<close>, \<open>wire_event\<close>).
  The program does not ensure that identities of orders are distinct: where a property needs it,
  it says that a command's new order has an identity that does not rest already (\<open>fresh_order\<close>)
  or that a ticker's journalled creates have distinct ones (\<open>created\<close>). \<open>room\<close> bounds the orders
  of a book, since the events of a command are numbered with 32 bits.

  \<^bold>\<open>Termination.\<close> No definition has fuel. The matching loop is total by a measure: every pass that
  does not stop takes an order off the book or ends the incoming order. The heap's loops,
  trimming, decoding and replay are structural or have measures on lengths.

  \<^bold>\<open>Not modelled.\<close> Logging
  (\<^verbatim>\<open>internal/engine/log.go\<close>), the text of JSON documents and HTTP
  messages, the flags of \<^verbatim>\<open>cmd/server\<close> (the outcomes of its connection
  pool, listener and HTTP shutdown are arguments of \<open>serve\<close>), the generated
  connection glue, and test data: they are I/O or change no state of the engine. Timers and
  contexts appear as the errors they end with. Blocking on a full channel is not a behaviour of
  the model, so the buffer sizes only appear in \<open>Config\<close>. A call to a store and the
  addition of a ticker are atomic.
\<close>

end
